(* ===== verification/Prelude.thy ===== *)
theory Prelude
  imports Main "HOL-Library.Word"
begin

text \<open>
  Shared vocabulary of the development: the machine types of the C code, the object
  representation of 16-, 32- and 64-bit integers on the little-endian target the native
  code is built for, byte-addressed reads and writes, and the lemma collections that the
  component theories feed.

  \<^item> \<open>u8\<close>, \<open>u16\<close>, \<open>u32\<close>, \<open>u64\<close> are the \<^verbatim>\<open>uintN_t\<close> types; a memory
    region is a \<open>byte list\<close>.
  \<^item> \<open>mem16\<close>/\<open>rd16\<close> (and the 32- and 64-bit versions) are what \<^verbatim>\<open>memcpy\<close> of an
    integer to and from memory does under \<^verbatim>\<open>BADVPN_LITTLE_ENDIAN\<close>.
  \<^item> \<open>mem_write\<close> is \<^verbatim>\<open>memcpy\<close> into a region, \<open>mem_read\<close> a read of a
    sub-region.
\<close>

unbundle bit_operations_syntax

section \<open>Types\<close>

type_synonym u8 = "8 word"
type_synonym u16 = "16 word"
type_synonym u32 = "32 word"
type_synonym u64 = "64 word"
type_synonym byte = u8
type_synonym bytes = "byte list"

named_theorems wire_simps \<open>object representation of integers and packet layouts\<close>
named_theorems mem_simps \<open>reads and writes of byte regions\<close>
named_theorems comp_defs \<open>definitions of the component under proof\<close>

abbreviation INT_MAX :: int where "INT_MAX \<equiv> 2147483647"
abbreviation UINT16_MAX :: int where "UINT16_MAX \<equiv> 65535"

section \<open>Object representation of integers (little endian)\<close>

definition mem16 :: "u16 \<Rightarrow> bytes" where
  "mem16 x = [ucast x, ucast (drop_bit 8 x)]"

definition rd16 :: "bytes \<Rightarrow> u16" where
  "rd16 bs = ucast (bs ! 0) OR push_bit 8 (ucast (bs ! 1))"

definition mem32 :: "u32 \<Rightarrow> bytes" where
  "mem32 x = [ucast x, ucast (drop_bit 8 x), ucast (drop_bit 16 x), ucast (drop_bit 24 x)]"

definition rd32 :: "bytes \<Rightarrow> u32" where
  "rd32 bs = ucast (bs ! 0) OR push_bit 8 (ucast (bs ! 1)) OR
             push_bit 16 (ucast (bs ! 2)) OR push_bit 24 (ucast (bs ! 3))"

lemma length_mem16 [simp]: "length (mem16 x) = 2"
  by (simp add: mem16_def)

lemma length_mem32 [simp]: "length (mem32 x) = 4"
  by (simp add: mem32_def)

lemma bit_u8_high [simp]: "8 \<le> n \<Longrightarrow> \<not> bit (a :: u8) n"
  using bit_imp_le_length [of a n] by auto

lemma rd16_mem16 [simp]: "rd16 (mem16 x) = x"
  unfolding rd16_def mem16_def
  by (rule bit_word_eqI) (auto simp: bit_simps)

lemma rd32_mem32 [simp]: "rd32 (mem32 x) = x"
  unfolding rd32_def mem32_def
  by (rule bit_word_eqI, rename_tac n, case_tac "n < 8"; case_tac "n < 16"; case_tac "n < 24")
     (auto simp: bit_simps)

lemma rd16_append [simp]: "2 \<le> length xs \<Longrightarrow> rd16 (xs @ ys) = rd16 xs"
  by (auto simp: rd16_def nth_append)

lemma rd32_append [simp]: "4 \<le> length xs \<Longrightarrow> rd32 (xs @ ys) = rd32 xs"
  by (auto simp: rd32_def nth_append)

lemma mem16_rd16:
  assumes "length bs = 2"
  shows "mem16 (rd16 bs) = bs"
proof -
  obtain a b where bs: "bs = [a, b]"
    using assms by (auto simp: length_Suc_conv numeral_2_eq_2)
  show ?thesis
    unfolding bs mem16_def rd16_def
    by (auto intro!: bit_word_eqI simp: bit_simps)
qed

lemma mem32_rd32:
  assumes "length bs = 4"
  shows "mem32 (rd32 bs) = bs"
proof -
  obtain a b c d where bs: "bs = [a, b, c, d]"
    using assms by (auto simp: length_Suc_conv numeral_eq_Suc)
  show ?thesis
    unfolding bs mem32_def rd32_def
    by (auto intro!: bit_word_eqI simp: bit_simps)
qed

lemma mem16_inject [simp]: "mem16 x = mem16 y \<longleftrightarrow> x = y"
  by (metis rd16_mem16)

lemma mem32_inject [simp]: "mem32 x = mem32 y \<longleftrightarrow> x = y"
  by (metis rd32_mem32)

section \<open>Byte regions\<close>

definition mem_read :: "nat \<Rightarrow> nat \<Rightarrow> 'a list \<Rightarrow> 'a list" where
  "mem_read off n m = take n (drop off m)"

definition mem_write :: "nat \<Rightarrow> 'a list \<Rightarrow> 'a list \<Rightarrow> 'a list" where
  "mem_write off xs m = take off m @ xs @ drop (off + length xs) m"

lemma length_mem_write [simp, mem_simps]:
  "off + length xs \<le> length m \<Longrightarrow> length (mem_write off xs m) = length m"
  by (simp add: mem_write_def)

lemma length_mem_read [simp, mem_simps]:
  "off + n \<le> length m \<Longrightarrow> length (mem_read off n m) = n"
  by (simp add: mem_read_def)

lemma mem_read_0 [simp, mem_simps]: "mem_read off 0 m = []"
  by (simp add: mem_read_def)

lemma mem_read_write_same [mem_simps]:
  "off + length xs \<le> length m \<Longrightarrow> n = length xs \<Longrightarrow> mem_read off n (mem_write off xs m) = xs"
  by (simp add: mem_read_def mem_write_def)

lemma mem_read_write_before [mem_simps]:
  "off + length xs \<le> length m \<Longrightarrow> off' + n \<le> off \<Longrightarrow>
   mem_read off' n (mem_write off xs m) = mem_read off' n m"
  by (simp add: mem_read_def mem_write_def drop_take)

lemma mem_read_write_after [mem_simps]:
  "off + length xs \<le> length m \<Longrightarrow> off + length xs \<le> off' \<Longrightarrow>
   mem_read off' n (mem_write off xs m) = mem_read off' n m"
  by (simp add: mem_read_def mem_write_def)

lemma mem_read_append: "mem_read off (n1 + n2) m = mem_read off n1 m @ mem_read (off + n1) n2 m"
  by (simp add: mem_read_def take_add drop_drop add.commute)

lemma take_append_exact [simp]: "n = length xs \<Longrightarrow> take n (xs @ ys) = xs"
  by simp

lemma drop_append_exact [simp]: "n = length xs \<Longrightarrow> drop n (xs @ ys) = ys"
  by simp

section \<open>Conversion to a C int\<close>

definition c_int :: "int \<Rightarrow> int" where
  "c_int x = sint (word_of_int x :: 32 word)"

lemma c_int_id: "- INT_MAX - 1 \<le> x \<Longrightarrow> x \<le> INT_MAX \<Longrightarrow> c_int x = x"
  unfolding c_int_def
  by (simp add: int_word_sint)

lemma c_int_range: "- INT_MAX - 1 \<le> c_int x" "c_int x \<le> INT_MAX"
  using sint_ge [of "word_of_int x :: 32 word"] sint_lt [of "word_of_int x :: 32 word"]
  by (simp_all add: c_int_def)

lemma int_le_div_iff:
  fixes a c k :: int
  assumes "0 < k"
  shows "c \<le> a div k \<longleftrightarrow> c * k \<le> a"
proof
  assume "c \<le> a div k"
  then have "c * k \<le> a div k * k" using assms by (simp add: mult_right_mono)
  also have "\<dots> \<le> a" using assms by (metis add_le_cancel_left div_mult_mod_eq le_add_same_cancel1 pos_mod_sign)
  finally show "c * k \<le> a" .
next
  assume "c * k \<le> a"
  then have "c * k div k \<le> a div k" using assms by (rule zdiv_mono1)
  then show "c \<le> a div k" using assms by simp
qed

end
