(* ===== verification/ByteOrder.thy ===== *)
theory ByteOrder
  imports Prelude
begin

text \<open>
  The integer utilities of badvpn: \<^verbatim>\<open>misc/byteorder.h\<close> (byte order conversion on the
  little-endian target), \<^verbatim>\<open>misc/read_write_int.h\<close> (reading and writing integers of a
  given byte order), \<^verbatim>\<open>misc/bsize.h\<close> (size arithmetic with an overflow flag, generic in
  the width of \<^verbatim>\<open>size_t\<close>, the type variable \<open>'s\<close>), \<^verbatim>\<open>misc/balign.h\<close>,
  \<^verbatim>\<open>misc/minmax.h\<close> and \<^verbatim>\<open>misc/compare.h\<close>.
\<close>

section \<open>misc/byteorder.h\<close>

definition badvpn_reverse16 :: "u16 \<Rightarrow> u16" where
  "badvpn_reverse16 x = rd16 [mem16 x ! 1, mem16 x ! 0]"

definition badvpn_reverse32 :: "u32 \<Rightarrow> u32" where
  "badvpn_reverse32 x = rd32 [mem32 x ! 3, mem32 x ! 2, mem32 x ! 1, mem32 x ! 0]"

definition hton8 :: "u8 \<Rightarrow> u8" where "hton8 x = x"
definition hton16 :: "u16 \<Rightarrow> u16" where "hton16 x = badvpn_reverse16 x"
definition hton32 :: "u32 \<Rightarrow> u32" where "hton32 x = badvpn_reverse32 x"
definition htol16 :: "u16 \<Rightarrow> u16" where "htol16 x = x"
definition ntoh8 :: "u8 \<Rightarrow> u8" where "ntoh8 x = hton8 x"
definition ntoh16 :: "u16 \<Rightarrow> u16" where "ntoh16 x = hton16 x"
definition ntoh32 :: "u32 \<Rightarrow> u32" where "ntoh32 x = hton32 x"
definition ltoh16 :: "u16 \<Rightarrow> u16" where "ltoh16 x = htol16 x"

section \<open>misc/read\_write\_int.h\<close>

definition badvpn_read_le16 :: "bytes \<Rightarrow> u16" where
  "badvpn_read_le16 p = push_bit 8 (ucast (p ! 1)) OR ucast (p ! 0)"

definition badvpn_read_le32 :: "bytes \<Rightarrow> u32" where
  "badvpn_read_le32 p = push_bit 24 (ucast (p ! 3)) OR push_bit 16 (ucast (p ! 2)) OR
                        push_bit 8 (ucast (p ! 1)) OR ucast (p ! 0)"

definition badvpn_read_be16 :: "bytes \<Rightarrow> u16" where
  "badvpn_read_be16 p = push_bit 8 (ucast (p ! 0)) OR ucast (p ! 1)"

definition badvpn_read_be32 :: "bytes \<Rightarrow> u32" where
  "badvpn_read_be32 p = push_bit 24 (ucast (p ! 0)) OR push_bit 16 (ucast (p ! 1)) OR
                        push_bit 8 (ucast (p ! 2)) OR ucast (p ! 3)"

text \<open>A write returns the bytes stored from the pointer on.\<close>

definition badvpn_write_le16 :: "u16 \<Rightarrow> bytes" where
  "badvpn_write_le16 x = [ucast x, ucast (drop_bit 8 x)]"

definition badvpn_write_le32 :: "u32 \<Rightarrow> bytes" where
  "badvpn_write_le32 x = [ucast x, ucast (drop_bit 8 x), ucast (drop_bit 16 x), ucast (drop_bit 24 x)]"

definition badvpn_write_be16 :: "u16 \<Rightarrow> bytes" where
  "badvpn_write_be16 x = [ucast (drop_bit 8 x), ucast x]"

definition badvpn_write_be32 :: "u32 \<Rightarrow> bytes" where
  "badvpn_write_be32 x = [ucast (drop_bit 24 x), ucast (drop_bit 16 x), ucast (drop_bit 8 x), ucast x]"

section \<open>misc/bsize.h\<close>

abbreviation SIZE_MAX :: "'s::len word" where "SIZE_MAX \<equiv> - 1"

record 'v bsize_t =
  is_overflow :: bool
  bsize_value :: 'v

definition bsize_fromsize :: "'s::len word \<Rightarrow> 's word bsize_t" where
  "bsize_fromsize v = \<lparr>is_overflow = False, bsize_value = v\<rparr>"

text \<open>
  The C comparison \<^verbatim>\<open>v > SIZE_MAX\<close> converts \<open>v\<close> to \<^verbatim>\<open>size_t\<close> first.
\<close>

definition bsize_fromint :: "int \<Rightarrow> 's::len word bsize_t" where
  "bsize_fromint v = \<lparr>is_overflow = (v < 0 \<or> (word_of_int v :: 's word) > SIZE_MAX),
                      bsize_value = word_of_int v\<rparr>"

definition bsize_overflow :: "'s::len word bsize_t" where
  "bsize_overflow = \<lparr>is_overflow = True, bsize_value = 0\<rparr>"

definition bsize_tosize :: "'s::len word bsize_t \<Rightarrow> 's word option" where
  "bsize_tosize s = (if is_overflow s then None else Some (bsize_value s))"

definition bsize_toint :: "'s::len word bsize_t \<Rightarrow> int option" where
  "bsize_toint s = (if is_overflow s \<or> bsize_value s > word_of_int INT_MAX then None
                    else Some (uint (bsize_value s)))"

definition bsize_add :: "'s::len word bsize_t \<Rightarrow> 's word bsize_t \<Rightarrow> 's word bsize_t" where
  "bsize_add s1 s2 =
     \<lparr>is_overflow = (is_overflow s1 \<or> is_overflow s2 \<or> bsize_value s2 > SIZE_MAX - bsize_value s1),
      bsize_value = bsize_value s1 + bsize_value s2\<rparr>"

definition bsize_max :: "'s::len word bsize_t \<Rightarrow> 's word bsize_t \<Rightarrow> 's word bsize_t" where
  "bsize_max s1 s2 =
     \<lparr>is_overflow = (is_overflow s1 \<or> is_overflow s2),
      bsize_value = of_bool (bsize_value s1 > bsize_value s2) * bsize_value s1 +
                    of_bool (bsize_value s1 \<le> bsize_value s2) * bsize_value s2\<rparr>"

definition bsize_mul :: "'s::len word bsize_t \<Rightarrow> 's word bsize_t \<Rightarrow> 's word bsize_t" where
  "bsize_mul s1 s2 =
     \<lparr>is_overflow = (is_overflow s1 \<or> is_overflow s2 \<or>
        (bsize_value s1 \<noteq> 0 \<and> bsize_value s2 > SIZE_MAX div bsize_value s1)),
      bsize_value = bsize_value s1 * bsize_value s2\<rparr>"

section \<open>misc/balign.h, misc/minmax.h, misc/compare.h\<close>

text \<open>\<^verbatim>\<open>bdivide_up\<close> on the values of its \<^verbatim>\<open>size_t\<close> arguments.\<close>

definition bdivide_up :: "int \<Rightarrow> int \<Rightarrow> int" where
  "bdivide_up a b = (let r = a mod b in if r > 0 then a div b + 1 else a div b)"

definition bmin_int :: "int \<Rightarrow> int \<Rightarrow> int" where
  "bmin_int a b = (if a < b then a else b)"

definition bmax_uint64 :: "u64 \<Rightarrow> u64 \<Rightarrow> u64" where
  "bmax_uint64 a b = (if a > b then a else b)"

definition B_COMPARE :: "'a::linorder \<Rightarrow> 'a \<Rightarrow> int" where
  "B_COMPARE a b = of_bool (a > b) - of_bool (a < b)"

section \<open>Lemmas\<close>

lemma mem16_reverse16 [wire_simps]: "mem16 (badvpn_reverse16 x) = [ucast (drop_bit 8 x), ucast x]"
  unfolding badvpn_reverse16_def by (subst mem16_rd16) (simp_all add: mem16_def)

lemma mem32_reverse32 [wire_simps]:
  "mem32 (badvpn_reverse32 x) = [ucast (drop_bit 24 x), ucast (drop_bit 16 x), ucast (drop_bit 8 x), ucast x]"
  unfolding badvpn_reverse32_def by (subst mem32_rd32) (simp_all add: mem32_def)

lemma badvpn_reverse16_invol [simp]: "badvpn_reverse16 (badvpn_reverse16 x) = x"
proof -
  have "badvpn_reverse16 (badvpn_reverse16 x) = rd16 (mem16 x)"
    unfolding badvpn_reverse16_def [of "badvpn_reverse16 x"] mem16_reverse16
    by (simp add: mem16_def)
  then show ?thesis by simp
qed

lemma badvpn_reverse32_invol [simp]: "badvpn_reverse32 (badvpn_reverse32 x) = x"
proof -
  have "badvpn_reverse32 (badvpn_reverse32 x) = rd32 (mem32 x)"
    unfolding badvpn_reverse32_def [of "badvpn_reverse32 x"] mem32_reverse32
    by (simp add: mem32_def eval_nat_numeral)
  then show ?thesis by simp
qed

lemma ntoh16_hton16 [simp]: "ntoh16 (hton16 x) = x" "hton16 (ntoh16 x) = x"
  by (simp_all add: ntoh16_def hton16_def)

lemma ntoh32_hton32 [simp]: "ntoh32 (hton32 x) = x" "hton32 (ntoh32 x) = x"
  by (simp_all add: ntoh32_def hton32_def)

lemma hton16_eq_iff [simp]: "hton16 x = hton16 y \<longleftrightarrow> x = y"
  by (metis ntoh16_hton16(1))

lemma ntoh16_eq_iff [simp]: "ntoh16 x = ntoh16 y \<longleftrightarrow> x = y"
  by (metis ntoh16_hton16(2))

lemma ntoh32_eq_iff [simp]: "ntoh32 x = ntoh32 y \<longleftrightarrow> x = y"
  by (metis ntoh32_hton32(2))

text \<open>An integer converted to network order and stored has its most significant byte first.\<close>

lemma mem16_hton16 [wire_simps]: "mem16 (hton16 x) = badvpn_write_be16 x"
  by (simp add: hton16_def mem16_reverse16 badvpn_write_be16_def)

lemma mem32_hton32 [wire_simps]: "mem32 (hton32 x) = badvpn_write_be32 x"
  by (simp add: hton32_def mem32_reverse32 badvpn_write_be32_def)

lemma read_be16_mem16: "badvpn_read_be16 (mem16 x) = ntoh16 x"
  by (simp add: badvpn_read_be16_def mem16_def ntoh16_def hton16_def badvpn_reverse16_def rd16_def
      or.commute)

lemma read_write_be16 [simp]: "badvpn_read_be16 (badvpn_write_be16 x) = x"
  by (simp add: mem16_hton16 [symmetric] read_be16_mem16)

lemma read_write_le16 [simp]: "badvpn_read_le16 (badvpn_write_le16 x) = x"
proof -
  have "badvpn_read_le16 (badvpn_write_le16 x) = rd16 (mem16 x)"
    by (simp add: badvpn_read_le16_def badvpn_write_le16_def rd16_def mem16_def or.commute)
  then show ?thesis by simp
qed

lemma uint_max_word_minus:
  "(y :: 's::len word) \<le> SIZE_MAX - x \<longleftrightarrow> uint x + uint y < 2 ^ LENGTH('s)"
proof -
  have "uint x \<le> uint (SIZE_MAX :: 's word)"
    by (simp add: word_le_def [symmetric])
  then have "uint (SIZE_MAX - x) = uint (SIZE_MAX :: 's word) - uint x"
    by (simp only: uint_sub_lem)
  also have "uint (SIZE_MAX :: 's word) = 2 ^ LENGTH('s) - 1"
    by (simp add: unsigned_minus_1_eq_mask mask_eq_exp_minus_1)
  finally show ?thesis by (auto simp: word_le_def)
qed

text \<open>
  The overflow flag is exact: as long as it is clear, the value is the mathematical sum,
  product or maximum.
\<close>

lemma bsize_add_exact:
  assumes "\<not> is_overflow (bsize_add s1 s2)"
  shows "uint (bsize_value (bsize_add s1 s2)) = uint (bsize_value s1) + uint (bsize_value s2)"
proof -
  from assms have "bsize_value s2 \<le> SIZE_MAX - bsize_value s1"
    by (simp add: bsize_add_def not_less)
  then show ?thesis
    by (simp add: bsize_add_def uint_max_word_minus uint_add_lem [symmetric] add.commute)
qed

lemma bsize_max_exact:
  "uint (bsize_value (bsize_max s1 s2)) = max (uint (bsize_value s1)) (uint (bsize_value s2))"
  by (auto simp: bsize_max_def max_def word_le_def word_less_def)

section \<open>Rounding division\<close>

lemma bdivide_up_bounds:
  assumes "0 \<le> a" "0 < b"
  shows "a \<le> b * bdivide_up a b" "b * bdivide_up a b < a + b" "0 \<le> bdivide_up a b"
proof -
  have d: "a = b * (a div b) + a mod b" by simp
  have m: "0 \<le> a mod b" "a mod b < b" using assms by simp_all
  have "a \<le> b * bdivide_up a b \<and> b * bdivide_up a b < a + b"
  proof (cases "0 < a mod b")
    case True
    then have "b * bdivide_up a b = b * (a div b) + b"
      by (simp add: bdivide_up_def Let_def distrib_left)
    with d m True show ?thesis by linarith
  next
    case False
    then have "b * bdivide_up a b = b * (a div b)"
      by (simp add: bdivide_up_def Let_def)
    with d m False show ?thesis using assms(2) by linarith
  qed
  then show "a \<le> b * bdivide_up a b" "b * bdivide_up a b < a + b"
    by blast+
  show "0 \<le> bdivide_up a b"
    using assms by (auto simp: bdivide_up_def Let_def pos_imp_zdiv_nonneg_iff)
qed

lemma bdivide_up_mono:
  assumes "0 < b" "0 \<le> a" "a \<le> a'"
  shows "bdivide_up a b \<le> bdivide_up a' b"
proof (rule ccontr)
  assume "\<not> ?thesis"
  then have "bdivide_up a' b + 1 \<le> bdivide_up a b" by simp
  then have "b * (bdivide_up a' b + 1) \<le> b * bdivide_up a b"
    using assms(1) by (simp add: mult_left_mono)
  moreover have "a' \<le> b * bdivide_up a' b" "b * bdivide_up a b < a + b"
    using bdivide_up_bounds [of a' b] bdivide_up_bounds [of a b] assms by auto
  ultimately show False using assms(3) by (simp add: algebra_simps)
qed

lemma bdivide_up_0 [simp]: "bdivide_up 0 b = 0"
  by (simp add: bdivide_up_def)

lemma bdivide_up_le_iff:
  assumes "0 < b" "0 \<le> a"
  shows "bdivide_up a b \<le> k \<longleftrightarrow> a \<le> b * k"
proof
  assume "bdivide_up a b \<le> k"
  then have "b * bdivide_up a b \<le> b * k" using assms(1) by (simp add: mult_left_mono)
  with bdivide_up_bounds(1) [OF assms(2,1)] show "a \<le> b * k" by linarith
next
  assume le: "a \<le> b * k"
  show "bdivide_up a b \<le> k"
  proof (rule ccontr)
    assume "\<not> bdivide_up a b \<le> k"
    then have "b * (k + 1) \<le> b * bdivide_up a b" using assms(1) by (simp add: mult_left_mono)
    with bdivide_up_bounds(2) [of a b] assms le show False by (simp add: algebra_simps)
  qed
qed

end
