(* ===== verification/Alloc.thy ===== *)
theory Alloc
  imports ByteOrder
begin

text \<open>
  \<^verbatim>\<open>misc/balloc.h\<close>: the allocation wrappers with overflow checks. \<^verbatim>\<open>malloc\<close> and
  \<^verbatim>\<open>realloc\<close> are parameters; a \<^verbatim>\<open>size_t\<close> is a word of any width. The lemmas show that a
  size that is requested is the exact product or sum, so no array is allocated too small.
\<close>

definition BAlloc :: "('s::len word \<Rightarrow> 'm option) \<Rightarrow> 's word \<Rightarrow> 'm option" where
  "BAlloc malloc bytes = (if bytes = 0 then malloc 1 else malloc bytes)"

definition BRealloc :: "('m \<Rightarrow> 's::len word \<Rightarrow> 'm option) \<Rightarrow> 'm \<Rightarrow> 's word \<Rightarrow> 'm option" where
  "BRealloc realloc m bytes = (if bytes = 0 then realloc m 1 else realloc m bytes)"

definition BAllocSize :: "('s::len word \<Rightarrow> 'm option) \<Rightarrow> 's word bsize_t \<Rightarrow> 'm option" where
  "BAllocSize malloc bytes = (if is_overflow bytes then None else BAlloc malloc (bsize_value bytes))"

definition BAllocArray :: "('s::len word \<Rightarrow> 'm option) \<Rightarrow> 's word \<Rightarrow> 's word \<Rightarrow> 'm option" where
  "BAllocArray malloc count bytes =
     (if count = 0 \<or> bytes = 0 then malloc 1
      else if count > SIZE_MAX div bytes then None
      else BAlloc malloc (count * bytes))"

definition BReallocArray ::
    "('m \<Rightarrow> 's::len word \<Rightarrow> 'm option) \<Rightarrow> 'm \<Rightarrow> 's word \<Rightarrow> 's word \<Rightarrow> 'm option" where
  "BReallocArray realloc mem count bytes =
     (if count = 0 \<or> bytes = 0 then realloc mem 1
      else if count > SIZE_MAX div bytes then None
      else realloc mem (count * bytes))"

definition BAllocArray2 ::
    "('s::len word \<Rightarrow> 'm option) \<Rightarrow> 's word \<Rightarrow> 's word \<Rightarrow> 's word \<Rightarrow> 'm option" where
  "BAllocArray2 malloc count2 count1 bytes =
     (if count2 = 0 \<or> count1 = 0 \<or> bytes = 0 then malloc 1
      else if count1 > SIZE_MAX div bytes then None
      else if count2 > SIZE_MAX div (count1 * bytes) then None
      else BAlloc malloc (count2 * (count1 * bytes)))"

text \<open>The two in-place size updates return the new size, or \<^const>\<open>None\<close> for the result 0.\<close>

definition BSizeAdd :: "'s::len word \<Rightarrow> 's word \<Rightarrow> 's word option" where
  "BSizeAdd s add = (if add > SIZE_MAX - s then None else Some (s + add))"

definition BSizeAlign :: "'s::len word \<Rightarrow> 's word \<Rightarrow> 's word option" where
  "BSizeAlign s align =
     (let m = s mod align in
      if m > 0 then (if align - m > SIZE_MAX - s then None else Some (s + (align - m)))
      else Some s)"

section \<open>Exactness\<close>

lemma uint_size_max: "uint (SIZE_MAX :: 's::len word) = 2 ^ LENGTH('s) - 1"
  by (simp add: unsigned_minus_1_eq_mask mask_eq_exp_minus_1)

lemma size_max_div_less:
  fixes a b :: "'s::len word"
  assumes "b \<noteq> 0"
  shows "a > SIZE_MAX div b \<longleftrightarrow> uint a * uint b \<ge> 2 ^ LENGTH('s)"
proof -
  have b: "0 < uint b" using assms by (simp add: word_neq_0_conv word_less_def)
  have "a > SIZE_MAX div b \<longleftrightarrow> uint (SIZE_MAX :: 's word) div uint b < uint a"
    by (simp add: word_less_def uint_div)
  also have "\<dots> \<longleftrightarrow> \<not> uint a * uint b \<le> uint (SIZE_MAX :: 's word)"
    using int_le_div_iff [OF b, of "uint a" "uint (SIZE_MAX :: 's word)"] by linarith
  also have "\<dots> \<longleftrightarrow> uint a * uint b \<ge> 2 ^ LENGTH('s)"
    using uint_size_max [where 's = 's] by linarith
  finally show ?thesis .
qed

lemma uint_mult_exact:
  fixes a b :: "'s::len word"
  assumes "uint a * uint b < 2 ^ LENGTH('s)"
  shows "uint (a * b) = uint a * uint b"
  using assms by (simp add: uint_word_ariths(3))

lemma BAllocArray_exact:
  fixes count bytes :: "'s::len word"
  shows "BAllocArray malloc count bytes =
    (if count = 0 \<or> bytes = 0 then malloc 1
     else if uint count * uint bytes \<ge> 2 ^ LENGTH('s) then None
     else malloc (word_of_int (uint count * uint bytes)))"
proof -
  consider "count = 0 \<or> bytes = 0" | "count \<noteq> 0" "bytes \<noteq> 0" "2 ^ LENGTH('s) \<le> uint count * uint bytes"
    | "count \<noteq> 0" "bytes \<noteq> 0" "uint count * uint bytes < 2 ^ LENGTH('s)"
    using not_le by blast
  then show ?thesis
  proof cases
    case 1
    then show ?thesis by (auto simp: BAllocArray_def)
  next
    case 2
    then show ?thesis using size_max_div_less [of bytes count] by (simp add: BAllocArray_def)
  next
    case 3
    have "count * bytes \<noteq> 0"
    proof
      assume "count * bytes = 0"
      then have "uint count * uint bytes = 0" using uint_mult_exact [OF 3(3)] by simp
      then show False using 3(1,2) by (simp add: uint_0_iff)
    qed
    moreover have "\<not> count > SIZE_MAX div bytes" using size_max_div_less [OF 3(2), of count] 3(3) by simp
    moreover have "word_of_int (uint count * uint bytes) = count * bytes"
      unfolding of_int_mult word_of_int_uint ..
    ultimately show ?thesis using 3 unfolding BAllocArray_def BAlloc_def by (simp only: if_False not_le [symmetric] simp_thms)
  qed
qed

lemma BSizeAdd_exact:
  "BSizeAdd (s :: 's::len word) add =
    (if uint s + uint add < 2 ^ LENGTH('s) then Some (word_of_int (uint s + uint add)) else None)"
  using uint_max_word_minus [of add s] by (auto simp: BSizeAdd_def not_le)

text \<open>Aligning gives the least multiple of the alignment, unless that does not fit.\<close>

lemma BSizeAlign_exact:
  fixes s align :: "'s::len word"
  assumes "align \<noteq> 0"
  shows "BSizeAlign s align =
    (let r = uint align * bdivide_up (uint s) (uint align) in
     if r < 2 ^ LENGTH('s) then Some (word_of_int r) else None)"
proof -
  have a: "0 < uint align" using assms by (simp add: word_neq_0_conv word_less_def)
  have m: "uint (s mod align) = uint s mod uint align" by (simp add: uint_mod)
  have ds: "uint align * (uint s div uint align) + uint s mod uint align = uint s" by simp
  show ?thesis
  proof (cases "s mod align = 0")
    case True
    then have "uint s mod uint align = 0" using m by simp
    then have "uint align * bdivide_up (uint s) (uint align) = uint s"
      using ds by (simp add: bdivide_up_def)
    then show ?thesis using True by (simp add: BSizeAlign_def Let_def)
  next
    case False
    have "uint s mod uint align \<noteq> 0" unfolding m [symmetric] using False by (simp add: uint_0_iff)
    moreover have "0 \<le> uint s mod uint align" using a by simp
    ultimately have pos: "0 < uint s mod uint align" by linarith
    have lt: "uint s mod uint align < uint align" by (rule pos_mod_bound [OF a])
    have u: "uint (align - s mod align) = uint align - uint s mod uint align"
      using lt m uint_sub_lem [of "s mod align" align] by simp
    have r: "uint align * bdivide_up (uint s) (uint align) = uint s + uint (align - s mod align)"
      using pos unfolding u bdivide_up_def Let_def
      by (simp add: distrib_left minus_mod_eq_mult_div [symmetric])
    have "0 < s mod align" using False by (simp add: word_neq_0_conv)
    moreover have "word_of_int (uint s + uint (align - s mod align)) = s + (align - s mod align)" by simp
    ultimately show ?thesis
      unfolding r BSizeAlign_def Let_def
      using uint_max_word_minus [of "align - s mod align" s] by (auto simp: not_le)
  qed
qed

end
