(* ===== verification/ChunkBuffer.thy ===== *)
theory ChunkBuffer
  imports ByteOrder
begin

text \<open>
  \<^verbatim>\<open>structure/ChunkBuffer2.h\<close>: the circular packet buffer behind every badvpn
  \<^verbatim>\<open>PacketBuffer\<close>. The storage is an array of \<^verbatim>\<open>int\<close>-sized blocks; a packet is one
  header block holding its length followed by its data rounded up to whole blocks, and
  never straddles the wrap point. The model keeps the storage as bytes, so that the header
  writes and the packet data written by the client through \<^verbatim>\<open>input_dest\<close> share one
  memory, as in the code.

  The representation predicate \<open>cb_inv b xs ys\<close> says that the buffer holds the packets
  \<open>xs\<close> from \<^verbatim>\<open>start\<close> on and the packets \<open>ys\<close> after the wrap. The lemmas show that
  \<^verbatim>\<open>SubmitPacket\<close> and \<^verbatim>\<open>ConsumePacket\<close> refine appending to and removing from a FIFO
  list of packets, that every assertion of the code holds, and that a buffer sized by
  \<^verbatim>\<open>calc_blocks\<close> really takes the promised number of packets.
\<close>

section \<open>Data\<close>

record ChunkBuffer2 =
  cb_buffer :: bytes
  cb_size :: int
  cb_wrap :: int
  cb_start :: int
  cb_used :: int
  cb_mtu :: int
  cb_input_dest :: "int option"
  cb_input_avail :: int
  cb_output_dest :: "int option"
  cb_output_avail :: int

text \<open>
  \<^verbatim>\<open>sizeof(struct ChunkBuffer2_block)\<close>, and the \<^verbatim>\<open>len\<close> field of a block. Pointers into the buffer are byte offsets.
\<close>

abbreviation BLOCK_SIZE :: int where "BLOCK_SIZE \<equiv> 4"

definition block_len :: "bytes \<Rightarrow> int \<Rightarrow> int" where
  "block_len buf i = sint (rd32 (mem_read (nat (BLOCK_SIZE * i)) 4 buf))"

definition set_block_len :: "bytes \<Rightarrow> int \<Rightarrow> int \<Rightarrow> bytes" where
  "set_block_len buf i len = mem_write (nat (BLOCK_SIZE * i)) (mem32 (word_of_int len)) buf"

section \<open>Operations\<close>

definition ChunkBuffer2_end :: "ChunkBuffer2 \<Rightarrow> int" where
  "ChunkBuffer2_end b =
     (if cb_used b \<ge> cb_wrap b - cb_start b
      then cb_used b - (cb_wrap b - cb_start b)
      else cb_start b + cb_used b)"

definition ChunkBuffer2_assert_buffer :: "ChunkBuffer2 \<Rightarrow> bool" where
  "ChunkBuffer2_assert_buffer b \<longleftrightarrow>
     cb_size b > 0 \<and> cb_wrap b > 0 \<and> cb_wrap b \<le> cb_size b \<and>
     cb_start b \<ge> 0 \<and> cb_start b < cb_wrap b \<and>
     cb_used b \<ge> 0 \<and> cb_used b \<le> cb_wrap b \<and>
     (cb_wrap b = cb_size b \<or> cb_used b \<ge> cb_wrap b - cb_start b) \<and>
     cb_mtu b \<ge> 0"

definition ChunkBuffer2_assert_io :: "ChunkBuffer2 \<Rightarrow> bool" where
  "ChunkBuffer2_assert_io b \<longleftrightarrow>
     (let end = ChunkBuffer2_end b in
      if cb_size b - end - 1 < cb_mtu b
      then cb_input_dest b = None \<and> cb_input_avail b = -1
      else (let free = (if cb_used b \<ge> cb_wrap b - cb_start b then cb_start b - end
                        else cb_size b - end) in
            if free > 0
            then cb_input_dest b = Some (BLOCK_SIZE * (end + 1)) \<and>
                 cb_input_avail b = (free - 1) * BLOCK_SIZE
            else cb_input_dest b = None \<and> cb_input_avail b = -1)) \<and>
     (if cb_used b > 0
      then (let datalen = block_len (cb_buffer b) (cb_start b);
                blocklen = bdivide_up datalen BLOCK_SIZE in
            datalen \<ge> 0 \<and> blocklen \<le> cb_used b - 1 \<and>
            blocklen \<le> cb_wrap b - cb_start b - 1 \<and>
            cb_output_dest b = Some (BLOCK_SIZE * (cb_start b + 1)) \<and>
            cb_output_avail b = datalen)
      else cb_output_dest b = None \<and> cb_output_avail b = -1)"

definition ChunkBuffer2_update_input :: "ChunkBuffer2 \<Rightarrow> ChunkBuffer2" where
  "ChunkBuffer2_update_input b =
     (let end = ChunkBuffer2_end b in
      if cb_size b - end - 1 < cb_mtu b
      then b\<lparr>cb_input_dest := None, cb_input_avail := -1\<rparr>
      else (let free = (if cb_used b \<ge> cb_wrap b - cb_start b then cb_start b - end
                        else cb_size b - end) in
            if free > 0
            then b\<lparr>cb_input_dest := Some (BLOCK_SIZE * (end + 1)),
                   cb_input_avail := c_int ((free - 1) * BLOCK_SIZE)\<rparr>
            else b\<lparr>cb_input_dest := None, cb_input_avail := -1\<rparr>))"

definition ChunkBuffer2_update_output :: "ChunkBuffer2 \<Rightarrow> ChunkBuffer2" where
  "ChunkBuffer2_update_output b =
     (if cb_used b > 0
      then b\<lparr>cb_output_dest := Some (BLOCK_SIZE * (cb_start b + 1)),
             cb_output_avail := block_len (cb_buffer b) (cb_start b)\<rparr>
      else b\<lparr>cb_output_dest := None, cb_output_avail := -1\<rparr>)"

definition ChunkBuffer2_calc_blocks :: "int \<Rightarrow> int \<Rightarrow> int" where
  "ChunkBuffer2_calc_blocks chunk_len num =
     (let chunk_data_blocks = bdivide_up chunk_len BLOCK_SIZE in
      if chunk_data_blocks > INT_MAX - 1 then -1
      else let chunk_blocks = 1 + chunk_data_blocks in
        if num > INT_MAX - 1 then -1
        else let num_chunks = num + 1 in
          if chunk_blocks > INT_MAX div num_chunks then -1
          else chunk_blocks * num_chunks)"

text \<open>The two pointer fields are set before they are read; the model starts them as NULL.\<close>

definition ChunkBuffer2_Init :: "bytes \<Rightarrow> int \<Rightarrow> int \<Rightarrow> ChunkBuffer2" where
  "ChunkBuffer2_Init buffer blocks mtu =
     (let b = \<lparr>cb_buffer = buffer, cb_size = blocks, cb_wrap = blocks, cb_start = 0, cb_used = 0,
               cb_mtu = bdivide_up mtu BLOCK_SIZE,
               cb_input_dest = None, cb_input_avail = -1,
               cb_output_dest = None, cb_output_avail = -1\<rparr>
      in ChunkBuffer2_update_output (ChunkBuffer2_update_input b))"

definition ChunkBuffer2_SubmitPacket :: "ChunkBuffer2 \<Rightarrow> int \<Rightarrow> ChunkBuffer2" where
  "ChunkBuffer2_SubmitPacket b len =
     (let end = ChunkBuffer2_end b;
          blocklen = bdivide_up len BLOCK_SIZE;
          b1 = b\<lparr>cb_buffer := set_block_len (cb_buffer b) end len,
                 cb_used := cb_used b + (1 + blocklen)\<rparr>;
          b2 = (if cb_used b1 \<le> cb_wrap b1 - cb_start b1 \<and>
                   cb_mtu b1 > cb_size b1 - (end + 1 + blocklen) - 1
                then b1\<lparr>cb_wrap := end + 1 + blocklen\<rparr> else b1);
          b3 = ChunkBuffer2_update_input b2
      in if cb_used b3 = 1 + blocklen then ChunkBuffer2_update_output b3 else b3)"

definition ChunkBuffer2_ConsumePacket :: "ChunkBuffer2 \<Rightarrow> ChunkBuffer2" where
  "ChunkBuffer2_ConsumePacket b =
     (let blocklen = bdivide_up (block_len (cb_buffer b) (cb_start b)) BLOCK_SIZE;
          data_wrapped = (cb_used b \<ge> cb_wrap b - cb_start b);
          b1 = b\<lparr>cb_start := cb_start b + (1 + blocklen), cb_used := cb_used b - (1 + blocklen)\<rparr>;
          b2 = (if cb_start b1 = cb_wrap b1 then b1\<lparr>cb_start := 0, cb_wrap := cb_size b1\<rparr> else b1);
          b3 = (if data_wrapped then ChunkBuffer2_update_input b2 else b2)
      in ChunkBuffer2_update_output b3)"

text \<open>
  The client's side: bytes stored through \<^verbatim>\<open>input_dest\<close> before a submission, and the
  bytes read through \<^verbatim>\<open>output_dest\<close>.
\<close>

definition cb_fill :: "ChunkBuffer2 \<Rightarrow> bytes \<Rightarrow> ChunkBuffer2" where
  "cb_fill b x = b\<lparr>cb_buffer := mem_write (nat (the (cb_input_dest b))) x (cb_buffer b)\<rparr>"

definition cb_output :: "ChunkBuffer2 \<Rightarrow> bytes" where
  "cb_output b = mem_read (nat (the (cb_output_dest b))) (nat (cb_output_avail b)) (cb_buffer b)"

section \<open>Representation\<close>

definition data_blocks :: "bytes \<Rightarrow> int" where
  "data_blocks x = bdivide_up (int (length x)) BLOCK_SIZE"

definition nblocks :: "bytes list \<Rightarrow> int" where
  "nblocks xs = sum_list (map (\<lambda>x. 1 + data_blocks x) xs)"

primrec chunks :: "bytes \<Rightarrow> int \<Rightarrow> bytes list \<Rightarrow> bool" where
  "chunks buf p [] \<longleftrightarrow> True"
| "chunks buf p (x # xs) \<longleftrightarrow>
     block_len buf p = int (length x) \<and>
     mem_read (nat (BLOCK_SIZE * (p + 1))) (length x) buf = x \<and>
     chunks buf (p + 1 + data_blocks x) xs"

definition cb_geometry :: "ChunkBuffer2 \<Rightarrow> bool" where
  "cb_geometry b \<longleftrightarrow>
     ChunkBuffer2_assert_buffer b \<and> BLOCK_SIZE * cb_size b \<le> INT_MAX \<and>
     int (length (cb_buffer b)) = BLOCK_SIZE * cb_size b \<and> cb_mtu b + 1 \<le> cb_size b"

definition cb_contents :: "ChunkBuffer2 \<Rightarrow> bytes list \<Rightarrow> bytes list \<Rightarrow> bool" where
  "cb_contents b xs ys \<longleftrightarrow>
     chunks (cb_buffer b) (cb_start b) xs \<and> chunks (cb_buffer b) 0 ys \<and>
     (\<forall>x \<in> set (xs @ ys). data_blocks x \<le> cb_mtu b) \<and>
     (if cb_used b \<ge> cb_wrap b - cb_start b
      then nblocks xs = cb_wrap b - cb_start b \<and>
           nblocks ys = cb_used b - (cb_wrap b - cb_start b) \<and>
           nblocks ys \<le> cb_start b \<and>
           cb_size b \<le> cb_wrap b + cb_mtu b \<and>
           cb_start b + nblocks (butlast xs) + cb_mtu b + 1 \<le> cb_size b
      else ys = [] \<and> nblocks xs = cb_used b \<and> cb_wrap b = cb_size b \<and>
           cb_start b + cb_used b + cb_mtu b + 1 \<le> cb_size b)"

definition cb_inv :: "ChunkBuffer2 \<Rightarrow> bytes list \<Rightarrow> bytes list \<Rightarrow> bool" where
  "cb_inv b xs ys \<longleftrightarrow> cb_geometry b \<and> cb_contents b xs ys \<and> ChunkBuffer2_assert_io b"

section \<open>Blocks and chunks\<close>

lemma data_blocks_nonneg [simp]: "0 \<le> data_blocks x"
  unfolding data_blocks_def by (rule bdivide_up_bounds(3)) simp_all

lemma nblocks_simps [simp]:
  "nblocks [] = 0" "nblocks (x # xs) = 1 + data_blocks x + nblocks xs"
  "nblocks (xs @ ys) = nblocks xs + nblocks ys"
  by (simp_all add: nblocks_def)

lemma nblocks_nonneg [simp]: "0 \<le> nblocks xs"
  by (induction xs) (simp_all add: add_nonneg_nonneg)

lemma nblocks_pos: "xs \<noteq> [] \<Longrightarrow> 0 < nblocks xs"
  by (cases xs) (simp_all add: add_pos_nonneg)

lemma nblocks_le: "\<forall>x \<in> set xs. data_blocks x \<le> m \<Longrightarrow> nblocks xs \<le> (1 + m) * int (length xs)"
  by (induction xs) (auto simp: algebra_simps)

lemma data_blocks_bytes: "int (length x) \<le> BLOCK_SIZE * data_blocks x"
  unfolding data_blocks_def by (rule bdivide_up_bounds(1)) simp_all

lemma chunks_append [simp]:
  "chunks buf p (xs @ ys) \<longleftrightarrow> chunks buf p xs \<and> chunks buf (p + nblocks xs) ys"
  by (induction xs arbitrary: p) (auto simp: algebra_simps)

lemma block_len_set_same:
  assumes "0 \<le> p" "BLOCK_SIZE * p + 4 \<le> int (length buf)" "0 \<le> l" "l \<le> INT_MAX"
  shows "block_len (set_block_len buf p l) p = l"
proof -
  have "nat (BLOCK_SIZE * p) + length (mem32 (word_of_int l :: 32 word)) \<le> length buf"
    using assms(1,2) by simp
  then have "mem_read (nat (BLOCK_SIZE * p)) 4 (set_block_len buf p l) = mem32 (word_of_int l)"
    unfolding set_block_len_def by (rule mem_read_write_same) simp
  then have "block_len (set_block_len buf p l) p = sint (word_of_int l :: 32 word)"
    unfolding block_len_def by (simp add: rd32_mem32)
  also have "\<dots> = l" using c_int_id [of l] assms(3,4) by (simp add: c_int_def)
  finally show ?thesis .
qed

lemma mem_read_write_disjoint:
  assumes "off + length xs \<le> length m" "off' + n \<le> off \<or> off + length xs \<le> off'"
  shows "mem_read off' n (mem_write off xs m) = mem_read off' n m"
  using assms by (auto simp: mem_read_write_before mem_read_write_after)

text \<open>A write outside the blocks of a run of packets leaves the run intact.\<close>

lemma chunks_write:
  assumes "off + length w \<le> length buf" "0 \<le> p"
    and "int off + int (length w) \<le> BLOCK_SIZE * p \<or> BLOCK_SIZE * (p + nblocks xs) \<le> int off"
  shows "chunks (mem_write off w buf) p xs \<longleftrightarrow> chunks buf p xs"
  using assms(2,3)
proof (induction xs arbitrary: p)
  case Nil
  then show ?case by simp
next
  case (Cons x xs)
  have nb: "0 \<le> data_blocks x" "0 \<le> nblocks xs" and lx: "int (length x) \<le> BLOCK_SIZE * data_blocks x"
    by (simp_all add: data_blocks_bytes)
  have c: "int off + int (length w) \<le> 4 * p \<or> 4 * p + 4 + 4 * data_blocks x + 4 * nblocks xs \<le> int off"
    using Cons.prems(2) by (simp add: algebra_simps)
  obtain k where k: "p = int k" using Cons.prems(1) nonneg_int_cases by blast
  have n: "nat (BLOCK_SIZE * p) = 4 * k" "nat (BLOCK_SIZE * (p + 1)) = 4 * k + 4" using k by simp_all
  have h: "mem_read (nat (BLOCK_SIZE * p)) 4 (mem_write off w buf) = mem_read (nat (BLOCK_SIZE * p)) 4 buf"
    unfolding n by (rule mem_read_write_disjoint [OF assms(1)]) (use c nb k in linarith)
  have d: "mem_read (nat (BLOCK_SIZE * (p + 1))) (length x) (mem_write off w buf) =
        mem_read (nat (BLOCK_SIZE * (p + 1))) (length x) buf"
    unfolding n by (rule mem_read_write_disjoint [OF assms(1)]) (use c nb lx k in linarith)
  have "chunks (mem_write off w buf) (p + 1 + data_blocks x) xs = chunks buf (p + 1 + data_blocks x) xs"
    by (rule Cons.IH) (use c nb Cons.prems(1) in \<open>simp_all add: algebra_simps, linarith?\<close>)
  with h d show ?case by (simp add: block_len_def)
qed

text \<open>Storing a packet at block \<open>e\<close>: its data through the input pointer, then its header.\<close>

definition put_packet :: "bytes \<Rightarrow> int \<Rightarrow> bytes \<Rightarrow> bytes" where
  "put_packet buf e x =
     set_block_len (mem_write (nat (BLOCK_SIZE * (e + 1))) x buf) e (int (length x))"

lemma put_packet:
  assumes "0 \<le> e" "BLOCK_SIZE * (e + 1 + data_blocks x) \<le> int (length buf)"
    "int (length buf) \<le> INT_MAX"
  shows length_put_packet: "length (put_packet buf e x) = length buf"
    and chunks_put_packet_same: "chunks (put_packet buf e x) e [x]"
    and chunks_put_packet_other:
      "0 \<le> p \<Longrightarrow> p + nblocks zs \<le> e \<or> e + 1 + data_blocks x \<le> p \<Longrightarrow>
       chunks (put_packet buf e x) p zs \<longleftrightarrow> chunks buf p zs"
proof -
  have lx: "int (length x) \<le> BLOCK_SIZE * data_blocks x" by (rule data_blocks_bytes)
  obtain k where k: "e = int k" using assms(1) nonneg_int_cases by blast
  have n: "nat (BLOCK_SIZE * e) = 4 * k" "nat (BLOCK_SIZE * (e + 1)) = 4 * k + 4"
    using k by simp_all
  define buf1 where "buf1 = mem_write (4 * k + 4) x buf"
  have a: "4 * int k + 4 + 4 * data_blocks x \<le> int (length buf)" using assms(2) k by (simp add: algebra_simps)
  have w1: "4 * k + 4 + length x \<le> length buf" using a lx by linarith
  have l1: "length buf1 = length buf" using w1 by (simp add: buf1_def)
  have w2: "4 * k + length (mem32 (word_of_int (int (length x)) :: 32 word)) \<le> length buf1"
    using w1 l1 by simp
  have pp: "put_packet buf e x = set_block_len buf1 e (int (length x))"
    unfolding put_packet_def buf1_def n ..
  have pw: "put_packet buf e x = mem_write (4 * k) (mem32 (word_of_int (int (length x)))) buf1"
    unfolding pp set_block_len_def n ..
  show "length (put_packet buf e x) = length buf" unfolding pw using w2 l1 by simp
  have "block_len (put_packet buf e x) e = int (length x)"
    unfolding pp using w1 l1 k assms(3) by (intro block_len_set_same) simp_all
  moreover have "mem_read (4 * k + 4) (length x) (put_packet buf e x) = x"
    unfolding pw using w1 w2
    by (subst mem_read_write_after) (simp_all add: buf1_def mem_read_write_same)
  ultimately show "chunks (put_packet buf e x) e [x]" unfolding chunks.simps n by simp
  assume p: "0 \<le> p" "p + nblocks zs \<le> e \<or> e + 1 + data_blocks x \<le> p"
  have q: "4 * p + 4 * nblocks zs \<le> 4 * int k \<or> 4 * int k + 4 + 4 * data_blocks x \<le> 4 * p"
    using p(2) k by linarith
  have "chunks (put_packet buf e x) p zs = chunks buf1 p zs"
    unfolding pw by (rule chunks_write [OF w2 p(1)])
      (use q data_blocks_nonneg [of x] in \<open>simp only: distrib_left length_mem32 of_nat_mult of_nat_numeral, linarith\<close>)
  also have "\<dots> = chunks buf p zs"
    unfolding buf1_def by (rule chunks_write [OF w1 p(1)])
      (use q lx in \<open>simp only: distrib_left of_nat_add of_nat_mult of_nat_numeral, linarith\<close>)
  finally show "chunks (put_packet buf e x) p zs \<longleftrightarrow> chunks buf p zs" .
qed

section \<open>The input and output windows\<close>

abbreviation cb_wrapped :: "ChunkBuffer2 \<Rightarrow> bool" where
  "cb_wrapped b \<equiv> cb_used b \<ge> cb_wrap b - cb_start b"

definition cb_free :: "ChunkBuffer2 \<Rightarrow> int" where
  "cb_free b = (if cb_wrapped b then cb_start b - ChunkBuffer2_end b else cb_size b - ChunkBuffer2_end b)"

definition cb_input_ok :: "ChunkBuffer2 \<Rightarrow> bool" where
  "cb_input_ok b \<longleftrightarrow>
     (if cb_size b - ChunkBuffer2_end b - 1 < cb_mtu b \<or> cb_free b \<le> 0
      then cb_input_dest b = None \<and> cb_input_avail b = -1
      else cb_input_dest b = Some (BLOCK_SIZE * (ChunkBuffer2_end b + 1)) \<and>
           cb_input_avail b = (cb_free b - 1) * BLOCK_SIZE)"

definition cb_output_ok :: "ChunkBuffer2 \<Rightarrow> bool" where
  "cb_output_ok b \<longleftrightarrow>
     (if cb_used b > 0
      then (let datalen = block_len (cb_buffer b) (cb_start b);
                blocklen = bdivide_up datalen BLOCK_SIZE in
            datalen \<ge> 0 \<and> blocklen \<le> cb_used b - 1 \<and>
            blocklen \<le> cb_wrap b - cb_start b - 1 \<and>
            cb_output_dest b = Some (BLOCK_SIZE * (cb_start b + 1)) \<and>
            cb_output_avail b = datalen)
      else cb_output_dest b = None \<and> cb_output_avail b = -1)"

lemma assert_io_split: "ChunkBuffer2_assert_io b \<longleftrightarrow> cb_input_ok b \<and> cb_output_ok b"
  unfolding ChunkBuffer2_assert_io_def cb_input_ok_def cb_output_ok_def cb_free_def Let_def
  by (auto split: if_splits)

lemma update_input_fields [simp]:
  "cb_buffer (ChunkBuffer2_update_input b) = cb_buffer b" "cb_size (ChunkBuffer2_update_input b) = cb_size b"
  "cb_wrap (ChunkBuffer2_update_input b) = cb_wrap b" "cb_start (ChunkBuffer2_update_input b) = cb_start b"
  "cb_used (ChunkBuffer2_update_input b) = cb_used b" "cb_mtu (ChunkBuffer2_update_input b) = cb_mtu b"
  "cb_output_dest (ChunkBuffer2_update_input b) = cb_output_dest b"
  "cb_output_avail (ChunkBuffer2_update_input b) = cb_output_avail b"
  by (simp_all add: ChunkBuffer2_update_input_def Let_def)

lemma update_output_fields [simp]:
  "cb_buffer (ChunkBuffer2_update_output b) = cb_buffer b" "cb_size (ChunkBuffer2_update_output b) = cb_size b"
  "cb_wrap (ChunkBuffer2_update_output b) = cb_wrap b" "cb_start (ChunkBuffer2_update_output b) = cb_start b"
  "cb_used (ChunkBuffer2_update_output b) = cb_used b" "cb_mtu (ChunkBuffer2_update_output b) = cb_mtu b"
  "cb_input_dest (ChunkBuffer2_update_output b) = cb_input_dest b"
  "cb_input_avail (ChunkBuffer2_update_output b) = cb_input_avail b"
  by (simp_all add: ChunkBuffer2_update_output_def)

text \<open>The derived quantities and the representation only look at the state fields.\<close>

lemma cb_fields_cong:
  assumes "cb_buffer b' = cb_buffer b" "cb_size b' = cb_size b" "cb_wrap b' = cb_wrap b"
    "cb_start b' = cb_start b" "cb_used b' = cb_used b" "cb_mtu b' = cb_mtu b"
  shows "ChunkBuffer2_end b' = ChunkBuffer2_end b" "cb_free b' = cb_free b"
    "cb_geometry b' = cb_geometry b" "cb_contents b' xs ys = cb_contents b xs ys"
  using assms
  by (simp_all add: ChunkBuffer2_end_def cb_free_def cb_geometry_def ChunkBuffer2_assert_buffer_def
      cb_contents_def)

lemma update_io_derived [simp]:
  "ChunkBuffer2_end (ChunkBuffer2_update_input b) = ChunkBuffer2_end b"
  "ChunkBuffer2_end (ChunkBuffer2_update_output b) = ChunkBuffer2_end b"
  "cb_free (ChunkBuffer2_update_input b) = cb_free b"
  "cb_free (ChunkBuffer2_update_output b) = cb_free b"
  "cb_geometry (ChunkBuffer2_update_input b) = cb_geometry b"
  "cb_geometry (ChunkBuffer2_update_output b) = cb_geometry b"
  "cb_contents (ChunkBuffer2_update_input b) xs ys = cb_contents b xs ys"
  "cb_contents (ChunkBuffer2_update_output b) xs ys = cb_contents b xs ys"
  by (rule cb_fields_cong; simp)+

lemma cb_geometryD:
  assumes "cb_geometry b"
  shows "0 < cb_size b" "0 < cb_wrap b" "cb_wrap b \<le> cb_size b" "0 \<le> cb_start b" "cb_start b < cb_wrap b"
    "0 \<le> cb_used b" "cb_used b \<le> cb_wrap b" "0 \<le> cb_mtu b" "cb_mtu b + 1 \<le> cb_size b"
    "BLOCK_SIZE * cb_size b \<le> INT_MAX" "int (length (cb_buffer b)) = BLOCK_SIZE * cb_size b"
  using assms by (simp_all add: cb_geometry_def ChunkBuffer2_assert_buffer_def)

lemma cb_contents_wrapped:
  assumes "cb_contents b xs ys" "cb_wrapped b"
  shows "nblocks xs = cb_wrap b - cb_start b" "nblocks ys = cb_used b - (cb_wrap b - cb_start b)"
    "nblocks ys \<le> cb_start b" "cb_size b \<le> cb_wrap b + cb_mtu b"
    "cb_start b + nblocks (butlast xs) + cb_mtu b + 1 \<le> cb_size b" "ChunkBuffer2_end b = nblocks ys"
  using assms by (simp_all add: cb_contents_def ChunkBuffer2_end_def)

lemma cb_contents_unwrapped:
  assumes "cb_contents b xs ys" "\<not> cb_wrapped b"
  shows "ys = []" "nblocks xs = cb_used b" "cb_wrap b = cb_size b"
    "cb_start b + cb_used b + cb_mtu b + 1 \<le> cb_size b" "ChunkBuffer2_end b = cb_start b + cb_used b"
  using assms by (simp_all add: cb_contents_def ChunkBuffer2_end_def)

lemma cb_end_bounds:
  assumes g: "cb_geometry b" and c: "cb_contents b xs ys"
  shows "0 \<le> ChunkBuffer2_end b" "ChunkBuffer2_end b + cb_mtu b + 1 \<le> cb_size b"
    "cb_free b \<le> cb_size b"
proof -
  note gs = cb_geometryD [OF g]
  have "0 \<le> ChunkBuffer2_end b \<and> ChunkBuffer2_end b + cb_mtu b + 1 \<le> cb_size b \<and> cb_free b \<le> cb_size b"
  proof (cases "cb_wrapped b")
    case True
    then have "cb_free b = cb_start b - ChunkBuffer2_end b" by (simp add: cb_free_def)
    with gs cb_contents_wrapped [OF c True] nblocks_nonneg [of ys] nblocks_nonneg [of "butlast xs"]
    show ?thesis by linarith
  next
    case False
    then have "cb_free b = cb_size b - ChunkBuffer2_end b" by (simp add: cb_free_def)
    with gs cb_contents_unwrapped [OF c False] show ?thesis by linarith
  qed
  then show "0 \<le> ChunkBuffer2_end b" "ChunkBuffer2_end b + cb_mtu b + 1 \<le> cb_size b"
    "cb_free b \<le> cb_size b" by simp_all
qed

lemma nblocks_head:
  "0 < nblocks xs \<Longrightarrow> \<exists>x xs'. xs = x # xs' \<and> 1 + data_blocks x \<le> nblocks xs"
  by (cases xs) simp_all

lemma cb_contents_nonempty:
  assumes g: "cb_geometry b" and c: "cb_contents b xs ys" and u: "0 < cb_used b"
  obtains x xs' where "xs = x # xs'" "block_len (cb_buffer b) (cb_start b) = int (length x)"
    "1 + data_blocks x \<le> cb_used b" "1 + data_blocks x \<le> cb_wrap b - cb_start b"
proof -
  have n: "0 < nblocks xs \<and> nblocks xs \<le> cb_used b \<and> nblocks xs \<le> cb_wrap b - cb_start b"
  proof (cases "cb_wrapped b")
    case True
    with cb_geometryD(5) [OF g] cb_contents_wrapped(1) [OF c True] show ?thesis by linarith
  next
    case False
    with u cb_contents_unwrapped(2) [OF c False] show ?thesis by linarith
  qed
  then obtain x xs' where x: "xs = x # xs'" "1 + data_blocks x \<le> nblocks xs"
    using nblocks_head by blast
  moreover have "block_len (cb_buffer b) (cb_start b) = int (length x)"
    using c x(1) by (simp add: cb_contents_def)
  ultimately show ?thesis using n by (intro that [of x xs']) linarith+
qed

lemma cb_io_fields_cong [simp]:
  "ChunkBuffer2_end (b\<lparr>cb_input_dest := d, cb_input_avail := a\<rparr>) = ChunkBuffer2_end b"
  "cb_free (b\<lparr>cb_input_dest := d, cb_input_avail := a\<rparr>) = cb_free b"
  by (simp_all add: ChunkBuffer2_end_def cb_free_def)

lemma update_input_ok:
  assumes "cb_geometry b" "cb_free b \<le> cb_size b"
  shows "cb_input_ok (ChunkBuffer2_update_input b)"
proof (cases "cb_size b - ChunkBuffer2_end b - 1 < cb_mtu b \<or> cb_free b \<le> 0")
  case True
  then have "ChunkBuffer2_update_input b = b\<lparr>cb_input_dest := None, cb_input_avail := -1\<rparr>"
    by (auto simp: ChunkBuffer2_update_input_def cb_free_def Let_def split: if_splits)
  then show ?thesis using True by (simp add: cb_input_ok_def)
next
  case False
  then have "c_int ((cb_free b - 1) * BLOCK_SIZE) = (cb_free b - 1) * BLOCK_SIZE"
    using assms by (intro c_int_id) (simp_all add: cb_geometry_def)
  moreover have "ChunkBuffer2_update_input b =
      b\<lparr>cb_input_dest := Some (BLOCK_SIZE * (ChunkBuffer2_end b + 1)),
        cb_input_avail := c_int ((cb_free b - 1) * BLOCK_SIZE)\<rparr>"
    using False by (simp add: ChunkBuffer2_update_input_def cb_free_def Let_def)
  ultimately show ?thesis using False by (simp add: cb_input_ok_def)
qed

lemma update_output_ok:
  assumes "cb_geometry b" "cb_contents b xs ys"
  shows "cb_output_ok (ChunkBuffer2_update_output b)"
proof (cases "0 < cb_used b")
  case True
  with assms obtain x xs' where "block_len (cb_buffer b) (cb_start b) = int (length x)"
    "1 + data_blocks x \<le> cb_used b" "1 + data_blocks x \<le> cb_wrap b - cb_start b"
    by (rule cb_contents_nonempty)
  with True show ?thesis
    by (simp add: cb_output_ok_def ChunkBuffer2_update_output_def data_blocks_def Let_def)
next
  case False
  then show ?thesis by (simp add: cb_output_ok_def ChunkBuffer2_update_output_def)
qed

lemma cb_input_ok_update_output [simp]:
  "cb_input_ok (ChunkBuffer2_update_output b) = cb_input_ok b"
  by (simp add: cb_input_ok_def)

lemma cb_output_ok_update_input [simp]:
  "cb_output_ok (ChunkBuffer2_update_input b) = cb_output_ok b"
  by (simp add: cb_output_ok_def)

section \<open>Initialisation\<close>

lemma ChunkBuffer2_Init_inv:
  assumes "int (length buffer) = BLOCK_SIZE * blocks" "BLOCK_SIZE * blocks \<le> INT_MAX"
    "0 \<le> mtu" "bdivide_up mtu BLOCK_SIZE + 1 \<le> blocks"
  shows "cb_inv (ChunkBuffer2_Init buffer blocks mtu) [] []"
proof -
  have m: "0 \<le> bdivide_up mtu BLOCK_SIZE" using assms(3) by (rule bdivide_up_bounds(3)) simp
  define b where "b = \<lparr>cb_buffer = buffer, cb_size = blocks, cb_wrap = blocks, cb_start = 0, cb_used = 0,
               cb_mtu = bdivide_up mtu BLOCK_SIZE,
               cb_input_dest = None, cb_input_avail = -1,
               cb_output_dest = None, cb_output_avail = -1\<rparr>"
  have i: "ChunkBuffer2_Init buffer blocks mtu = ChunkBuffer2_update_output (ChunkBuffer2_update_input b)"
    by (simp add: ChunkBuffer2_Init_def b_def)
  have g: "cb_geometry b" "cb_contents b [] []"
    using assms m by (simp_all add: b_def cb_geometry_def ChunkBuffer2_assert_buffer_def cb_contents_def)
  show ?thesis unfolding i cb_inv_def assert_io_split
    using g cb_end_bounds(3) [OF g] update_input_ok [OF g(1)] update_output_ok [of "ChunkBuffer2_update_input b" "[]" "[]"]
    by simp
qed

section \<open>Submitting a packet\<close>

lemma cb_output_ok_iff:
  assumes "cb_geometry b" "cb_contents b xs ys"
  shows "cb_output_ok b \<longleftrightarrow>
    (if cb_used b > 0
     then cb_output_dest b = Some (BLOCK_SIZE * (cb_start b + 1)) \<and>
          cb_output_avail b = block_len (cb_buffer b) (cb_start b)
     else cb_output_dest b = None \<and> cb_output_avail b = -1)"
proof (cases "0 < cb_used b")
  case True
  with assms obtain x xs' where "block_len (cb_buffer b) (cb_start b) = int (length x)"
    "1 + data_blocks x \<le> cb_used b" "1 + data_blocks x \<le> cb_wrap b - cb_start b"
    by (rule cb_contents_nonempty)
  with True show ?thesis by (auto simp: cb_output_ok_def data_blocks_def Let_def)
next
  case False
  then show ?thesis by (simp add: cb_output_ok_def)
qed

text \<open>The state after the header is written and the blocks are accounted for.\<close>

definition submit_blocks :: "ChunkBuffer2 \<Rightarrow> bytes \<Rightarrow> ChunkBuffer2" where
  "submit_blocks b x =
     (let e = ChunkBuffer2_end b;
          b1 = b\<lparr>cb_buffer := put_packet (cb_buffer b) e x, cb_used := cb_used b + (1 + data_blocks x)\<rparr>
      in if cb_used b1 \<le> cb_wrap b1 - cb_start b1 \<and> cb_mtu b1 > cb_size b1 - (e + 1 + data_blocks x) - 1
         then b1\<lparr>cb_wrap := e + 1 + data_blocks x\<rparr> else b1)"

lemma SubmitPacket_blocks:
  assumes "cb_input_dest b = Some (BLOCK_SIZE * (ChunkBuffer2_end b + 1))"
  shows "ChunkBuffer2_SubmitPacket (cb_fill b x) (int (length x)) =
    (let b2 = submit_blocks b x in
     if cb_used b2 = 1 + data_blocks x then ChunkBuffer2_update_output (ChunkBuffer2_update_input b2)
     else ChunkBuffer2_update_input b2)"
proof -
  have "ChunkBuffer2_end (cb_fill b x) = ChunkBuffer2_end b"
    by (simp add: cb_fill_def ChunkBuffer2_end_def)
  with assms show ?thesis
    unfolding ChunkBuffer2_SubmitPacket_def submit_blocks_def Let_def
    by (simp add: cb_fill_def put_packet_def data_blocks_def del: distrib_left_numeral)
qed

lemma submit_blocks_fields:
  "cb_buffer (submit_blocks b x) = put_packet (cb_buffer b) (ChunkBuffer2_end b) x"
  "cb_size (submit_blocks b x) = cb_size b" "cb_start (submit_blocks b x) = cb_start b"
  "cb_used (submit_blocks b x) = cb_used b + (1 + data_blocks x)"
  "cb_mtu (submit_blocks b x) = cb_mtu b"
  "cb_wrap (submit_blocks b x) =
     (if cb_used b + (1 + data_blocks x) \<le> cb_wrap b - cb_start b \<and>
         cb_mtu b > cb_size b - (ChunkBuffer2_end b + 1 + data_blocks x) - 1
      then ChunkBuffer2_end b + 1 + data_blocks x else cb_wrap b)"
  "cb_output_dest (submit_blocks b x) = cb_output_dest b"
  "cb_output_avail (submit_blocks b x) = cb_output_avail b"
  by (simp_all add: submit_blocks_def Let_def)

lemma submit_blocks_wrapped:
  assumes g: "cb_geometry b" and c: "cb_contents b xs ys" and w: "cb_wrapped b"
    and x: "1 + data_blocks x \<le> cb_free b" "data_blocks x \<le> cb_mtu b"
  shows "cb_geometry (submit_blocks b x)" "cb_contents (submit_blocks b x) xs (ys @ [x])"
proof -
  note gs = cb_geometryD [OF g] and cs = cb_contents_wrapped [OF c w]
  have nx: "0 \<le> data_blocks x" by simp
  have fr: "nblocks ys + 1 + data_blocks x \<le> cb_start b"
    using x(1) w cs(6) by (simp add: cb_free_def)
  have e: "0 \<le> ChunkBuffer2_end b" using cs(6) by simp
  have room: "BLOCK_SIZE * (ChunkBuffer2_end b + 1 + data_blocks x) \<le> int (length (cb_buffer b))"
    using gs fr cs(6) by simp
  have lim: "int (length (cb_buffer b)) \<le> INT_MAX" using gs by simp
  note put = put_packet [OF e room lim]
  have sb: "submit_blocks b x = b\<lparr>cb_buffer := put_packet (cb_buffer b) (ChunkBuffer2_end b) x,
      cb_used := cb_used b + (1 + data_blocks x)\<rparr>"
  proof -
    have "\<not> cb_used b + (1 + data_blocks x) \<le> cb_wrap b - cb_start b" using w nx by linarith
    then show ?thesis by (simp add: submit_blocks_def Let_def)
  qed
  have used: "cb_used b + (1 + data_blocks x) \<le> cb_wrap b" using cs(2) fr by linarith
  show "cb_geometry (submit_blocks b x)"
    using gs used w nx put(1) unfolding sb cb_geometry_def ChunkBuffer2_assert_buffer_def
    by (simp del: data_blocks_nonneg)
  have "chunks (put_packet (cb_buffer b) (ChunkBuffer2_end b) x) (cb_start b) xs"
    using c cs fr gs by (subst put(3)) (auto simp: cb_contents_def)
  moreover have "chunks (put_packet (cb_buffer b) (ChunkBuffer2_end b) x) 0 ys"
    using c cs by (subst put(3)) (auto simp: cb_contents_def)
  moreover have "\<forall>z \<in> set (xs @ ys @ [x]). data_blocks z \<le> cb_mtu b"
    using c x(2) by (auto simp: cb_contents_def)
  ultimately show "cb_contents (submit_blocks b x) xs (ys @ [x])"
    unfolding sb using cs fr w nx put(2) by (simp add: cb_contents_def del: data_blocks_nonneg)
qed

lemma submit_blocks_unwrapped:
  assumes g: "cb_geometry b" and c: "cb_contents b xs ys" and w: "\<not> cb_wrapped b"
    and x: "1 + data_blocks x \<le> cb_free b" "data_blocks x \<le> cb_mtu b"
  shows "cb_geometry (submit_blocks b x)" "cb_contents (submit_blocks b x) (xs @ [x]) []"
proof -
  note gs = cb_geometryD [OF g] and cs = cb_contents_unwrapped [OF c w]
  have nx: "0 \<le> data_blocks x" by simp
  have fr: "cb_start b + cb_used b + 1 + data_blocks x \<le> cb_size b"
    using x(1) w cs(5) by (simp add: cb_free_def)
  have e: "0 \<le> ChunkBuffer2_end b" using cs(5) gs by simp
  have room: "BLOCK_SIZE * (ChunkBuffer2_end b + 1 + data_blocks x) \<le> int (length (cb_buffer b))"
    using gs fr cs(5) by simp
  have lim: "int (length (cb_buffer b)) \<le> INT_MAX" using gs by simp
  note put = put_packet [OF e room lim]
  define buf' where "buf' = put_packet (cb_buffer b) (ChunkBuffer2_end b) x"
  have "chunks buf' (cb_start b) (xs @ [x])"
    using c cs gs put(2) unfolding buf'_def chunks_append
    by (subst put(3)) (auto simp: cb_contents_def)
  moreover have "\<forall>z \<in> set (xs @ [x]). data_blocks z \<le> cb_mtu b"
    using c x(2) by (auto simp: cb_contents_def)
  moreover define wr where "wr = cb_wrap (submit_blocks b x)"
  have "wr = cb_size b \<and> cb_start b + cb_used b + 1 + data_blocks x + cb_mtu b + 1 \<le> cb_size b \<or>
        wr = cb_start b + cb_used b + 1 + data_blocks x \<and> cb_size b \<le> wr + cb_mtu b"
    unfolding wr_def submit_blocks_fields cs(3,5) using fr by auto
  ultimately have "cb_geometry (submit_blocks b x) \<and> cb_contents (submit_blocks b x) (xs @ [x]) []"
    using gs cs fr nx put(1) wr_def [symmetric]
    unfolding cb_geometry_def ChunkBuffer2_assert_buffer_def cb_contents_def buf'_def
      submit_blocks_fields(1-5)
    by (elim disjE conjE) (simp_all del: data_blocks_nonneg)
  then show "cb_geometry (submit_blocks b x)" "cb_contents (submit_blocks b x) (xs @ [x]) []" by simp_all
qed

lemma cb_input_window:
  assumes "cb_inv b xs ys" "cb_input_dest b \<noteq> None"
  shows "cb_input_dest b = Some (BLOCK_SIZE * (ChunkBuffer2_end b + 1))"
    "cb_input_avail b = (cb_free b - 1) * BLOCK_SIZE" "0 < cb_free b"
    "int (length x) \<le> cb_input_avail b \<Longrightarrow> 1 + data_blocks x \<le> cb_free b"
proof -
  have i: "cb_input_ok b" using assms(1) by (simp add: cb_inv_def assert_io_split)
  then show a: "cb_input_dest b = Some (BLOCK_SIZE * (ChunkBuffer2_end b + 1))"
    "cb_input_avail b = (cb_free b - 1) * BLOCK_SIZE" "0 < cb_free b"
    using assms(2) by (auto simp: cb_input_ok_def split: if_splits)
  assume "int (length x) \<le> cb_input_avail b"
  then have "data_blocks x \<le> cb_free b - 1"
    unfolding data_blocks_def by (subst bdivide_up_le_iff) (simp_all add: a(2))
  then show "1 + data_blocks x \<le> cb_free b" by simp
qed

lemma SubmitPacket_inv_gen:
  assumes inv: "cb_inv b xs ys" and d: "cb_input_dest b \<noteq> None"
    and g2: "cb_geometry (submit_blocks b x)" and c2: "cb_contents (submit_blocks b x) xs' ys'"
    and head: "0 < cb_used b \<Longrightarrow> hd xs' = hd xs"
  shows "cb_inv (ChunkBuffer2_SubmitPacket (cb_fill b x) (int (length x))) xs' ys'"
proof -
  let ?b2 = "submit_blocks b x"
  have g: "cb_geometry b" and c: "cb_contents b xs ys" and o: "cb_output_ok b"
    using inv by (simp_all add: cb_inv_def assert_io_split)
  have nx: "0 \<le> data_blocks x" by simp
  have io: "cb_input_ok (ChunkBuffer2_update_input ?b2)"
    by (rule update_input_ok [OF g2 cb_end_bounds(3) [OF g2 c2]])
  show ?thesis
  proof (cases "cb_used b = 0")
    case True
    then show ?thesis
      using g2 c2 io update_output_ok [of "ChunkBuffer2_update_input ?b2" xs' ys']
      by (simp add: SubmitPacket_blocks [OF cb_input_window(1) [OF inv d]] cb_inv_def assert_io_split
          submit_blocks_fields)
  next
    case False
    then have u: "0 < cb_used b" using cb_geometryD(6) [OF g] by simp
    then have u2: "0 < cb_used ?b2" using nx unfolding submit_blocks_fields by linarith
    obtain z zs where z: "xs = z # zs" "block_len (cb_buffer b) (cb_start b) = int (length z)"
      using cb_contents_nonempty [OF g c u] by blast
    obtain z' zs' where z': "xs' = z' # zs'" "block_len (cb_buffer ?b2) (cb_start ?b2) = int (length z')"
      using cb_contents_nonempty [OF g2 c2 u2] by blast
    have "cb_output_ok ?b2"
      using o u u2 z z' head [OF u]
      unfolding cb_output_ok_iff [OF g c] cb_output_ok_iff [OF g2 c2]
      by (simp add: submit_blocks_fields)
    then show ?thesis using False g2 c2 io
      by (simp add: SubmitPacket_blocks [OF cb_input_window(1) [OF inv d]] cb_inv_def assert_io_split
          submit_blocks_fields)
  qed
qed

lemma SubmitPacket_inv:
  assumes inv: "cb_inv b xs ys" and d: "cb_input_dest b \<noteq> None"
    and x: "int (length x) \<le> cb_input_avail b" "data_blocks x \<le> cb_mtu b"
  shows "cb_inv (ChunkBuffer2_SubmitPacket (cb_fill b x) (int (length x)))
           (if cb_wrapped b then xs else xs @ [x]) (if cb_wrapped b then ys @ [x] else [])"
proof -
  have g: "cb_geometry b" and c: "cb_contents b xs ys"
    using inv by (simp_all add: cb_inv_def)
  note fr = cb_input_window(4) [OF inv d x(1)]
  show ?thesis
  proof (cases "cb_wrapped b")
    case True
    then show ?thesis
      using SubmitPacket_inv_gen [OF inv d submit_blocks_wrapped [OF g c True fr x(2)]] by simp
  next
    case False
    have "hd (xs @ [x]) = hd xs" if "0 < cb_used b"
      using cb_contents_nonempty [OF g c that] by force
    with False show ?thesis
      using SubmitPacket_inv_gen [OF inv d submit_blocks_unwrapped [OF g c False fr x(2)]] by simp
  qed
qed

section \<open>Consuming a packet\<close>

text \<open>The state after the head packet's blocks are given back.\<close>

definition consume_blocks :: "ChunkBuffer2 \<Rightarrow> bytes \<Rightarrow> ChunkBuffer2" where
  "consume_blocks b x =
     (let s = cb_start b + (1 + data_blocks x); u = cb_used b - (1 + data_blocks x)
      in if s = cb_wrap b then b\<lparr>cb_used := u, cb_start := 0, cb_wrap := cb_size b\<rparr>
         else b\<lparr>cb_start := s, cb_used := u\<rparr>)"

lemma ConsumePacket_blocks:
  assumes "block_len (cb_buffer b) (cb_start b) = int (length x)"
  shows "ChunkBuffer2_ConsumePacket b =
    ChunkBuffer2_update_output (if cb_wrapped b then ChunkBuffer2_update_input (consume_blocks b x)
                                else consume_blocks b x)"
  using assms by (simp add: ChunkBuffer2_ConsumePacket_def consume_blocks_def data_blocks_def Let_def)

lemma consume_blocks_last:
  assumes g: "cb_geometry b" and c: "cb_contents b [x] ys" and w: "cb_wrapped b"
  shows "cb_geometry (consume_blocks b x)" "cb_contents (consume_blocks b x) ys []"
proof -
  note gs = cb_geometryD [OF g] and cs = cb_contents_wrapped [OF c w]
  have nx: "0 \<le> data_blocks x" "0 \<le> nblocks ys" by simp_all
  have s: "consume_blocks b x = b\<lparr>cb_used := nblocks ys, cb_start := 0, cb_wrap := cb_size b\<rparr>"
    using cs by (simp add: consume_blocks_def Let_def)
  show "cb_geometry (consume_blocks b x)"
    using gs cs nx unfolding s cb_geometry_def ChunkBuffer2_assert_buffer_def
    by (simp del: data_blocks_nonneg nblocks_nonneg)
  show "cb_contents (consume_blocks b x) ys []"
    using c gs cs nx unfolding s by (simp add: cb_contents_def)
qed

lemma consume_blocks_wrapped:
  assumes g: "cb_geometry b" and c: "cb_contents b (x # xs) ys" and w: "cb_wrapped b" and n: "xs \<noteq> []"
  shows "cb_geometry (consume_blocks b x)" "cb_contents (consume_blocks b x) xs ys"
proof -
  note gs = cb_geometryD [OF g] and cs = cb_contents_wrapped [OF c w]
  have nx: "0 \<le> data_blocks x" "0 \<le> nblocks ys" "0 < nblocks xs" "0 \<le> nblocks (butlast xs)"
    using n by (simp_all add: nblocks_pos)
  have s: "consume_blocks b x = b\<lparr>cb_start := cb_start b + (1 + data_blocks x),
      cb_used := cb_used b - (1 + data_blocks x)\<rparr>"
    using cs nx by (auto simp: consume_blocks_def Let_def)
  show "cb_geometry (consume_blocks b x)"
    using gs cs nx unfolding s cb_geometry_def ChunkBuffer2_assert_buffer_def
    by (simp del: data_blocks_nonneg nblocks_nonneg)
  show "cb_contents (consume_blocks b x) xs ys"
    using c gs cs nx w n unfolding s
    by (simp add: cb_contents_def add.assoc del: data_blocks_nonneg nblocks_nonneg)
qed

lemma consume_blocks_unwrapped:
  assumes g: "cb_geometry b" and c: "cb_contents b (x # xs) ys" and w: "\<not> cb_wrapped b"
  shows "cb_geometry (consume_blocks b x)" "cb_contents (consume_blocks b x) xs []"
    "cb_input_ok (consume_blocks b x) = cb_input_ok b"
proof -
  note gs = cb_geometryD [OF g] and cs = cb_contents_unwrapped [OF c w]
  have nx: "0 \<le> data_blocks x" "0 \<le> nblocks xs" by simp_all
  have s: "consume_blocks b x = b\<lparr>cb_start := cb_start b + (1 + data_blocks x),
      cb_used := cb_used b - (1 + data_blocks x)\<rparr>"
  proof -
    have "cb_start b + (1 + data_blocks x) \<noteq> cb_wrap b"
      using cs gs(8) nx by (simp del: data_blocks_nonneg nblocks_nonneg)
    then show ?thesis by (simp add: consume_blocks_def Let_def)
  qed
  show "cb_geometry (consume_blocks b x)"
    using gs cs nx unfolding s cb_geometry_def ChunkBuffer2_assert_buffer_def
    by (simp del: data_blocks_nonneg nblocks_nonneg)
  show "cb_contents (consume_blocks b x) xs []"
    using c gs cs nx w unfolding s
    by (simp add: cb_contents_def add.assoc del: data_blocks_nonneg nblocks_nonneg)
  have "ChunkBuffer2_end (consume_blocks b x) = ChunkBuffer2_end b" "cb_free (consume_blocks b x) = cb_free b"
    using w unfolding s cb_free_def ChunkBuffer2_end_def by simp_all
  then show "cb_input_ok (consume_blocks b x) = cb_input_ok b"
    unfolding cb_input_ok_def by (simp add: s)
qed

lemma ConsumePacket_inv_gen:
  assumes bl: "block_len (cb_buffer b) (cb_start b) = int (length x)"
    and g2: "cb_geometry (consume_blocks b x)" and c2: "cb_contents (consume_blocks b x) xs' ys'"
    and i: "\<not> cb_wrapped b \<Longrightarrow> cb_input_ok (consume_blocks b x)"
  shows "cb_inv (ChunkBuffer2_ConsumePacket b) xs' ys'"
  unfolding ConsumePacket_blocks [OF bl] cb_inv_def assert_io_split
  using g2 c2 i update_input_ok [OF g2 cb_end_bounds(3) [OF g2 c2]] update_output_ok [OF g2 c2]
    update_output_ok [of "ChunkBuffer2_update_input (consume_blocks b x)" xs' ys']
  by simp

lemma ConsumePacket_inv:
  assumes inv: "cb_inv b xs ys" and o: "cb_output_dest b \<noteq> None"
  shows "xs \<noteq> []" "cb_output b = hd xs"
    and "cb_inv (ChunkBuffer2_ConsumePacket b)
           (if cb_wrapped b \<and> tl xs = [] then ys else tl xs)
           (if cb_wrapped b \<and> tl xs = [] then [] else ys)"
proof -
  have g: "cb_geometry b" and c: "cb_contents b xs ys" and ok: "cb_output_ok b" "cb_input_ok b"
    using inv by (simp_all add: cb_inv_def assert_io_split)
  have u: "0 < cb_used b" using ok o by (auto simp: cb_output_ok_def split: if_splits)
  from g c u obtain x xs' where x: "xs = x # xs'"
    and bl: "block_len (cb_buffer b) (cb_start b) = int (length x)"
    by (rule cb_contents_nonempty)
  show "xs \<noteq> []" using x by simp
  show "cb_output b = hd xs"
    using ok(1) u x bl c unfolding cb_output_ok_iff [OF g c]
    by (simp add: cb_output_def cb_contents_def)
  note gen = ConsumePacket_inv_gen [OF bl]
  show "cb_inv (ChunkBuffer2_ConsumePacket b)
           (if cb_wrapped b \<and> tl xs = [] then ys else tl xs)
           (if cb_wrapped b \<and> tl xs = [] then [] else ys)"
  proof (cases "cb_wrapped b")
    case True
    show ?thesis
    proof (cases "xs' = []")
      case True
      then show ?thesis using x c \<open>cb_wrapped b\<close> gen [OF consume_blocks_last [OF g _ \<open>cb_wrapped b\<close>]] by simp
    next
      case False
      then show ?thesis using x c True gen [OF consume_blocks_wrapped [OF g _ True False]] by simp
    qed
  next
    case False
    have "ys = []" by (rule cb_contents_unwrapped(1) [OF c False])
    with consume_blocks_unwrapped [OF g c [unfolded x] False] ok(2) gen show ?thesis
      using False x by simp
  qed
qed

section \<open>Capacity\<close>

lemma calc_blocks_cases:
  assumes "0 \<le> len" "0 \<le> num"
  shows "ChunkBuffer2_calc_blocks len num =
    (let n = (1 + bdivide_up len BLOCK_SIZE) * (num + 1) in
     if num < INT_MAX \<and> n \<le> INT_MAX then n else -1)"
proof -
  let ?d = "bdivide_up len BLOCK_SIZE"
  have d: "0 \<le> ?d" using assms(1) by (rule bdivide_up_bounds(3)) simp
  have div: "1 + ?d > INT_MAX div (num + 1) \<longleftrightarrow> \<not> (1 + ?d) * (num + 1) \<le> INT_MAX"
    using int_le_div_iff [of "num + 1" "1 + ?d" INT_MAX] assms(2) by linarith
  have big: "\<not> (1 + ?d) * (num + 1) \<le> INT_MAX" if "?d > INT_MAX - 1"
  proof -
    have "(1 + ?d) * 1 \<le> (1 + ?d) * (num + 1)" using d assms(2) by (intro mult_left_mono) simp_all
    moreover have "INT_MAX < (1 + ?d) * 1" using that by simp
    ultimately show ?thesis unfolding not_le by (rule less_le_trans [rotated])
  qed
  show ?thesis
    unfolding ChunkBuffer2_calc_blocks_def Let_def div using big assms(2) by auto
qed

lemma cb_free_unwrapped:
  assumes "cb_geometry b" "cb_contents b xs ys" "\<not> cb_wrapped b"
  shows "cb_mtu b + 1 \<le> cb_free b"
  using cb_end_bounds(2) [OF assms(1,2)] assms(3) by (simp add: cb_free_def)

lemma cb_free_capacity:
  assumes g: "cb_geometry b" and c: "cb_contents b xs ys"
    and size: "(1 + cb_mtu b) * (n + 1) \<le> cb_size b" and few: "int (length (xs @ ys)) < n"
  shows "cb_mtu b + 1 \<le> cb_free b"
proof (cases "cb_wrapped b")
  case True
  note gs = cb_geometryD [OF g] and cs = cb_contents_wrapped [OF c True]
  have "nblocks (xs @ ys) \<le> (1 + cb_mtu b) * int (length (xs @ ys))"
    by (rule nblocks_le) (use c in \<open>simp add: cb_contents_def\<close>)
  also have "\<dots> \<le> (1 + cb_mtu b) * (n - 1)"
    using few gs(8) by (intro mult_left_mono) simp_all
  also have "\<dots> = (1 + cb_mtu b) * (n + 1) - 2 * (1 + cb_mtu b)" by (simp add: algebra_simps)
  also have "\<dots> \<le> cb_size b - 2 * (1 + cb_mtu b)" using size by simp
  finally have "nblocks xs + nblocks ys \<le> cb_size b - 2 - 2 * cb_mtu b" by simp
  moreover have "cb_free b = cb_start b - ChunkBuffer2_end b" using True by (simp add: cb_free_def)
  ultimately show ?thesis using cs gs(8) by linarith
next
  case False
  then show ?thesis by (rule cb_free_unwrapped [OF g c])
qed

lemma cb_input_avail_free:
  assumes inv: "cb_inv b xs ys" and f: "cb_mtu b + 1 \<le> cb_free b"
  shows "cb_input_dest b \<noteq> None" "BLOCK_SIZE * cb_mtu b \<le> cb_input_avail b"
proof -
  have g: "cb_geometry b" and c: "cb_contents b xs ys" and ok: "cb_input_ok b"
    using inv by (simp_all add: cb_inv_def assert_io_split)
  have "\<not> (cb_size b - ChunkBuffer2_end b - 1 < cb_mtu b \<or> cb_free b \<le> 0)"
    using cb_end_bounds(2) [OF g c] f cb_geometryD(8) [OF g] by simp
  with ok f show "cb_input_dest b \<noteq> None" "BLOCK_SIZE * cb_mtu b \<le> cb_input_avail b"
    by (simp_all add: cb_input_ok_def)
qed

section \<open>The buffer as a FIFO queue of packets\<close>

text \<open>What a client of a packet queue relies on.\<close>

locale packet_queue =
  fixes rep :: "'b \<Rightarrow> bytes list \<Rightarrow> bool"
    and can_put :: "'b \<Rightarrow> bytes \<Rightarrow> bool"
    and put :: "'b \<Rightarrow> bytes \<Rightarrow> 'b"
    and has_out :: "'b \<Rightarrow> bool"
    and out :: "'b \<Rightarrow> bytes"
    and drop_out :: "'b \<Rightarrow> 'b"
  assumes rep_put: "rep b ps \<Longrightarrow> can_put b x \<Longrightarrow> rep (put b x) (ps @ [x])"
    and rep_has_out: "rep b ps \<Longrightarrow> has_out b \<longleftrightarrow> ps \<noteq> []"
    and rep_out: "rep b ps \<Longrightarrow> ps \<noteq> [] \<Longrightarrow> out b = hd ps"
    and rep_drop: "rep b ps \<Longrightarrow> ps \<noteq> [] \<Longrightarrow> rep (drop_out b) (tl ps)"
begin

text \<open>\<open>acc\<close> are the packets put so far and \<open>del\<close> the packets taken out so far.\<close>

definition hist :: "'b \<Rightarrow> bytes list \<Rightarrow> bytes list \<Rightarrow> bool" where
  "hist b acc del \<longleftrightarrow> (\<exists>ps. rep b ps \<and> del @ ps = acc)"

lemma hist_put: "hist b acc del \<Longrightarrow> can_put b x \<Longrightarrow> hist (put b x) (acc @ [x]) del"
  unfolding hist_def by (metis append.assoc rep_put)

lemma hist_drop:
  assumes "hist b acc del" "has_out b"
  shows "hist (drop_out b) acc (del @ [out b])"
proof -
  obtain ps where ps: "rep b ps" "del @ ps = acc" using assms(1) by (auto simp: hist_def)
  with assms(2) have "ps \<noteq> []" by (simp add: rep_has_out)
  with ps show ?thesis unfolding hist_def
    by (intro exI [of _ "tl ps"]) (simp add: rep_drop rep_out)
qed

lemma hist_prefix: "hist b acc del \<Longrightarrow> take (length del) acc = del"
  by (auto simp: hist_def)

lemma hist_drained: "hist b acc del \<Longrightarrow> \<not> has_out b \<Longrightarrow> del = acc"
  by (auto simp: hist_def rep_has_out)

lemma hist_next: "hist b acc del \<Longrightarrow> has_out b \<Longrightarrow> length del < length acc \<and> out b = acc ! length del"
  by (auto simp: hist_def rep_has_out rep_out nth_append hd_conv_nth)

end

definition cb_rep :: "ChunkBuffer2 \<Rightarrow> bytes list \<Rightarrow> bool" where
  "cb_rep b ps \<longleftrightarrow> (\<exists>xs ys. ps = xs @ ys \<and> cb_inv b xs ys)"

definition cb_can_put :: "ChunkBuffer2 \<Rightarrow> bytes \<Rightarrow> bool" where
  "cb_can_put b x \<longleftrightarrow>
     cb_input_dest b \<noteq> None \<and> int (length x) \<le> cb_input_avail b \<and> data_blocks x \<le> cb_mtu b"

definition cb_put :: "ChunkBuffer2 \<Rightarrow> bytes \<Rightarrow> ChunkBuffer2" where
  "cb_put b x = ChunkBuffer2_SubmitPacket (cb_fill b x) (int (length x))"

definition cb_has_out :: "ChunkBuffer2 \<Rightarrow> bool" where
  "cb_has_out b \<longleftrightarrow> cb_output_avail b \<ge> 0"

lemma cb_inv_output:
  assumes "cb_inv b xs ys"
  shows "cb_output_avail b \<ge> 0 \<longleftrightarrow> xs @ ys \<noteq> []" "cb_output_dest b \<noteq> None \<longleftrightarrow> xs @ ys \<noteq> []"
proof -
  have g: "cb_geometry b" and c: "cb_contents b xs ys" and ok: "cb_output_ok b"
    using assms by (simp_all add: cb_inv_def assert_io_split)
  have "0 < cb_used b \<longleftrightarrow> xs @ ys \<noteq> []"
  proof (cases "0 < cb_used b")
    case True
    with cb_contents_nonempty [OF g c] show ?thesis by blast
  next
    case False
    then have "\<not> cb_wrapped b" using cb_geometryD [OF g] by simp
    with False c nblocks_pos [of xs] show ?thesis by (auto simp: cb_contents_def)
  qed
  with ok show "cb_output_avail b \<ge> 0 \<longleftrightarrow> xs @ ys \<noteq> []" "cb_output_dest b \<noteq> None \<longleftrightarrow> xs @ ys \<noteq> []"
    by (auto simp: cb_output_ok_def Let_def split: if_splits)
qed

interpretation cbq: packet_queue cb_rep cb_can_put cb_put cb_has_out cb_output ChunkBuffer2_ConsumePacket
proof
  fix b ps x
  assume "cb_rep b ps" and p: "cb_can_put b x"
  then obtain xs ys where i: "ps = xs @ ys" "cb_inv b xs ys" by (auto simp: cb_rep_def)
  then have "ys = []" if "\<not> cb_wrapped b" using that cb_contents_unwrapped(1) by (auto simp: cb_inv_def)
  moreover have "cb_inv (cb_put b x) (if cb_wrapped b then xs else xs @ [x]) (if cb_wrapped b then ys @ [x] else [])"
    unfolding cb_put_def using i(2) p by (intro SubmitPacket_inv) (simp_all add: cb_can_put_def)
  ultimately show "cb_rep (cb_put b x) (ps @ [x])"
    unfolding cb_rep_def i(1) by (cases "cb_wrapped b") auto
next
  fix b ps
  assume r: "cb_rep b ps"
  then show "cb_has_out b \<longleftrightarrow> ps \<noteq> []"
    unfolding cb_rep_def cb_has_out_def using cb_inv_output(1) by blast
  assume "ps \<noteq> []"
  with r obtain xs ys where i: "ps = xs @ ys" "cb_inv b xs ys" "cb_output_dest b \<noteq> None"
    unfolding cb_rep_def using cb_inv_output(2) by blast
  note k = ConsumePacket_inv [OF i(2,3)]
  show "cb_output b = hd ps" using k(1,2) i(1) by simp
  show "cb_rep (ChunkBuffer2_ConsumePacket b) (tl ps)"
    unfolding cb_rep_def using k(1,3) i(1) by (cases "cb_wrapped b \<and> tl xs = []") (auto simp: neq_Nil_conv)
qed

section \<open>Stability of the windows\<close>

text \<open>
  A client fills the input window and reads the output window while other operations
  happen: the bytes stored ahead of a submission do not disturb the packets, consuming keeps
  the input window in place and only widens it, and submitting keeps the output window.
\<close>

lemma cb_repI: "cb_inv b xs ys \<Longrightarrow> cb_rep b (xs @ ys)"
  by (auto simp: cb_rep_def)

lemma cb_rep_output:
  assumes "cb_rep b ps"
  shows "cb_output_avail b \<ge> 0 \<longleftrightarrow> ps \<noteq> []" "cb_output_dest b \<noteq> None \<longleftrightarrow> ps \<noteq> []"
    "ps \<noteq> [] \<Longrightarrow> cb_output_avail b = int (length (hd ps))"
    "ps \<noteq> [] \<Longrightarrow> cb_output_dest b = Some (BLOCK_SIZE * (cb_start b + 1))"
proof -
  obtain xs ys where i: "ps = xs @ ys" "cb_inv b xs ys" using assms by (auto simp: cb_rep_def)
  then show "cb_output_avail b \<ge> 0 \<longleftrightarrow> ps \<noteq> []" and d: "cb_output_dest b \<noteq> None \<longleftrightarrow> ps \<noteq> []"
    using cb_inv_output by blast+
  have g: "cb_geometry b" "cb_contents b xs ys" and ok: "cb_output_ok b"
    using i(2) by (simp_all add: cb_inv_def assert_io_split)
  assume "ps \<noteq> []"
  then have u: "0 < cb_used b" using d ok by (auto simp: cb_output_ok_def split: if_splits)
  obtain x xs' where "xs = x # xs'" "block_len (cb_buffer b) (cb_start b) = int (length x)"
    using cb_contents_nonempty [OF g u] by blast
  then show "cb_output_avail b = int (length (hd ps))" "cb_output_dest b = Some (BLOCK_SIZE * (cb_start b + 1))"
    using ok u i(1) unfolding cb_output_ok_iff [OF g] by simp_all
qed

lemma cb_rep_fill:
  assumes "cb_rep b ps" and d: "cb_input_dest b \<noteq> None" and x: "int (length x) \<le> cb_input_avail b"
  shows "cb_rep (cb_fill b x) ps"
proof -
  obtain xs ys where ps: "ps = xs @ ys" and i: "cb_inv b xs ys" using assms(1) by (auto simp: cb_rep_def)
  have g: "cb_geometry b" and c: "cb_contents b xs ys" and io: "cb_input_ok b" "cb_output_ok b"
    using i by (simp_all add: cb_inv_def assert_io_split)
  note w = cb_input_window(1-3) [OF i d] and gs = cb_geometryD [OF g]
  obtain e where e: "ChunkBuffer2_end b = int e" using cb_end_bounds(1) [OF g c] nonneg_int_cases by blast
  have dest: "nat (the (cb_input_dest b)) = 4 * e + 4" using w(1) e by simp
  have lx: "int (length x) + 4 \<le> 4 * cb_free b" using x w(2) by simp
  have fe: "int e + cb_free b = (if cb_wrapped b then cb_start b else cb_size b)"
    using e by (simp add: cb_free_def)
  have room: "4 * e + 4 + length x \<le> length (cb_buffer b)"
    using lx fe gs by (auto split: if_splits)
  define buf' where "buf' = mem_write (4 * e + 4) x (cb_buffer b)"
  have fill: "cb_fill b x = b\<lparr>cb_buffer := buf'\<rparr>" by (simp add: cb_fill_def dest buf'_def)
  have ch: "chunks buf' (cb_start b) xs = chunks (cb_buffer b) (cb_start b) xs \<and>
        chunks buf' 0 ys = chunks (cb_buffer b) 0 ys"
  proof (cases "cb_wrapped b")
    case True
    with cb_contents_wrapped [OF c True] lx fe e show ?thesis
      unfolding buf'_def by (intro conjI chunks_write [OF room]) (use gs(4) in auto)
  next
    case False
    with cb_contents_unwrapped [OF c False] lx fe e show ?thesis
      unfolding buf'_def by (intro conjI chunks_write [OF room]) (use gs(4) in auto)
  qed
  have g': "cb_geometry (cb_fill b x)"
    using g room by (simp add: fill buf'_def cb_geometry_def ChunkBuffer2_assert_buffer_def)
  have c': "cb_contents (cb_fill b x) xs ys"
    using c ch unfolding fill cb_contents_def by (cases "cb_wrapped b") simp_all
  have "cb_output_ok (cb_fill b x)"
  proof (cases "0 < cb_used b")
    case True
    then obtain z zs where "xs = z # zs" "block_len (cb_buffer b) (cb_start b) = int (length z)"
      using cb_contents_nonempty [OF g c] by blast
    moreover from this have "block_len buf' (cb_start b) = int (length z)"
      using ch c by (simp add: cb_contents_def)
    ultimately show ?thesis using io(2) True
      unfolding cb_output_ok_iff [OF g c] cb_output_ok_iff [OF g' c'] by (simp add: fill)
  qed (use io(2) in \<open>simp add: fill cb_output_ok_def\<close>)
  moreover have "cb_input_ok (cb_fill b x)"
    using io(1) by (simp add: fill cb_input_ok_def cb_free_def ChunkBuffer2_end_def)
  ultimately show ?thesis unfolding ps using g' c'
    by (intro cb_repI) (simp add: cb_inv_def assert_io_split)
qed

lemma cb_fill_id:
  assumes "nat (the (cb_input_dest b)) + length x \<le> length (cb_buffer b)"
    "mem_read (nat (the (cb_input_dest b))) (length x) (cb_buffer b) = x"
  shows "cb_fill b x = b"
proof -
  have "mem_write off x m = m" if "off + length x \<le> length m" "mem_read off (length x) m = x" for off and m :: bytes
  proof -
    have "m = take off m @ take (length x) (drop off m) @ drop (off + length x) m"
      by (metis add.commute append_take_drop_id drop_drop)
    with that show ?thesis by (simp add: mem_write_def mem_read_def)
  qed
  with assms show ?thesis by (simp add: cb_fill_def)
qed

lemma ConsumePacket_window:
  assumes "cb_rep b ps" "ps \<noteq> []"
  shows "cb_buffer (ChunkBuffer2_ConsumePacket b) = cb_buffer b"
    "cb_size (ChunkBuffer2_ConsumePacket b) = cb_size b" "cb_mtu (ChunkBuffer2_ConsumePacket b) = cb_mtu b"
    "cb_input_dest b \<noteq> None \<Longrightarrow> cb_input_dest (ChunkBuffer2_ConsumePacket b) = cb_input_dest b \<and>
       cb_input_avail b \<le> cb_input_avail (ChunkBuffer2_ConsumePacket b)"
proof -
  obtain xs ys where ps: "ps = xs @ ys" and i: "cb_inv b xs ys" using assms(1) by (auto simp: cb_rep_def)
  have g: "cb_geometry b" and c: "cb_contents b xs ys" and ok: "cb_output_ok b"
    using i by (simp_all add: cb_inv_def assert_io_split)
  have o: "cb_output_dest b \<noteq> None" using cb_rep_output(2) assms by blast
  then have u: "0 < cb_used b" using ok by (auto simp: cb_output_ok_def split: if_splits)
  obtain x xs' where x: "xs = x # xs'" and bl: "block_len (cb_buffer b) (cb_start b) = int (length x)"
    using cb_contents_nonempty [OF g c u] by blast
  note eq = ConsumePacket_blocks [OF bl]
  show "cb_buffer (ChunkBuffer2_ConsumePacket b) = cb_buffer b"
    "cb_size (ChunkBuffer2_ConsumePacket b) = cb_size b" "cb_mtu (ChunkBuffer2_ConsumePacket b) = cb_mtu b"
    unfolding eq by (simp_all add: consume_blocks_def Let_def)
  assume d: "cb_input_dest b \<noteq> None"
  note w = cb_input_window(1-3) [OF i d]
  show "cb_input_dest (ChunkBuffer2_ConsumePacket b) = cb_input_dest b \<and>
       cb_input_avail b \<le> cb_input_avail (ChunkBuffer2_ConsumePacket b)"
  proof (cases "cb_wrapped b")
    case False
    then show ?thesis unfolding eq by (simp add: consume_blocks_def Let_def)
  next
    case True
    let ?b2 = "consume_blocks b x"
    note gs = cb_geometryD [OF g] and cs = cb_contents_wrapped [OF c True]
    have nn: "0 \<le> data_blocks x" "0 \<le> nblocks xs'" "0 \<le> nblocks (butlast xs)" by simp_all
    have s: "ChunkBuffer2_end ?b2 = ChunkBuffer2_end b \<and> cb_free b \<le> cb_free ?b2"
      using True cs gs nn x unfolding consume_blocks_def ChunkBuffer2_end_def cb_free_def Let_def
      by (auto simp del: data_blocks_nonneg nblocks_nonneg)
    have "cb_rep (ChunkBuffer2_ConsumePacket b) (tl ps)" using cbq.rep_drop assms by blast
    then have ok2: "cb_input_ok (ChunkBuffer2_ConsumePacket b)"
      by (auto simp: cb_rep_def cb_inv_def assert_io_split)
    have "ChunkBuffer2_end (ChunkBuffer2_ConsumePacket b) = ChunkBuffer2_end ?b2"
      "cb_free (ChunkBuffer2_ConsumePacket b) = cb_free ?b2"
      "cb_size (ChunkBuffer2_ConsumePacket b) = cb_size b" "cb_mtu (ChunkBuffer2_ConsumePacket b) = cb_mtu b"
      unfolding eq by (simp_all add: True consume_blocks_def Let_def)
    with ok2 s w cb_end_bounds(2) [OF g c] show ?thesis by (simp add: cb_input_ok_def)
  qed
qed

end
