(* ===== verification/FlowInterface.thy ===== *)
theory FlowInterface
  imports Prelude
begin

text \<open>
  The four flow interfaces of badvpn (\<^verbatim>\<open>flow/PacketPassInterface\<close>,
  \<^verbatim>\<open>flow/PacketRecvInterface\<close>, \<^verbatim>\<open>flow/StreamPassInterface\<close>, \<^verbatim>\<open>flow/StreamRecvInterface\<close>).
  An interface object sits between a provider and a user. Starting an operation and
  completing it never calls the other side directly: both only set a \<^verbatim>\<open>BPending\<close> job, and
  the job calls the handler later. A record here is the C struct: the state, the arguments
  saved for the jobs, and one flag per job telling whether it is set. The handler pointers
  are not stored, since each composition names the handlers it calls.

  A \<open>_pre\<close> predicate collects the assertions at the head of a function; the components
  that use an interface are shown to satisfy them. The step relation describes what user,
  provider and job queue can do to an interface; its invariant shows that every assertion
  inside the jobs holds, and the counting lemmas that each operation that was started is
  completed exactly once.
\<close>

section \<open>Common state\<close>

datatype if_state = STATE_NONE | STATE_OPERATION_PENDING | STATE_BUSY | STATE_DONE_PENDING

section \<open>PacketPassInterface\<close>

record 'p PacketPassInterface =
  ppi_mtu :: int
  ppi_handler_requestcancel :: bool
  ppi_handler_done :: bool
  ppi_job_operation :: bool
  ppi_job_operation_data :: 'p
  ppi_job_operation_len :: int
  ppi_job_requestcancel :: bool
  ppi_job_done :: bool
  ppi_state :: if_state
  ppi_cancel_requested :: bool

text \<open>The uninitialised data pointer of a fresh interface is the argument \<open>junk\<close>.\<close>

definition PacketPassInterface_Init :: "'p \<Rightarrow> int \<Rightarrow> 'p PacketPassInterface" where
  "PacketPassInterface_Init junk mtu =
     \<lparr>ppi_mtu = mtu, ppi_handler_requestcancel = False, ppi_handler_done = False,
      ppi_job_operation = False, ppi_job_operation_data = junk, ppi_job_operation_len = 0,
      ppi_job_requestcancel = False, ppi_job_done = False,
      ppi_state = STATE_NONE, ppi_cancel_requested = False\<rparr>"

definition PacketPassInterface_Free :: "'p PacketPassInterface \<Rightarrow> 'p PacketPassInterface" where
  "PacketPassInterface_Free i =
     i\<lparr>ppi_job_done := False, ppi_job_requestcancel := False, ppi_job_operation := False\<rparr>"

definition PacketPassInterface_EnableCancel :: "'p PacketPassInterface \<Rightarrow> 'p PacketPassInterface" where
  "PacketPassInterface_EnableCancel i = i\<lparr>ppi_handler_requestcancel := True\<rparr>"

definition PacketPassInterface_Done_pre :: "'p PacketPassInterface \<Rightarrow> bool" where
  "PacketPassInterface_Done_pre i \<longleftrightarrow> ppi_state i = STATE_BUSY"

definition PacketPassInterface_Done :: "'p PacketPassInterface \<Rightarrow> 'p PacketPassInterface" where
  "PacketPassInterface_Done i =
     i\<lparr>ppi_job_requestcancel := False, ppi_job_done := True, ppi_state := STATE_DONE_PENDING\<rparr>"

definition PacketPassInterface_GetMTU :: "'p PacketPassInterface \<Rightarrow> int" where
  "PacketPassInterface_GetMTU i = ppi_mtu i"

definition PacketPassInterface_Sender_Init :: "'p PacketPassInterface \<Rightarrow> 'p PacketPassInterface" where
  "PacketPassInterface_Sender_Init i = i\<lparr>ppi_handler_done := True\<rparr>"

definition PacketPassInterface_Sender_Send_pre :: "'p PacketPassInterface \<Rightarrow> int \<Rightarrow> bool" where
  "PacketPassInterface_Sender_Send_pre i data_len \<longleftrightarrow>
     0 \<le> data_len \<and> data_len \<le> ppi_mtu i \<and> ppi_state i = STATE_NONE \<and> ppi_handler_done i"

definition PacketPassInterface_Sender_Send ::
    "'p PacketPassInterface \<Rightarrow> 'p \<Rightarrow> int \<Rightarrow> 'p PacketPassInterface" where
  "PacketPassInterface_Sender_Send i data data_len =
     i\<lparr>ppi_job_operation_data := data, ppi_job_operation_len := data_len, ppi_job_operation := True,
       ppi_state := STATE_OPERATION_PENDING, ppi_cancel_requested := False\<rparr>"

definition PacketPassInterface_Sender_RequestCancel_pre :: "'p PacketPassInterface \<Rightarrow> bool" where
  "PacketPassInterface_Sender_RequestCancel_pre i \<longleftrightarrow>
     (ppi_state i = STATE_OPERATION_PENDING \<or> ppi_state i = STATE_BUSY \<or>
      ppi_state i = STATE_DONE_PENDING) \<and> ppi_handler_requestcancel i"

definition PacketPassInterface_Sender_RequestCancel :: "'p PacketPassInterface \<Rightarrow> 'p PacketPassInterface" where
  "PacketPassInterface_Sender_RequestCancel i =
     (if ppi_cancel_requested i then i
      else let i = i\<lparr>ppi_cancel_requested := True\<rparr> in
        if ppi_state i = STATE_OPERATION_PENDING
        then i\<lparr>ppi_job_operation := False, ppi_job_done := True, ppi_state := STATE_DONE_PENDING\<rparr>
        else if ppi_state i = STATE_BUSY then i\<lparr>ppi_job_requestcancel := True\<rparr>
        else i)"

definition PacketPassInterface_HasCancel :: "'p PacketPassInterface \<Rightarrow> bool" where
  "PacketPassInterface_HasCancel i = ppi_handler_requestcancel i"

text \<open>
  The jobs. \<^verbatim>\<open>BPendingGroup_ExecuteJob\<close> takes the job off the list before it runs, so the
  flag is cleared; the handler that is called next is part of the composition.
\<close>

definition PacketPassInterface_job_operation :: "'p PacketPassInterface \<Rightarrow> 'p PacketPassInterface" where
  "PacketPassInterface_job_operation i = i\<lparr>ppi_job_operation := False, ppi_state := STATE_BUSY\<rparr>"

definition PacketPassInterface_job_requestcancel :: "'p PacketPassInterface \<Rightarrow> 'p PacketPassInterface" where
  "PacketPassInterface_job_requestcancel i = i\<lparr>ppi_job_requestcancel := False\<rparr>"

definition PacketPassInterface_job_done :: "'p PacketPassInterface \<Rightarrow> 'p PacketPassInterface" where
  "PacketPassInterface_job_done i = i\<lparr>ppi_job_done := False, ppi_state := STATE_NONE\<rparr>"

section \<open>PacketRecvInterface\<close>

record 'p PacketRecvInterface =
  pri_mtu :: int
  pri_handler_done :: bool
  pri_job_operation :: bool
  pri_job_operation_data :: 'p
  pri_job_done :: bool
  pri_job_done_len :: int
  pri_state :: if_state

definition PacketRecvInterface_Init :: "'p \<Rightarrow> int \<Rightarrow> 'p PacketRecvInterface" where
  "PacketRecvInterface_Init junk mtu =
     \<lparr>pri_mtu = mtu, pri_handler_done = False, pri_job_operation = False,
      pri_job_operation_data = junk, pri_job_done = False, pri_job_done_len = 0,
      pri_state = STATE_NONE\<rparr>"

definition PacketRecvInterface_Free :: "'p PacketRecvInterface \<Rightarrow> 'p PacketRecvInterface" where
  "PacketRecvInterface_Free i = i\<lparr>pri_job_done := False, pri_job_operation := False\<rparr>"

definition PacketRecvInterface_Done_pre :: "'p PacketRecvInterface \<Rightarrow> int \<Rightarrow> bool" where
  "PacketRecvInterface_Done_pre i data_len \<longleftrightarrow>
     0 \<le> data_len \<and> data_len \<le> pri_mtu i \<and> pri_state i = STATE_BUSY"

definition PacketRecvInterface_Done :: "'p PacketRecvInterface \<Rightarrow> int \<Rightarrow> 'p PacketRecvInterface" where
  "PacketRecvInterface_Done i data_len =
     i\<lparr>pri_job_done_len := data_len, pri_job_done := True, pri_state := STATE_DONE_PENDING\<rparr>"

definition PacketRecvInterface_GetMTU :: "'p PacketRecvInterface \<Rightarrow> int" where
  "PacketRecvInterface_GetMTU i = pri_mtu i"

definition PacketRecvInterface_Receiver_Init :: "'p PacketRecvInterface \<Rightarrow> 'p PacketRecvInterface" where
  "PacketRecvInterface_Receiver_Init i = i\<lparr>pri_handler_done := True\<rparr>"

definition PacketRecvInterface_Receiver_Recv_pre :: "'p PacketRecvInterface \<Rightarrow> bool" where
  "PacketRecvInterface_Receiver_Recv_pre i \<longleftrightarrow> pri_state i = STATE_NONE \<and> pri_handler_done i"

definition PacketRecvInterface_Receiver_Recv ::
    "'p PacketRecvInterface \<Rightarrow> 'p \<Rightarrow> 'p PacketRecvInterface" where
  "PacketRecvInterface_Receiver_Recv i data =
     i\<lparr>pri_job_operation_data := data, pri_job_operation := True, pri_state := STATE_OPERATION_PENDING\<rparr>"

definition PacketRecvInterface_job_operation :: "'p PacketRecvInterface \<Rightarrow> 'p PacketRecvInterface" where
  "PacketRecvInterface_job_operation i = i\<lparr>pri_job_operation := False, pri_state := STATE_BUSY\<rparr>"

definition PacketRecvInterface_job_done :: "'p PacketRecvInterface \<Rightarrow> 'p PacketRecvInterface" where
  "PacketRecvInterface_job_done i = i\<lparr>pri_job_done := False, pri_state := STATE_NONE\<rparr>"

section \<open>StreamPassInterface and StreamRecvInterface\<close>

text \<open>
  The two stream interfaces have the same fields; the sources say that they have the same
  code up to names. One record serves both.
\<close>

record 'p StreamInterface =
  si_handler_done :: bool
  si_job_operation :: bool
  si_job_operation_data :: 'p
  si_job_operation_len :: int
  si_job_done :: bool
  si_job_done_len :: int
  si_state :: if_state

type_synonym 'p StreamPassInterface = "'p StreamInterface"
type_synonym 'p StreamRecvInterface = "'p StreamInterface"

definition StreamPassInterface_Init :: "'p \<Rightarrow> 'p StreamPassInterface" where
  "StreamPassInterface_Init junk =
     \<lparr>si_handler_done = False, si_job_operation = False, si_job_operation_data = junk,
      si_job_operation_len = 0, si_job_done = False, si_job_done_len = 0, si_state = STATE_NONE\<rparr>"

definition StreamPassInterface_Free :: "'p StreamPassInterface \<Rightarrow> 'p StreamPassInterface" where
  "StreamPassInterface_Free i = i\<lparr>si_job_done := False, si_job_operation := False\<rparr>"

definition StreamPassInterface_Done_pre :: "'p StreamPassInterface \<Rightarrow> int \<Rightarrow> bool" where
  "StreamPassInterface_Done_pre i data_len \<longleftrightarrow>
     si_state i = STATE_BUSY \<and> data_len > 0 \<and> data_len \<le> si_job_operation_len i"

definition StreamPassInterface_Done :: "'p StreamPassInterface \<Rightarrow> int \<Rightarrow> 'p StreamPassInterface" where
  "StreamPassInterface_Done i data_len =
     i\<lparr>si_job_done_len := data_len, si_job_done := True, si_state := STATE_DONE_PENDING\<rparr>"

definition StreamPassInterface_Sender_Init :: "'p StreamPassInterface \<Rightarrow> 'p StreamPassInterface" where
  "StreamPassInterface_Sender_Init i = i\<lparr>si_handler_done := True\<rparr>"

definition StreamPassInterface_Sender_Send_pre :: "'p StreamPassInterface \<Rightarrow> int \<Rightarrow> bool" where
  "StreamPassInterface_Sender_Send_pre i data_len \<longleftrightarrow>
     data_len > 0 \<and> si_state i = STATE_NONE \<and> si_handler_done i"

definition StreamPassInterface_Sender_Send ::
    "'p StreamPassInterface \<Rightarrow> 'p \<Rightarrow> int \<Rightarrow> 'p StreamPassInterface" where
  "StreamPassInterface_Sender_Send i data data_len =
     i\<lparr>si_job_operation_data := data, si_job_operation_len := data_len, si_job_operation := True,
       si_state := STATE_OPERATION_PENDING\<rparr>"

definition StreamPassInterface_job_operation :: "'p StreamPassInterface \<Rightarrow> 'p StreamPassInterface" where
  "StreamPassInterface_job_operation i = i\<lparr>si_job_operation := False, si_state := STATE_BUSY\<rparr>"

definition StreamPassInterface_job_done :: "'p StreamPassInterface \<Rightarrow> 'p StreamPassInterface" where
  "StreamPassInterface_job_done i = i\<lparr>si_job_done := False, si_state := STATE_NONE\<rparr>"

definition StreamRecvInterface_Init :: "'p \<Rightarrow> 'p StreamRecvInterface" where
  "StreamRecvInterface_Init junk =
     \<lparr>si_handler_done = False, si_job_operation = False, si_job_operation_data = junk,
      si_job_operation_len = 0, si_job_done = False, si_job_done_len = 0, si_state = STATE_NONE\<rparr>"

definition StreamRecvInterface_Free :: "'p StreamRecvInterface \<Rightarrow> 'p StreamRecvInterface" where
  "StreamRecvInterface_Free i = i\<lparr>si_job_done := False, si_job_operation := False\<rparr>"

definition StreamRecvInterface_Done_pre :: "'p StreamRecvInterface \<Rightarrow> int \<Rightarrow> bool" where
  "StreamRecvInterface_Done_pre i data_len \<longleftrightarrow>
     si_state i = STATE_BUSY \<and> data_len > 0 \<and> data_len \<le> si_job_operation_len i"

definition StreamRecvInterface_Done :: "'p StreamRecvInterface \<Rightarrow> int \<Rightarrow> 'p StreamRecvInterface" where
  "StreamRecvInterface_Done i data_len =
     i\<lparr>si_job_done_len := data_len, si_job_done := True, si_state := STATE_DONE_PENDING\<rparr>"

definition StreamRecvInterface_Receiver_Init :: "'p StreamRecvInterface \<Rightarrow> 'p StreamRecvInterface" where
  "StreamRecvInterface_Receiver_Init i = i\<lparr>si_handler_done := True\<rparr>"

definition StreamRecvInterface_Receiver_Recv_pre :: "'p StreamRecvInterface \<Rightarrow> int \<Rightarrow> bool" where
  "StreamRecvInterface_Receiver_Recv_pre i data_len \<longleftrightarrow>
     data_len > 0 \<and> si_state i = STATE_NONE \<and> si_handler_done i"

definition StreamRecvInterface_Receiver_Recv ::
    "'p StreamRecvInterface \<Rightarrow> 'p \<Rightarrow> int \<Rightarrow> 'p StreamRecvInterface" where
  "StreamRecvInterface_Receiver_Recv i data data_len =
     i\<lparr>si_job_operation_data := data, si_job_operation_len := data_len, si_job_operation := True,
       si_state := STATE_OPERATION_PENDING\<rparr>"

definition StreamRecvInterface_job_operation :: "'p StreamRecvInterface \<Rightarrow> 'p StreamRecvInterface" where
  "StreamRecvInterface_job_operation i = i\<lparr>si_job_operation := False, si_state := STATE_BUSY\<rparr>"

definition StreamRecvInterface_job_done :: "'p StreamRecvInterface \<Rightarrow> 'p StreamRecvInterface" where
  "StreamRecvInterface_job_done i = i\<lparr>si_job_done := False, si_state := STATE_NONE\<rparr>"

lemmas ppi_defs =
  PacketPassInterface_Init_def PacketPassInterface_Free_def PacketPassInterface_EnableCancel_def
  PacketPassInterface_Done_pre_def PacketPassInterface_Done_def PacketPassInterface_GetMTU_def
  PacketPassInterface_Sender_Init_def PacketPassInterface_Sender_Send_pre_def
  PacketPassInterface_Sender_Send_def PacketPassInterface_Sender_RequestCancel_pre_def
  PacketPassInterface_Sender_RequestCancel_def PacketPassInterface_HasCancel_def
  PacketPassInterface_job_operation_def PacketPassInterface_job_requestcancel_def
  PacketPassInterface_job_done_def

lemmas pri_defs =
  PacketRecvInterface_Init_def PacketRecvInterface_Free_def PacketRecvInterface_Done_pre_def
  PacketRecvInterface_Done_def PacketRecvInterface_GetMTU_def PacketRecvInterface_Receiver_Init_def
  PacketRecvInterface_Receiver_Recv_pre_def PacketRecvInterface_Receiver_Recv_def
  PacketRecvInterface_job_operation_def PacketRecvInterface_job_done_def

lemmas spi_defs =
  StreamPassInterface_Init_def StreamPassInterface_Free_def StreamPassInterface_Done_pre_def
  StreamPassInterface_Done_def StreamPassInterface_Sender_Init_def
  StreamPassInterface_Sender_Send_pre_def StreamPassInterface_Sender_Send_def
  StreamPassInterface_job_operation_def StreamPassInterface_job_done_def

lemmas sri_defs =
  StreamRecvInterface_Init_def StreamRecvInterface_Free_def StreamRecvInterface_Done_pre_def
  StreamRecvInterface_Done_def StreamRecvInterface_Receiver_Init_def
  StreamRecvInterface_Receiver_Recv_pre_def StreamRecvInterface_Receiver_Recv_def
  StreamRecvInterface_job_operation_def StreamRecvInterface_job_done_def

section \<open>What can happen to a PacketPassInterface\<close>

datatype ppi_event = Ev_Send | Ev_RequestCancel | Ev_JobOperation | Ev_JobRequestCancel | Ev_Done | Ev_JobDone

inductive ppi_step :: "'p PacketPassInterface \<Rightarrow> ppi_event \<Rightarrow> 'p PacketPassInterface \<Rightarrow> bool" where
  ppi_send: "PacketPassInterface_Sender_Send_pre i n \<Longrightarrow>
    ppi_step i Ev_Send (PacketPassInterface_Sender_Send i d n)"
| ppi_requestcancel: "PacketPassInterface_Sender_RequestCancel_pre i \<Longrightarrow>
    ppi_step i Ev_RequestCancel (PacketPassInterface_Sender_RequestCancel i)"
| ppi_job_operation: "ppi_job_operation i \<Longrightarrow>
    ppi_step i Ev_JobOperation (PacketPassInterface_job_operation i)"
| ppi_job_requestcancel: "ppi_job_requestcancel i \<Longrightarrow>
    ppi_step i Ev_JobRequestCancel (PacketPassInterface_job_requestcancel i)"
| ppi_done: "PacketPassInterface_Done_pre i \<Longrightarrow> ppi_step i Ev_Done (PacketPassInterface_Done i)"
| ppi_job_done: "ppi_job_done i \<Longrightarrow> ppi_step i Ev_JobDone (PacketPassInterface_job_done i)"

inductive ppi_run :: "'p PacketPassInterface \<Rightarrow> ppi_event list \<Rightarrow> 'p PacketPassInterface \<Rightarrow> bool" where
  ppi_run_nil: "ppi_run i [] i"
| ppi_run_snoc: "ppi_run i es j \<Longrightarrow> ppi_step j e k \<Longrightarrow> ppi_run i (es @ [e]) k"

inductive_cases ppi_stepE: "ppi_step i e j"

text \<open>The job flags follow the state.\<close>

definition ppi_wf :: "'p PacketPassInterface \<Rightarrow> bool" where
  "ppi_wf i \<longleftrightarrow>
     (ppi_job_operation i \<longleftrightarrow> ppi_state i = STATE_OPERATION_PENDING) \<and>
     (ppi_job_done i \<longleftrightarrow> ppi_state i = STATE_DONE_PENDING) \<and>
     (ppi_job_requestcancel i \<longrightarrow>
        ppi_state i = STATE_BUSY \<and> ppi_cancel_requested i \<and> ppi_handler_requestcancel i)"

definition pri_wf :: "'p PacketRecvInterface \<Rightarrow> bool" where
  "pri_wf i \<longleftrightarrow>
     (pri_job_operation i \<longleftrightarrow> pri_state i = STATE_OPERATION_PENDING) \<and>
     (pri_job_done i \<longleftrightarrow> pri_state i = STATE_DONE_PENDING)"

definition si_wf :: "'p StreamInterface \<Rightarrow> bool" where
  "si_wf i \<longleftrightarrow>
     (si_job_operation i \<longleftrightarrow> si_state i = STATE_OPERATION_PENDING) \<and>
     (si_job_done i \<longleftrightarrow> si_state i = STATE_DONE_PENDING)"

lemma ppi_step_wf: "ppi_step i e j \<Longrightarrow> ppi_wf i \<Longrightarrow> ppi_wf j"
  by (induction rule: ppi_step.induct) (auto simp: ppi_wf_def ppi_defs Let_def)

lemma ppi_run_wf: "ppi_run i es j \<Longrightarrow> ppi_wf i \<Longrightarrow> ppi_wf j"
  by (induction rule: ppi_run.induct) (auto intro: ppi_step_wf)

lemma ppi_init_wf:
  "ppi_wf (PacketPassInterface_Sender_Init (PacketPassInterface_Init junk mtu))"
  "ppi_wf (PacketPassInterface_Sender_Init (PacketPassInterface_EnableCancel (PacketPassInterface_Init junk mtu)))"
  by (simp_all add: ppi_wf_def ppi_defs)

text \<open>One completion per operation, and at most one cancel call per operation that began.\<close>

definition ppi_busy :: "'p PacketPassInterface \<Rightarrow> nat" where
  "ppi_busy i = (if ppi_state i = STATE_NONE then 0 else 1)"

definition ppi_may_cancel :: "'p PacketPassInterface \<Rightarrow> nat" where
  "ppi_may_cancel i =
     (if ppi_state i = STATE_BUSY \<and> (ppi_job_requestcancel i \<or> \<not> ppi_cancel_requested i) then 1 else 0)"

lemma ppi_run_counts:
  assumes "ppi_run i es j" "ppi_wf i" "ppi_state i = STATE_NONE"
  shows "count_list es Ev_Send = count_list es Ev_JobDone + ppi_busy j \<and>
         count_list es Ev_JobRequestCancel + ppi_may_cancel j \<le> count_list es Ev_JobOperation"
  using assms
proof (induction rule: ppi_run.induct)
  case (ppi_run_nil i)
  then show ?case by (simp add: ppi_busy_def ppi_may_cancel_def)
next
  case (ppi_run_snoc i es j e k)
  have "ppi_wf j" by (rule ppi_run_wf [OF ppi_run_snoc.hyps(1) ppi_run_snoc.prems(1)])
  with ppi_run_snoc show ?case
    by (auto simp: ppi_busy_def ppi_may_cancel_def ppi_wf_def ppi_defs Let_def
        elim!: ppi_stepE split: if_splits)
qed

end
