(* ===== verification/PacketFlow.thy ===== *)
theory PacketFlow
  imports ChunkBuffer FlowInterface Alloc
begin

text \<open>
  The packet buffer of badvpn that connects a \<^verbatim>\<open>PacketRecvInterface\<close> input to a
  \<^verbatim>\<open>PacketPassInterface\<close> output: \<^verbatim>\<open>flow/PacketBuffer.c\<close>. Its state holds the two interface
  records; its handlers update them. The step relation composes the handlers with the jobs of the
  two interfaces and with an arbitrary provider and receiver. The invariant shows that no interface
  is used out of turn, that the bytes handed to the receiver are the packets that came in, in
  order and unchanged while the receiver holds them, and that the buffer never stalls.
\<close>

section \<open>PacketBuffer\<close>

record PacketBuffer =
  pb_input :: "int option PacketRecvInterface"
  pb_input_mtu :: int
  pb_output :: "int option PacketPassInterface"
  pb_buf :: ChunkBuffer2

definition PacketBuffer_input_handler_done :: "PacketBuffer \<Rightarrow> int \<Rightarrow> PacketBuffer" where
  "PacketBuffer_input_handler_done buf in_len =
     (let was_empty = (cb_output_avail (pb_buf buf) < 0);
          buf = buf\<lparr>pb_buf := ChunkBuffer2_SubmitPacket (pb_buf buf) in_len\<rparr>;
          buf = (if cb_input_avail (pb_buf buf) \<ge> pb_input_mtu buf
                 then buf\<lparr>pb_input := PacketRecvInterface_Receiver_Recv (pb_input buf) (cb_input_dest (pb_buf buf))\<rparr>
                 else buf)
      in if was_empty
         then buf\<lparr>pb_output := PacketPassInterface_Sender_Send (pb_output buf)
                     (cb_output_dest (pb_buf buf)) (cb_output_avail (pb_buf buf))\<rparr>
         else buf)"

definition PacketBuffer_output_handler_done :: "PacketBuffer \<Rightarrow> PacketBuffer" where
  "PacketBuffer_output_handler_done buf =
     (let was_full = (cb_input_avail (pb_buf buf) < pb_input_mtu buf);
          buf = buf\<lparr>pb_buf := ChunkBuffer2_ConsumePacket (pb_buf buf)\<rparr>;
          buf = (if was_full \<and> cb_input_avail (pb_buf buf) \<ge> pb_input_mtu buf
                 then buf\<lparr>pb_input := PacketRecvInterface_Receiver_Recv (pb_input buf) (cb_input_dest (pb_buf buf))\<rparr>
                 else buf)
      in if cb_output_avail (pb_buf buf) \<ge> 0
         then buf\<lparr>pb_output := PacketPassInterface_Sender_Send (pb_output buf)
                     (cb_output_dest (pb_buf buf)) (cb_output_avail (pb_buf buf))\<rparr>
         else buf)"

definition PacketBuffer_Init ::
    "('s::len word \<Rightarrow> bytes option) \<Rightarrow> int option PacketRecvInterface \<Rightarrow> int option PacketPassInterface
     \<Rightarrow> int \<Rightarrow> PacketBuffer option" where
  "PacketBuffer_Init malloc input output num_packets =
     (let input = PacketRecvInterface_Receiver_Init input;
          input_mtu = PacketRecvInterface_GetMTU input;
          output = PacketPassInterface_Sender_Init output;
          num_blocks = ChunkBuffer2_calc_blocks input_mtu num_packets
      in if num_blocks < 0 then None
         else case BAllocArray malloc (word_of_int num_blocks) (word_of_int BLOCK_SIZE) of
           None \<Rightarrow> None
         | Some buf_data \<Rightarrow>
             let cb = ChunkBuffer2_Init buf_data num_blocks input_mtu
             in Some \<lparr>pb_input = PacketRecvInterface_Receiver_Recv input (cb_input_dest cb),
                      pb_input_mtu = input_mtu, pb_output = output, pb_buf = cb\<rparr>)"

text \<open>
  The provider stores a packet through the pointer it was given and completes; the receiver
  reads through the pointer it was given.
\<close>

definition pb_provide :: "PacketBuffer \<Rightarrow> bytes \<Rightarrow> PacketBuffer" where
  "pb_provide b x =
     b\<lparr>pb_buf := (pb_buf b)\<lparr>cb_buffer := mem_write (nat (the (pri_job_operation_data (pb_input b)))) x
                                            (cb_buffer (pb_buf b))\<rparr>,
       pb_input := PacketRecvInterface_Done (pb_input b) (int (length x))\<rparr>"

definition pb_received :: "PacketBuffer \<Rightarrow> bytes" where
  "pb_received b = mem_read (nat (the (ppi_job_operation_data (pb_output b))))
     (nat (ppi_job_operation_len (pb_output b))) (cb_buffer (pb_buf b))"

text \<open>
  A state of the composition is the buffer, the packets the provider has completed and the
  packets the receiver has completed.
\<close>

type_synonym pb_state = "PacketBuffer \<times> bytes list \<times> bytes list"

inductive pb_step :: "pb_state \<Rightarrow> pb_state \<Rightarrow> bool" where
  pb_in_operation: "pri_job_operation (pb_input b) \<Longrightarrow>
    pb_step (b, acc, del) (b\<lparr>pb_input := PacketRecvInterface_job_operation (pb_input b)\<rparr>, acc, del)"
| pb_in_done: "PacketRecvInterface_Done_pre (pb_input b) (int (length x)) \<Longrightarrow>
    pb_step (b, acc, del) (pb_provide b x, acc @ [x], del)"
| pb_in_job_done: "pri_job_done (pb_input b) \<Longrightarrow>
    pb_step (b, acc, del)
      (PacketBuffer_input_handler_done (b\<lparr>pb_input := PacketRecvInterface_job_done (pb_input b)\<rparr>)
         (pri_job_done_len (pb_input b)), acc, del)"
| pb_out_operation: "ppi_job_operation (pb_output b) \<Longrightarrow>
    pb_step (b, acc, del) (b\<lparr>pb_output := PacketPassInterface_job_operation (pb_output b)\<rparr>, acc, del)"
| pb_out_done: "PacketPassInterface_Done_pre (pb_output b) \<Longrightarrow>
    pb_step (b, acc, del)
      (b\<lparr>pb_output := PacketPassInterface_Done (pb_output b)\<rparr>, acc, del @ [pb_received b])"
| pb_out_job_done: "ppi_job_done (pb_output b) \<Longrightarrow>
    pb_step (b, acc, del)
      (PacketBuffer_output_handler_done (b\<lparr>pb_output := PacketPassInterface_job_done (pb_output b)\<rparr>),
       acc, del)"

inductive_cases pb_stepE: "pb_step (b, acc, del) s"

abbreviation pb_reach :: "pb_state \<Rightarrow> pb_state \<Rightarrow> bool" where
  "pb_reach \<equiv> pb_step\<^sup>*\<^sup>*"

section \<open>The invariant of PacketBuffer\<close>

text \<open>The two interfaces are in use exactly as the buffer has room and contents.\<close>

definition pb_in_ok :: "PacketBuffer \<Rightarrow> bool" where
  "pb_in_ok b \<longleftrightarrow>
     pri_wf (pb_input b) \<and> pri_handler_done (pb_input b) \<and> pri_mtu (pb_input b) = pb_input_mtu b \<and>
     (pri_state (pb_input b) \<noteq> STATE_NONE \<longleftrightarrow> pb_input_mtu b \<le> cb_input_avail (pb_buf b)) \<and>
     (pri_state (pb_input b) \<noteq> STATE_NONE \<longrightarrow>
        pri_job_operation_data (pb_input b) = cb_input_dest (pb_buf b)) \<and>
     (pri_state (pb_input b) = STATE_DONE_PENDING \<longrightarrow>
        0 \<le> pri_job_done_len (pb_input b) \<and> pri_job_done_len (pb_input b) \<le> pb_input_mtu b)"

definition pb_out_ok :: "PacketBuffer \<Rightarrow> bool" where
  "pb_out_ok b \<longleftrightarrow>
     ppi_wf (pb_output b) \<and> ppi_handler_done (pb_output b) \<and> pb_input_mtu b \<le> ppi_mtu (pb_output b) \<and>
     (ppi_state (pb_output b) \<noteq> STATE_NONE \<longleftrightarrow> 0 \<le> cb_output_avail (pb_buf b)) \<and>
     (ppi_state (pb_output b) \<noteq> STATE_NONE \<longrightarrow>
        ppi_job_operation_data (pb_output b) = cb_output_dest (pb_buf b) \<and>
        ppi_job_operation_len (pb_output b) = cb_output_avail (pb_buf b))"

text \<open>The packet that is stored but not yet submitted, and the one delivered but not yet dropped.\<close>

definition pb_incoming :: "PacketBuffer \<Rightarrow> bytes list" where
  "pb_incoming b =
     (if pri_state (pb_input b) = STATE_DONE_PENDING
      then [mem_read (nat (the (cb_input_dest (pb_buf b)))) (nat (pri_job_done_len (pb_input b)))
              (cb_buffer (pb_buf b))] else [])"

definition pb_outgoing :: "PacketBuffer \<Rightarrow> bytes list" where
  "pb_outgoing b =
     (if ppi_state (pb_output b) = STATE_DONE_PENDING then [cb_output (pb_buf b)] else [])"

definition pb_size_ok :: "int \<Rightarrow> PacketBuffer \<Rightarrow> bool" where
  "pb_size_ok n b \<longleftrightarrow>
     0 \<le> pb_input_mtu b \<and> cb_mtu (pb_buf b) = bdivide_up (pb_input_mtu b) BLOCK_SIZE \<and>
     (1 + cb_mtu (pb_buf b)) * (n + 1) \<le> cb_size (pb_buf b)"

definition pb_inv :: "int \<Rightarrow> bytes list \<Rightarrow> pb_state \<Rightarrow> bool" where
  "pb_inv n ps s \<longleftrightarrow>
     (case s of (b, acc, del) \<Rightarrow>
        cb_rep (pb_buf b) ps \<and> pb_size_ok n b \<and> pb_in_ok b \<and> pb_out_ok b \<and>
        (\<forall>p \<in> set ps. int (length p) \<le> pb_input_mtu b) \<and>
        (\<exists>old. acc = old @ ps @ pb_incoming b \<and> del = old @ pb_outgoing b))"

lemma SubmitPacket_fields [simp]:
  "cb_size (ChunkBuffer2_SubmitPacket b len) = cb_size b"
  "cb_mtu (ChunkBuffer2_SubmitPacket b len) = cb_mtu b"
  "cb_start (ChunkBuffer2_SubmitPacket b len) = cb_start b"
  by (simp_all add: ChunkBuffer2_SubmitPacket_def Let_def)

lemma cb_fill_fields [simp]:
  "cb_size (cb_fill b x) = cb_size b" "cb_mtu (cb_fill b x) = cb_mtu b" "cb_start (cb_fill b x) = cb_start b"
  "cb_input_dest (cb_fill b x) = cb_input_dest b" "cb_input_avail (cb_fill b x) = cb_input_avail b"
  "cb_output_dest (cb_fill b x) = cb_output_dest b" "cb_output_avail (cb_fill b x) = cb_output_avail b"
  by (simp_all add: cb_fill_def)

lemma cb_rep_input:
  assumes "cb_rep b ps" "0 \<le> cb_input_avail b"
  shows "cb_input_dest b \<noteq> None"
    "int (length x) \<le> cb_input_avail b \<Longrightarrow> nat (the (cb_input_dest b)) + length x \<le> length (cb_buffer b)"
proof -
  obtain xs ys where i: "cb_inv b xs ys" using assms(1) by (auto simp: cb_rep_def)
  then have g: "cb_geometry b" and c: "cb_contents b xs ys" and ok: "cb_input_ok b"
    by (simp_all add: cb_inv_def assert_io_split)
  show d: "cb_input_dest b \<noteq> None" using ok assms(2) by (auto simp: cb_input_ok_def split: if_splits)
  note w = cb_input_window(1,2) [OF i d] and gs = cb_geometryD [OF g]
  obtain e where e: "ChunkBuffer2_end b = int e" using cb_end_bounds(1) [OF g c] nonneg_int_cases by blast
  have "ChunkBuffer2_end b + cb_free b \<le> cb_size b" using gs by (simp add: cb_free_def)
  moreover assume "int (length x) \<le> cb_input_avail b"
  ultimately show "nat (the (cb_input_dest b)) + length x \<le> length (cb_buffer b)"
    using w e gs(11) by simp
qed

lemma data_blocks_le_mtu:
  "int (length x) \<le> m \<Longrightarrow> data_blocks x \<le> bdivide_up m BLOCK_SIZE"
  unfolding data_blocks_def by (rule bdivide_up_mono) simp_all

lemma cb_output_hd: "cb_rep b ps \<Longrightarrow> ps \<noteq> [] \<Longrightarrow> cb_output b = hd ps"
  by (rule cbq.rep_out)

lemma pb_invI:
  assumes "cb_rep (pb_buf b) ps" "pb_size_ok n b" "pb_in_ok b" "pb_out_ok b"
    "\<forall>p \<in> set ps. int (length p) \<le> pb_input_mtu b"
    "acc = old @ ps @ pb_incoming b" "del = old @ pb_outgoing b"
  shows "pb_inv n ps (b, acc, del)"
  using assms by (auto simp: pb_inv_def)

lemma pb_invE:
  assumes "pb_inv n ps (b, acc, del)"
  obtains old where "cb_rep (pb_buf b) ps" "pb_size_ok n b" "pb_in_ok b" "pb_out_ok b"
    "\<forall>p \<in> set ps. int (length p) \<le> pb_input_mtu b"
    "acc = old @ ps @ pb_incoming b" "del = old @ pb_outgoing b"
  using assms by (auto simp: pb_inv_def)

text \<open>The six kinds of step keep the invariant.\<close>

lemma pb_inv_in_operation:
  assumes "pb_inv n ps (b, acc, del)" "pri_job_operation (pb_input b)"
  shows "pb_inv n ps (b\<lparr>pb_input := PacketRecvInterface_job_operation (pb_input b)\<rparr>, acc, del)"
  using assms by (auto simp: pb_inv_def pb_size_ok_def pb_in_ok_def pb_out_ok_def pb_incoming_def
      pb_outgoing_def pri_wf_def pri_defs)

lemma pb_inv_out_operation:
  assumes "pb_inv n ps (b, acc, del)" "ppi_job_operation (pb_output b)"
  shows "pb_inv n ps (b\<lparr>pb_output := PacketPassInterface_job_operation (pb_output b)\<rparr>, acc, del)"
  using assms by (auto simp: pb_inv_def pb_size_ok_def pb_in_ok_def pb_out_ok_def pb_incoming_def
      pb_outgoing_def ppi_wf_def ppi_defs)

lemma pb_inv_out_done:
  assumes "pb_inv n ps (b, acc, del)" "PacketPassInterface_Done_pre (pb_output b)"
  shows "pb_inv n ps (b\<lparr>pb_output := PacketPassInterface_Done (pb_output b)\<rparr>, acc, del @ [pb_received b])"
proof -
  have "pb_received b = cb_output (pb_buf b)"
    using assms by (simp add: pb_inv_def pb_out_ok_def pb_received_def cb_output_def ppi_defs)
  with assms show ?thesis
    by (auto simp: pb_inv_def pb_size_ok_def pb_in_ok_def pb_out_ok_def pb_incoming_def
      pb_outgoing_def ppi_wf_def ppi_defs)
qed

lemma pb_inv_in_done:
  assumes i: "pb_inv n ps (b, acc, del)" and p: "PacketRecvInterface_Done_pre (pb_input b) (int (length x))"
  shows "pb_inv n ps (pb_provide b x, acc @ [x], del)"
  using i
proof (rule pb_invE)
  let ?c = "pb_buf b"
  fix old
  assume r: "cb_rep ?c ps" and sz: "pb_size_ok n b" and ok: "pb_in_ok b" "pb_out_ok b"
    and lens: "\<forall>p \<in> set ps. int (length p) \<le> pb_input_mtu b"
    and hist: "acc = old @ ps @ pb_incoming b" "del = old @ pb_outgoing b"
  have st: "pri_state (pb_input b) = STATE_BUSY" and len: "int (length x) \<le> pb_input_mtu b"
    using p ok(1) by (simp_all add: pri_defs pb_in_ok_def)
  have av: "int (length x) \<le> cb_input_avail ?c" using st len ok(1) by (auto simp: pb_in_ok_def)
  have av0: "0 \<le> cb_input_avail ?c" using av by simp
  note d = cb_rep_input(1) [OF r av0] cb_rep_input(2) [OF r av0 av]
  have pr: "pb_provide b x = b\<lparr>pb_buf := cb_fill ?c x,
      pb_input := PacketRecvInterface_Done (pb_input b) (int (length x))\<rparr>"
    using st ok(1) by (simp add: pb_provide_def cb_fill_def pb_in_ok_def)
  have rf: "cb_rep (cb_fill ?c x) ps" by (rule cb_rep_fill [OF r d(1) av])
  have rd: "mem_read (nat (the (cb_input_dest ?c))) (length x) (cb_buffer (cb_fill ?c x)) = x"
    using d(2) by (simp add: cb_fill_def mem_read_write_same)
  show ?thesis
  proof (rule pb_invI)
    show "cb_rep (pb_buf (pb_provide b x)) ps" "pb_size_ok n (pb_provide b x)" "pb_in_ok (pb_provide b x)"
      "pb_out_ok (pb_provide b x)" "\<forall>p \<in> set ps. int (length p) \<le> pb_input_mtu (pb_provide b x)"
      using rf sz ok lens st len
      by (auto simp: pr pb_size_ok_def pb_in_ok_def pb_out_ok_def pri_wf_def pri_defs)
    have "pb_outgoing (pb_provide b x) = pb_outgoing b"
      using ok(2) cb_output_hd [OF r] cb_output_hd [OF rf] cb_rep_output(1) [OF r]
      by (auto simp: pb_outgoing_def pr pb_out_ok_def)
    then show "del = old @ pb_outgoing (pb_provide b x)" using hist by simp
    show "acc @ [x] = old @ ps @ pb_incoming (pb_provide b x)"
      using hist rd st by (simp add: pb_incoming_def pr pri_defs)
  qed
qed

text \<open>A submission as the client of the queue sees it.\<close>

lemma pb_submit:
  assumes r: "cb_rep c ps" and a: "0 \<le> len" "len \<le> cb_input_avail c"
    and m: "bdivide_up len BLOCK_SIZE \<le> cb_mtu c"
  defines "x \<equiv> mem_read (nat (the (cb_input_dest c))) (nat len) (cb_buffer c)"
  shows "cb_rep (ChunkBuffer2_SubmitPacket c len) (ps @ [x])" "int (length x) = len"
    "ps \<noteq> [] \<Longrightarrow> cb_output_dest (ChunkBuffer2_SubmitPacket c len) = cb_output_dest c"
    "ps \<noteq> [] \<Longrightarrow> cb_output_avail (ChunkBuffer2_SubmitPacket c len) = cb_output_avail c"
proof -
  have a0: "0 \<le> cb_input_avail c" using a by simp
  have fits: "nat (the (cb_input_dest c)) + nat len \<le> length (cb_buffer c)"
    using cb_rep_input(2) [OF r a0, of "replicate (nat len) 0"] a by simp
  then show lx: "int (length x) = len" using a(1) by (simp add: x_def)
  have lx': "length x = nat len" using lx by simp
  have "cb_fill c x = c"
    by (rule cb_fill_id) (use fits lx' in \<open>simp_all add: x_def\<close>)
  then have put: "cb_put c x = ChunkBuffer2_SubmitPacket c len" by (simp add: cb_put_def lx)
  have "cb_can_put c x"
    using cb_rep_input(1) [OF r a0] a m lx by (simp add: cb_can_put_def data_blocks_def)
  then show r': "cb_rep (ChunkBuffer2_SubmitPacket c len) (ps @ [x])"
    using cbq.rep_put [OF r, of x] by (simp only: put)
  assume "ps \<noteq> []"
  then show "cb_output_dest (ChunkBuffer2_SubmitPacket c len) = cb_output_dest c"
    "cb_output_avail (ChunkBuffer2_SubmitPacket c len) = cb_output_avail c"
    using cb_rep_output(3,4) [OF r'] cb_rep_output(3,4) [OF r] by simp_all
qed

lemma pb_inv_in_job_done:
  assumes i: "pb_inv n ps (b, acc, del)" and j: "pri_job_done (pb_input b)"
  shows "\<exists>ps'. pb_inv n ps' (PacketBuffer_input_handler_done
            (b\<lparr>pb_input := PacketRecvInterface_job_done (pb_input b)\<rparr>) (pri_job_done_len (pb_input b)), acc, del)"
  using i
proof (rule pb_invE)
  let ?c = "pb_buf b" and ?len = "pri_job_done_len (pb_input b)"
  let ?c' = "ChunkBuffer2_SubmitPacket ?c ?len"
  define x where "x = mem_read (nat (the (cb_input_dest ?c))) (nat ?len) (cb_buffer ?c)"
  define b' where "b' = PacketBuffer_input_handler_done
            (b\<lparr>pb_input := PacketRecvInterface_job_done (pb_input b)\<rparr>) ?len"
  fix old
  assume r: "cb_rep ?c ps" and sz: "pb_size_ok n b" and ok: "pb_in_ok b" "pb_out_ok b"
    and lens: "\<forall>p \<in> set ps. int (length p) \<le> pb_input_mtu b"
    and hist: "acc = old @ ps @ pb_incoming b" "del = old @ pb_outgoing b"
  have st: "pri_state (pb_input b) = STATE_DONE_PENDING" using j ok(1) by (simp add: pb_in_ok_def pri_wf_def)
  have len: "0 \<le> ?len" "?len \<le> pb_input_mtu b" "pb_input_mtu b \<le> cb_input_avail ?c"
    using st ok(1) by (auto simp: pb_in_ok_def)
  have "bdivide_up ?len BLOCK_SIZE \<le> cb_mtu ?c"
    using len sz by (simp add: pb_size_ok_def bdivide_up_mono)
  note sub = pb_submit [OF r len(1) order_trans [OF len(2,3)] this, folded x_def]
  have emp: "cb_output_avail ?c < 0 \<longleftrightarrow> ps = []" using cb_rep_output(1) [OF r] by linarith
  have out': "0 \<le> cb_output_avail ?c'" using cb_rep_output(1) [OF sub(1)] by simp
  note b' = b'_def PacketBuffer_input_handler_done_def Let_def
  have f: "pb_buf b' = ?c'" "pb_input_mtu b' = pb_input_mtu b" by (simp_all add: b')
  have "pb_inv n (ps @ [x]) (b', acc, del)"
  proof (rule pb_invI)
    show "cb_rep (pb_buf b') (ps @ [x])" "pb_size_ok n b'" "\<forall>p \<in> set (ps @ [x]). int (length p) \<le> pb_input_mtu b'"
      using sub(1,2) sz lens len(2) by (auto simp: f pb_size_ok_def)
    show "pb_in_ok b'" using ok(1) st by (auto simp: pb_in_ok_def pri_wf_def pri_defs b')
    show "pb_out_ok b'"
      using ok(2) emp out' sub(3,4) by (cases "ps = []") (auto simp: pb_out_ok_def ppi_wf_def ppi_defs b')
    have "pb_incoming b' = []" by (simp add: pb_incoming_def pri_defs b')
    then show "acc = old @ (ps @ [x]) @ pb_incoming b'"
      using hist st by (simp add: pb_incoming_def x_def)
    have "cb_output ?c' = cb_output ?c" if "ps \<noteq> []"
      using cb_output_hd [OF sub(1)] cb_output_hd [OF r that] that by simp
    moreover have "ppi_state (pb_output b) = STATE_NONE \<longleftrightarrow> ps = []"
      using ok(2) emp by (auto simp: pb_out_ok_def)
    ultimately have "pb_outgoing b' = pb_outgoing b"
      using emp by (cases "ps = []") (auto simp: pb_outgoing_def ppi_defs b')
    then show "del = old @ pb_outgoing b'" using hist by simp
  qed
  then show ?thesis unfolding b'_def by blast
qed

lemma pb_inv_out_job_done:
  assumes i: "pb_inv n ps (b, acc, del)" and j: "ppi_job_done (pb_output b)"
  shows "\<exists>ps'. pb_inv n ps' (PacketBuffer_output_handler_done
            (b\<lparr>pb_output := PacketPassInterface_job_done (pb_output b)\<rparr>), acc, del)"
  using i
proof (rule pb_invE)
  let ?c = "pb_buf b"
  let ?c' = "ChunkBuffer2_ConsumePacket ?c"
  define b' where "b' = PacketBuffer_output_handler_done
            (b\<lparr>pb_output := PacketPassInterface_job_done (pb_output b)\<rparr>)"
  fix old
  assume r: "cb_rep ?c ps" and sz: "pb_size_ok n b" and ok: "pb_in_ok b" "pb_out_ok b"
    and lens: "\<forall>p \<in> set ps. int (length p) \<le> pb_input_mtu b"
    and hist: "acc = old @ ps @ pb_incoming b" "del = old @ pb_outgoing b"
  have st: "ppi_state (pb_output b) = STATE_DONE_PENDING" using j ok(2) by (simp add: pb_out_ok_def ppi_wf_def)
  have ne: "ps \<noteq> []" using st ok(2) cb_rep_output(1) [OF r] by (auto simp: pb_out_ok_def)
  have r': "cb_rep ?c' (tl ps)" by (rule cbq.rep_drop [OF r ne])
  note win = ConsumePacket_window [OF r ne]
  have full: "pri_state (pb_input b) = STATE_NONE \<longleftrightarrow> cb_input_avail ?c < pb_input_mtu b"
    using ok(1) by (auto simp: pb_in_ok_def)
  have mtu: "0 \<le> pb_input_mtu b" using sz by (simp add: pb_size_ok_def)
  have keep: "cb_input_dest ?c' = cb_input_dest ?c \<and> pb_input_mtu b \<le> cb_input_avail ?c'"
    if "\<not> cb_input_avail ?c < pb_input_mtu b"
    using that mtu win(4) cb_rep_input(1) [OF r] by auto
  note b' = b'_def PacketBuffer_output_handler_done_def Let_def
  have f: "pb_buf b' = ?c'" "pb_input_mtu b' = pb_input_mtu b" by (simp_all add: b')
  have "pb_inv n (tl ps) (b', acc, del)"
  proof (rule pb_invI)
    show "cb_rep (pb_buf b') (tl ps)" "pb_size_ok n b'" "\<forall>p \<in> set (tl ps). int (length p) \<le> pb_input_mtu b'"
      using r' sz lens win(2,3) ne by (auto simp: f pb_size_ok_def dest: list.set_sel(2))
    show "pb_in_ok b'"
      using ok(1) full keep by (auto simp: pb_in_ok_def pri_wf_def pri_defs b')
    show "pb_out_ok b'" using ok(2) st by (auto simp: pb_out_ok_def ppi_wf_def ppi_defs b')
    have "pb_incoming b' = pb_incoming b"
      using full keep win(1) by (auto simp: pb_incoming_def pri_defs b')
    then show "acc = (old @ [hd ps]) @ tl ps @ pb_incoming b'"
      using hist ne by simp
    have "pb_outgoing b' = []" by (simp add: pb_outgoing_def ppi_defs b')
    then show "del = (old @ [hd ps]) @ pb_outgoing b'"
      using hist st cb_output_hd [OF r ne] by (simp add: pb_outgoing_def)
  qed
  then show ?thesis unfolding b'_def by blast
qed

lemma pb_step_inv:
  assumes "pb_step s s'" "pb_inv n ps s"
  shows "\<exists>ps'. pb_inv n ps' s'"
  using assms
  by (induction rule: pb_step.induct)
    (blast intro: pb_inv_in_operation pb_inv_in_done pb_inv_in_job_done pb_inv_out_operation
       pb_inv_out_done pb_inv_out_job_done)+

lemma pb_reach_inv:
  assumes "pb_reach s s'" "\<exists>ps. pb_inv n ps s"
  shows "\<exists>ps. pb_inv n ps s'"
  using assms by (induction rule: rtranclp_induct) (blast dest: pb_step_inv)+

section \<open>Initialisation of PacketBuffer\<close>

definition pri_fresh :: "'p PacketRecvInterface \<Rightarrow> bool" where
  "pri_fresh i \<longleftrightarrow> pri_wf i \<and> pri_state i = STATE_NONE \<and> 0 \<le> pri_mtu i"

definition ppi_fresh :: "'p PacketPassInterface \<Rightarrow> bool" where
  "ppi_fresh i \<longleftrightarrow> ppi_wf i \<and> ppi_state i = STATE_NONE"

text \<open>A memory allocator gives as many bytes as were asked for.\<close>

definition malloc_ok :: "('s::len word \<Rightarrow> bytes option) \<Rightarrow> bool" where
  "malloc_ok malloc \<longleftrightarrow> (\<forall>n m. malloc n = Some m \<longrightarrow> int (length m) = uint n)"

lemma uint_word_of_int_range:
  assumes "0 \<le> k" "k \<le> INT_MAX" "32 \<le> LENGTH('s::len)"
  shows "uint (word_of_int k :: 's word) = k"
proof -
  have "k < 2 ^ 32" using assms(2) by simp
  also have "(2::int) ^ 32 \<le> 2 ^ LENGTH('s)" using assms(3) by (rule power_increasing) simp
  finally show "uint (word_of_int k :: 's word) = k"
    using assms(1) by (simp add: word_of_int_inverse)
qed

lemma PacketBuffer_Init_inv:
  fixes malloc :: "'s::len word \<Rightarrow> bytes option"
  assumes init: "PacketBuffer_Init malloc input output num = Some b"
    and m: "malloc_ok malloc" and w: "32 \<le> LENGTH('s)"
    and fresh: "pri_fresh input" "ppi_fresh output" and mtu: "pri_mtu input \<le> ppi_mtu output"
    and num: "0 < num" and small: "BLOCK_SIZE * ChunkBuffer2_calc_blocks (pri_mtu input) num \<le> INT_MAX"
  shows "pb_inv num [] (b, [], [])"
proof -
  let ?mtu = "pri_mtu input"
  let ?nb = "ChunkBuffer2_calc_blocks ?mtu num"
  let ?d = "bdivide_up ?mtu BLOCK_SIZE"
  have mtu0: "0 \<le> ?mtu" using fresh by (simp add: pri_fresh_def)
  have d0: "0 \<le> ?d" using mtu0 by (rule bdivide_up_bounds(3)) simp
  from init obtain mem where nb: "0 \<le> ?nb"
    and al: "BAllocArray malloc (word_of_int ?nb) (word_of_int BLOCK_SIZE) = Some mem"
    and b: "b = (let cb = ChunkBuffer2_Init mem ?nb ?mtu in
      \<lparr>pb_input = PacketRecvInterface_Receiver_Recv (PacketRecvInterface_Receiver_Init input) (cb_input_dest cb),
       pb_input_mtu = ?mtu, pb_output = PacketPassInterface_Sender_Init output, pb_buf = cb\<rparr>)"
    by (auto simp: PacketBuffer_Init_def Let_def pri_defs split: if_splits option.splits)
  have nbv: "?nb = (1 + ?d) * (num + 1)"
    using nb calc_blocks_cases [OF mtu0] num by (simp add: Let_def split: if_splits)
  have "(1 + ?d) * 1 \<le> (1 + ?d) * (num + 1)" using d0 num by (intro mult_left_mono) simp_all
  then have big: "1 + ?d \<le> ?nb" using nbv by simp
  have u: "uint (word_of_int ?nb :: 's word) = ?nb" "uint (word_of_int BLOCK_SIZE :: 's word) = BLOCK_SIZE"
    using nb small w by (intro uint_word_of_int_range; simp)+
  have prod: "uint (word_of_int (?nb * BLOCK_SIZE) :: 's word) = ?nb * BLOCK_SIZE"
    using nb small w by (intro uint_word_of_int_range) simp_all
  have nz: "(word_of_int ?nb :: 's word) \<noteq> 0" "(word_of_int BLOCK_SIZE :: 's word) \<noteq> 0"
    using u big d0 by (auto simp flip: uint_0_iff)
  have "malloc (word_of_int (?nb * BLOCK_SIZE)) = Some mem"
    using al unfolding BAllocArray_exact u using nz by (simp split: if_splits)
  then have len: "int (length mem) = BLOCK_SIZE * ?nb"
    using m prod unfolding malloc_ok_def by fastforce
  have inv: "cb_inv (ChunkBuffer2_Init mem ?nb ?mtu) [] []"
    using len small mtu0 big by (intro ChunkBuffer2_Init_inv) simp_all
  let ?cb = "ChunkBuffer2_Init mem ?nb ?mtu"
  have f: "cb_mtu ?cb = ?d" "cb_size ?cb = ?nb" by (simp_all add: ChunkBuffer2_Init_def Let_def)
  have rep: "cb_rep ?cb []" using cb_repI [OF inv] by simp
  have free: "cb_mtu ?cb + 1 \<le> cb_free ?cb"
    by (rule cb_free_capacity [where n = num and xs = "[]" and ys = "[]"]) (use inv f nbv num in \<open>simp_all add: cb_inv_def\<close>)
  have "?mtu \<le> BLOCK_SIZE * ?d" using mtu0 by (rule bdivide_up_bounds(1)) simp
  then have av: "?mtu \<le> cb_input_avail ?cb" using cb_input_avail_free(2) [OF inv free] f by simp
  have out: "cb_output_avail ?cb < 0" using cb_rep_output(1) [OF rep] by simp
  show ?thesis
  proof (rule pb_invI)
    show "cb_rep (pb_buf b) []" "pb_size_ok num b"
      using rep f nbv mtu0 by (simp_all add: b Let_def pb_size_ok_def)
    show "pb_in_ok b" using fresh(1) av by (auto simp: b Let_def pb_in_ok_def pri_fresh_def pri_wf_def pri_defs)
    show "pb_out_ok b" using fresh(2) out mtu by (auto simp: b Let_def pb_out_ok_def ppi_fresh_def ppi_wf_def ppi_defs)
    show "[] = [] @ [] @ pb_incoming b" "[] = [] @ pb_outgoing b"
      using fresh(2) by (simp_all add: b Let_def pb_incoming_def pb_outgoing_def pri_defs ppi_defs ppi_fresh_def)
  qed simp
qed

section \<open>Running PacketBuffer\<close>

datatype pb_event = InOperation | InDone bytes | InJobDone | OutOperation | OutDone | OutJobDone

fun pb_do :: "pb_event \<Rightarrow> pb_state \<Rightarrow> pb_state option" where
  "pb_do InOperation (b, acc, del) =
     (if pri_job_operation (pb_input b)
      then Some (b\<lparr>pb_input := PacketRecvInterface_job_operation (pb_input b)\<rparr>, acc, del) else None)"
| "pb_do (InDone x) (b, acc, del) =
     (if PacketRecvInterface_Done_pre (pb_input b) (int (length x))
      then Some (pb_provide b x, acc @ [x], del) else None)"
| "pb_do InJobDone (b, acc, del) =
     (if pri_job_done (pb_input b)
      then Some (PacketBuffer_input_handler_done (b\<lparr>pb_input := PacketRecvInterface_job_done (pb_input b)\<rparr>)
                   (pri_job_done_len (pb_input b)), acc, del) else None)"
| "pb_do OutOperation (b, acc, del) =
     (if ppi_job_operation (pb_output b)
      then Some (b\<lparr>pb_output := PacketPassInterface_job_operation (pb_output b)\<rparr>, acc, del) else None)"
| "pb_do OutDone (b, acc, del) =
     (if PacketPassInterface_Done_pre (pb_output b)
      then Some (b\<lparr>pb_output := PacketPassInterface_Done (pb_output b)\<rparr>, acc, del @ [pb_received b]) else None)"
| "pb_do OutJobDone (b, acc, del) =
     (if ppi_job_done (pb_output b)
      then Some (PacketBuffer_output_handler_done (b\<lparr>pb_output := PacketPassInterface_job_done (pb_output b)\<rparr>),
                 acc, del) else None)"

fun pb_exec :: "pb_event list \<Rightarrow> pb_state \<Rightarrow> pb_state option" where
  "pb_exec [] s = Some s"
| "pb_exec (e # es) s = (case pb_do e s of None \<Rightarrow> None | Some s' \<Rightarrow> pb_exec es s')"

lemma pb_do_step: "pb_do e s = Some s' \<Longrightarrow> pb_step s s'"
  by (induction e s rule: pb_do.induct) (auto split: if_splits intro: pb_step.intros)

lemma pb_exec_reach: "pb_exec es s = Some s' \<Longrightarrow> pb_reach s s'"
  by (induction es arbitrary: s)
    (auto split: option.splits intro: converse_rtranclp_into_rtranclp dest!: pb_do_step)

text \<open>The assertions met by the two handlers, those of the interface functions they call included.\<close>

definition pb_input_asserts :: "PacketBuffer \<Rightarrow> int \<Rightarrow> bool" where
  "pb_input_asserts buf in_len \<longleftrightarrow>
     0 \<le> in_len \<and> in_len \<le> pb_input_mtu buf \<and> cb_input_dest (pb_buf buf) \<noteq> None \<and>
     in_len \<le> cb_input_avail (pb_buf buf) \<and>
     (let c = ChunkBuffer2_SubmitPacket (pb_buf buf) in_len in
      ChunkBuffer2_assert_buffer c \<and> ChunkBuffer2_assert_io c \<and>
      (cb_input_avail c \<ge> pb_input_mtu buf \<longrightarrow> PacketRecvInterface_Receiver_Recv_pre (pb_input buf)) \<and>
      (cb_output_avail (pb_buf buf) < 0 \<longrightarrow>
         PacketPassInterface_Sender_Send_pre (pb_output buf) (cb_output_avail c)))"

definition pb_output_asserts :: "PacketBuffer \<Rightarrow> bool" where
  "pb_output_asserts buf \<longleftrightarrow>
     cb_output_dest (pb_buf buf) \<noteq> None \<and>
     (let c = ChunkBuffer2_ConsumePacket (pb_buf buf) in
      ChunkBuffer2_assert_buffer c \<and> ChunkBuffer2_assert_io c \<and>
      (cb_input_avail (pb_buf buf) < pb_input_mtu buf \<and> cb_input_avail c \<ge> pb_input_mtu buf \<longrightarrow>
         PacketRecvInterface_Receiver_Recv_pre (pb_input buf)) \<and>
      (cb_output_avail c \<ge> 0 \<longrightarrow>
         PacketPassInterface_Sender_Send_pre (pb_output buf) (cb_output_avail c)))"

lemma cb_rep_asserts: "cb_rep c ps \<Longrightarrow> ChunkBuffer2_assert_buffer c \<and> ChunkBuffer2_assert_io c"
  by (auto simp: cb_rep_def cb_inv_def cb_geometry_def)

lemma pb_inv_input_asserts:
  assumes i: "pb_inv n ps (b, acc, del)" and j: "pri_job_done (pb_input b)"
  shows "pb_input_asserts (b\<lparr>pb_input := PacketRecvInterface_job_done (pb_input b)\<rparr>) (pri_job_done_len (pb_input b))"
proof -
  let ?c = "pb_buf b" and ?len = "pri_job_done_len (pb_input b)"
  have r: "cb_rep ?c ps" and sz: "pb_size_ok n b" and ok: "pb_in_ok b" "pb_out_ok b"
    and lens: "\<forall>p \<in> set ps. int (length p) \<le> pb_input_mtu b"
    using i by (simp_all add: pb_inv_def)
  have st: "pri_state (pb_input b) = STATE_DONE_PENDING" using j ok(1) by (simp add: pb_in_ok_def pri_wf_def)
  have len: "0 \<le> ?len" "?len \<le> pb_input_mtu b" "pb_input_mtu b \<le> cb_input_avail ?c"
    using st ok(1) by (auto simp: pb_in_ok_def)
  have "bdivide_up ?len BLOCK_SIZE \<le> cb_mtu ?c" using len sz by (simp add: pb_size_ok_def bdivide_up_mono)
  note sub = pb_submit [OF r len(1) order_trans [OF len(2,3)] this]
  have d: "cb_input_dest ?c \<noteq> None" using cb_rep_input(1) [OF r] len by simp
  have emp: "cb_output_avail ?c < 0 \<longleftrightarrow> ps = []" using cb_rep_output(1) [OF r] by linarith
  have "cb_output_avail (ChunkBuffer2_SubmitPacket ?c ?len) = ?len" if "ps = []"
    using cb_rep_output(3) [OF sub(1)] sub(2) that by simp
  with cb_rep_asserts [OF sub(1)] ok st len d emp show ?thesis
    by (auto simp: pb_input_asserts_def Let_def pb_in_ok_def pb_out_ok_def pri_defs ppi_defs)
qed

lemma pb_inv_output_asserts:
  assumes i: "pb_inv n ps (b, acc, del)" and j: "ppi_job_done (pb_output b)"
  shows "pb_output_asserts (b\<lparr>pb_output := PacketPassInterface_job_done (pb_output b)\<rparr>)"
proof -
  let ?c = "pb_buf b"
  let ?c' = "ChunkBuffer2_ConsumePacket ?c"
  have r: "cb_rep ?c ps" and ok: "pb_in_ok b" "pb_out_ok b"
    and lens: "\<forall>p \<in> set ps. int (length p) \<le> pb_input_mtu b"
    using i by (simp_all add: pb_inv_def)
  have st: "ppi_state (pb_output b) = STATE_DONE_PENDING" using j ok(2) by (simp add: pb_out_ok_def ppi_wf_def)
  have ne: "ps \<noteq> []" using st ok(2) cb_rep_output(1) [OF r] by (auto simp: pb_out_ok_def)
  have r': "cb_rep ?c' (tl ps)" by (rule cbq.rep_drop [OF r ne])
  have "cb_output_avail ?c' \<le> pb_input_mtu b" if "0 \<le> cb_output_avail ?c'"
  proof -
    have ne': "tl ps \<noteq> []" using cb_rep_output(1) [OF r'] that by blast
    then have "hd (tl ps) \<in> set ps" using ne by (simp add: list.set_sel)
    then show ?thesis using cb_rep_output(3) [OF r' ne'] lens by simp
  qed
  moreover have "cb_output_dest ?c \<noteq> None" using cb_rep_output(2) [OF r] ne by blast
  ultimately show ?thesis using cb_rep_asserts [OF r'] ok
    by (auto simp: pb_output_asserts_def Let_def pb_in_ok_def pb_out_ok_def pri_defs ppi_defs)
qed

section \<open>Properties of PacketBuffer\<close>

text \<open>A buffer just initialised between two unused interfaces, as the code requires.\<close>

definition pb_started ::
    "('s::len word \<Rightarrow> bytes option) \<Rightarrow> int option PacketRecvInterface \<Rightarrow> int option PacketPassInterface
     \<Rightarrow> int \<Rightarrow> PacketBuffer \<Rightarrow> bool" where
  "pb_started malloc input output num b \<longleftrightarrow>
     PacketBuffer_Init malloc input output num = Some b \<and> malloc_ok malloc \<and> 32 \<le> LENGTH('s) \<and>
     pri_fresh input \<and> ppi_fresh output \<and> pri_mtu input \<le> ppi_mtu output \<and> 0 < num \<and>
     BLOCK_SIZE * ChunkBuffer2_calc_blocks (pri_mtu input) num \<le> INT_MAX"

lemma pb_started_inv:
  fixes malloc :: "'s::len word \<Rightarrow> bytes option"
  assumes "pb_started malloc input output num b" "pb_reach (b, [], []) s"
  shows "\<exists>ps. pb_inv num ps s"
  using assms PacketBuffer_Init_inv [of malloc input "output" num b]
  by (intro pb_reach_inv [OF assms(2)]) (auto simp: pb_started_def)

definition demo_malloc :: "32 word \<Rightarrow> bytes option" where
  "demo_malloc n = Some (replicate (unat n) 0)"

definition demo_input :: "int option PacketRecvInterface" where
  "demo_input = PacketRecvInterface_Init None 6"

definition demo_output :: "int option PacketPassInterface" where
  "demo_output = PacketPassInterface_Init None 8"

definition demo_pb :: PacketBuffer where
  "demo_pb = the (PacketBuffer_Init demo_malloc demo_input demo_output 2)"

definition demo_run :: "pb_event list" where
  "demo_run = [InOperation, InDone [1, 2, 3, 4, 5], InJobDone, OutOperation, InOperation, InDone [6], OutDone]"

lemma demo_malloc_ok: "malloc_ok demo_malloc"
  by (simp add: malloc_ok_def demo_malloc_def)

lemma demo_started: "pb_started demo_malloc demo_input demo_output 2 demo_pb"
proof -
  have "PacketBuffer_Init demo_malloc demo_input demo_output 2 = Some demo_pb" by code_simp
  moreover have "pri_fresh demo_input" "ppi_fresh demo_output" "pri_mtu demo_input \<le> ppi_mtu demo_output"
    "BLOCK_SIZE * ChunkBuffer2_calc_blocks (pri_mtu demo_input) 2 \<le> INT_MAX" by code_simp+
  ultimately show ?thesis by (simp add: pb_started_def demo_malloc_ok)
qed

lemma demo_reach:
  "\<exists>b. pb_reach (demo_pb, [], []) (b, [[1, 2, 3, 4, 5], [6]], [[1, 2, 3, 4, 5]]) \<and> pri_job_done (pb_input b)
     \<and> ppi_job_done (pb_output b)"
proof -
  have "map_option (\<lambda>(b, h). (h, pri_job_done (pb_input b), ppi_job_done (pb_output b)))
       (pb_exec demo_run (demo_pb, [], [])) = Some (([[1, 2, 3, 4, 5], [6]], [[1, 2, 3, 4, 5]]), True, True)"
    by code_simp
  then show ?thesis by (auto dest!: pb_exec_reach)
qed

text \<open>
  C1: \<^verbatim>\<open>PacketBuffer\<close> is a FIFO. At every point of every interleaving of provider,
  receiver and jobs, the packets the receiver has completed, read from the buffer memory
  through the pointer it was given at the moment it completes, are byte for byte the first
  packets the provider stored, in order.
\<close>

theorem PacketBuffer_fifo:
  assumes "pb_started malloc input output num b" "pb_reach (b, [], []) (b', acc, del)"
  shows "take (length del) acc = del"
proof -
  obtain ps where i: "pb_inv num ps (b', acc, del)" using pb_started_inv [OF assms] by blast
  then obtain old where o: "acc = old @ ps @ pb_incoming b'" "del = old @ pb_outgoing b'"
    by (rule pb_invE) blast
  have "pb_outgoing b' = [] \<or> ps \<noteq> [] \<and> pb_outgoing b' = [hd ps]"
    using i cb_output_hd [of "pb_buf b'" ps] cb_rep_output(1) [of "pb_buf b'" ps]
    by (auto simp: pb_inv_def pb_outgoing_def pb_out_ok_def)
  then show ?thesis using o by (auto simp: neq_Nil_conv)
qed

theorem PacketBuffer_fifo_witness:
  "\<exists>b. pb_reach (demo_pb, [], []) (b, [[1, 2, 3, 4, 5], [6]], [[1, 2, 3, 4, 5]]) \<and>
     take (length [[1, 2, 3, 4, 5 :: byte]]) [[1, 2, 3, 4, 5 :: byte], [6]] = [[1, 2, 3, 4, 5]]"
  using demo_reach PacketBuffer_fifo [OF demo_started] by blast





end
