(* ===== verification/IpProto.thy ===== *)
theory IpProto
  imports ByteOrder
begin

text \<open>
  \<^verbatim>\<open>misc/ipv4_proto.h\<close>, \<^verbatim>\<open>misc/ipv6_proto.h\<close> and \<^verbatim>\<open>misc/udp_proto.h\<close>: the packet headers,
  the Internet checksum and the parsers that validate a packet read from the TUN device.
  A header record keeps the raw field values, as the packed C struct does: a field in
  network byte order is only meaningful after \<^verbatim>\<open>ntoh16\<close>. A parser is given the received
  bytes and returns the header with the offset and length of the payload, or
  \<^const>\<open>None\<close> for the result 0.

  The lemmas give the checksum its arithmetic meaning (the one's complement sum of the
  16-bit words), show that the carry-folding loop ends and what it computes, and that the
  parsers accept exactly the well-formed packets and never place a payload outside the data.
\<close>

section \<open>Headers\<close>

record ipv4_header =
  ip4_version4_ihl4 :: u8
  ip4_ds :: u8
  ip4_total_length :: u16
  ip4_identification :: u16
  ip4_flags3_fragmentoffset13 :: u16
  ip4_ttl :: u8
  ip4_protocol :: u8
  ip4_checksum :: u16
  ip4_source_address :: u32
  ip4_destination_address :: u32

record udp_header =
  udp_source_port :: u16
  udp_dest_port :: u16
  udp_length :: u16
  udp_checksum_field :: u16

record ipv6_header =
  ip6_version4_tc4 :: u8
  ip6_tc4_fl4 :: u8
  ip6_fl :: u16
  ip6_payload_length :: u16
  ip6_next_header :: u8
  ip6_hop_limit :: u8
  ip6_source_address :: bytes
  ip6_destination_address :: bytes

text \<open>The object representation of the packed structs, and copying into them.\<close>

definition ipv4_header_bytes :: "ipv4_header \<Rightarrow> bytes" where
  "ipv4_header_bytes h =
     [ip4_version4_ihl4 h, ip4_ds h] @ mem16 (ip4_total_length h) @ mem16 (ip4_identification h) @
     mem16 (ip4_flags3_fragmentoffset13 h) @ [ip4_ttl h, ip4_protocol h] @ mem16 (ip4_checksum h) @
     mem32 (ip4_source_address h) @ mem32 (ip4_destination_address h)"

definition ipv4_header_of :: "bytes \<Rightarrow> ipv4_header" where
  "ipv4_header_of d =
     \<lparr>ip4_version4_ihl4 = d ! 0, ip4_ds = d ! 1, ip4_total_length = rd16 (drop 2 d),
      ip4_identification = rd16 (drop 4 d), ip4_flags3_fragmentoffset13 = rd16 (drop 6 d),
      ip4_ttl = d ! 8, ip4_protocol = d ! 9, ip4_checksum = rd16 (drop 10 d),
      ip4_source_address = rd32 (drop 12 d), ip4_destination_address = rd32 (drop 16 d)\<rparr>"

definition udp_header_bytes :: "udp_header \<Rightarrow> bytes" where
  "udp_header_bytes h =
     mem16 (udp_source_port h) @ mem16 (udp_dest_port h) @ mem16 (udp_length h) @ mem16 (udp_checksum_field h)"

definition udp_header_of :: "bytes \<Rightarrow> udp_header" where
  "udp_header_of d =
     \<lparr>udp_source_port = rd16 d, udp_dest_port = rd16 (drop 2 d), udp_length = rd16 (drop 4 d),
      udp_checksum_field = rd16 (drop 6 d)\<rparr>"

definition ipv6_header_bytes :: "ipv6_header \<Rightarrow> bytes" where
  "ipv6_header_bytes h =
     [ip6_version4_tc4 h, ip6_tc4_fl4 h] @ mem16 (ip6_fl h) @ mem16 (ip6_payload_length h) @
     [ip6_next_header h, ip6_hop_limit h] @ ip6_source_address h @ ip6_destination_address h"

definition ipv6_header_of :: "bytes \<Rightarrow> ipv6_header" where
  "ipv6_header_of d =
     \<lparr>ip6_version4_tc4 = d ! 0, ip6_tc4_fl4 = d ! 1, ip6_fl = rd16 (drop 2 d),
      ip6_payload_length = rd16 (drop 4 d), ip6_next_header = d ! 6, ip6_hop_limit = d ! 7,
      ip6_source_address = take 16 (drop 8 d), ip6_destination_address = take 16 (drop 24 d)\<rparr>"

abbreviation IPV4_HEADER_SIZE :: int where "IPV4_HEADER_SIZE \<equiv> 20"
abbreviation IPV6_HEADER_SIZE :: int where "IPV6_HEADER_SIZE \<equiv> 40"
abbreviation UDP_HEADER_SIZE :: int where "UDP_HEADER_SIZE \<equiv> 8"

definition IPV4_PROTOCOL_UDP :: u8 where "IPV4_PROTOCOL_UDP = 17"
definition IPV6_NEXT_UDP :: u8 where "IPV6_NEXT_UDP = 17"

definition IPV4_GET_VERSION :: "ipv4_header \<Rightarrow> int" where
  "IPV4_GET_VERSION h = uint (drop_bit 4 (ip4_version4_ihl4 h AND 0xF0))"

definition IPV4_GET_IHL :: "ipv4_header \<Rightarrow> int" where
  "IPV4_GET_IHL h = uint (ip4_version4_ihl4 h AND 0x0F)"

definition IPV4_MAKE_VERSION_IHL :: "int \<Rightarrow> u8" where
  "IPV4_MAKE_VERSION_IHL sz = word_of_int (sz div 4 + 64)"

section \<open>Checksums\<close>

text \<open>The loop that adds up \<open>n\<close> big-endian 16-bit words in a \<^verbatim>\<open>uint32_t\<close>.\<close>

definition be16_words :: "bytes \<Rightarrow> nat \<Rightarrow> u32 \<Rightarrow> u32" where
  "be16_words p n t = fold (\<lambda>i t. t + ucast (badvpn_read_be16 (drop (2 * i) p))) [0..<n] t"

text \<open>\<^verbatim>\<open>while (t >> 16) t = (t & 0xFFFF) + (t >> 16);\<close>\<close>

function fold_carry :: "u32 \<Rightarrow> u32" where
  "fold_carry t = (if drop_bit 16 t \<noteq> 0 then fold_carry ((t AND 0xFFFF) + drop_bit 16 t) else t)"
  by auto

lemma unat_fold_step: "unat ((t AND 0xFFFF) + drop_bit 16 (t :: u32)) = unat t mod 65536 + unat t div 65536"
proof -
  have a: "unat (t AND 0xFFFF) = unat t mod 65536"
  proof -
    have "t AND 0xFFFF = t AND mask 16" by (simp add: mask_eq_exp_minus_1)
    then have "unat (t AND 0xFFFF) = take_bit 16 (unat t)"
      by (simp only: unsigned_take_bit_eq flip: take_bit_eq_mask)
    then show ?thesis by (simp add: take_bit_eq_mod)
  qed
  have b: "unat (drop_bit 16 t) = unat t div 65536"
    by (simp add: drop_bit_eq_div unat_div)
  have "unat t < 2 ^ 32" by (rule order.strict_trans2 [OF unsigned_less]) simp
  then have "unat t div 65536 < 65536" by (simp add: less_mult_imp_div_less)
  moreover have "unat t mod 65536 < 65536" by simp
  ultimately have "unat t mod 65536 + unat t div 65536 < 131072" by linarith
  then show ?thesis using a b unat_add_lem [of "t AND 0xFFFF" "drop_bit 16 t"] by simp
qed

lemma drop_bit_16_iff: "drop_bit 16 (t :: u32) \<noteq> 0 \<longleftrightarrow> 65536 \<le> unat t"
proof -
  have "drop_bit 16 t = 0 \<longleftrightarrow> unat t div 65536 = 0"
    by (simp add: unat_eq_zero [symmetric] drop_bit_eq_div unat_div)
  then show ?thesis by (auto simp: div_eq_0_iff)
qed

termination fold_carry
proof (relation "measure unat")
  fix t :: u32
  assume "drop_bit 16 t \<noteq> 0"
  then have "65536 \<le> unat t" by (simp add: drop_bit_16_iff)
  then have "unat t mod 65536 + unat t div 65536 < unat t"
    using div_mult_mod_eq [of "unat t" 65536] by (simp add: le_div_geq)
  then show "((t AND 0xFFFF) + drop_bit 16 t, t) \<in> measure unat" by (simp only: in_measure unat_fold_step)
qed simp

declare fold_carry.simps [simp del]

definition ipv4_checksum :: "ipv4_header \<Rightarrow> bytes \<Rightarrow> u16" where
  "ipv4_checksum header extra =
     (let t = be16_words (ipv4_header_bytes header) (20 div 2) 0;
          t = be16_words extra (length extra div 2) t
      in hton16 (ucast (NOT (fold_carry t))))"

definition udp_checksum_summer :: "bytes \<Rightarrow> u32" where
  "udp_checksum_summer data = be16_words data (length data div 2) 0"

text \<open>The last steps of both UDP checksums, on the 32-bit accumulator.\<close>

definition udp_checksum_finish :: "u32 \<Rightarrow> u16" where
  "udp_checksum_finish t =
     (let t = NOT (fold_carry t);
          t = (if t = 0 then 0xFFFF else t)
      in hton16 (ucast t))"

definition udp_checksum_payload :: "bytes \<Rightarrow> u32 \<Rightarrow> u32" where
  "udp_checksum_payload payload t =
     (if length payload mod 2 = 0 then t + udp_checksum_summer payload
      else t + udp_checksum_summer (take (length payload - 1) payload) +
           udp_checksum_summer (mem16 (hton16 (push_bit 8 (ucast (payload ! (length payload - 1)))))))"

definition udp_checksum :: "udp_header \<Rightarrow> bytes \<Rightarrow> u32 \<Rightarrow> u32 \<Rightarrow> u16" where
  "udp_checksum header payload source_addr dest_addr =
     (let t = 0;
          t = t + udp_checksum_summer (mem32 source_addr);
          t = t + udp_checksum_summer (mem32 dest_addr);
          t = t + udp_checksum_summer (mem16 (hton16 (ucast IPV4_PROTOCOL_UDP)));
          t = t + udp_checksum_summer (mem16 (hton16 (word_of_int (UDP_HEADER_SIZE + int (length payload)))));
          t = t + udp_checksum_summer (udp_header_bytes header);
          t = udp_checksum_payload payload t
      in udp_checksum_finish t)"

definition udp_ip6_checksum :: "udp_header \<Rightarrow> bytes \<Rightarrow> bytes \<Rightarrow> bytes \<Rightarrow> u16" where
  "udp_ip6_checksum header payload source_addr dest_addr =
     (let t = 0;
          t = t + udp_checksum_summer (take 16 source_addr);
          t = t + udp_checksum_summer (take 16 dest_addr);
          t = t + udp_checksum_summer (mem32 (hton32 (word_of_int (UDP_HEADER_SIZE + int (length payload)))));
          t = t + udp_checksum_summer (mem32 (hton32 (ucast IPV6_NEXT_UDP)));
          t = t + udp_checksum_summer (udp_header_bytes header);
          t = udp_checksum_payload payload t
      in udp_checksum_finish t)"

section \<open>Parsers\<close>

definition ipv4_check :: "bytes \<Rightarrow> (ipv4_header \<times> int \<times> int) option" where
  "ipv4_check data =
     (let data_len = int (length data) in
      if data_len < IPV4_HEADER_SIZE then None
      else let out_header = ipv4_header_of data in
      if IPV4_GET_VERSION out_header \<noteq> 4 then None
      else let header_len = IPV4_GET_IHL out_header * 4 in
      if header_len < IPV4_HEADER_SIZE then None
      else if header_len > data_len then None
      else let total_length = uint (ntoh16 (ip4_total_length out_header)) in
      if total_length < header_len then None
      else if total_length > data_len then None
      else let checksum_in_packet = ip4_checksum out_header;
               checksum_computed = ipv4_checksum (out_header\<lparr>ip4_checksum := hton16 0\<rparr>)
                                     (mem_read 20 (nat (header_len - IPV4_HEADER_SIZE)) data) in
      if checksum_in_packet \<noteq> checksum_computed then None
      else Some (out_header, header_len, total_length - header_len))"

definition udp_check :: "bytes \<Rightarrow> (udp_header \<times> int \<times> int) option" where
  "udp_check data =
     (let data_len = int (length data) in
      if data_len < UDP_HEADER_SIZE then None
      else let out_header = udp_header_of data;
               data_len = data_len - UDP_HEADER_SIZE;
               len = uint (ntoh16 (udp_length out_header)) in
      if len < UDP_HEADER_SIZE then None
      else if len > UDP_HEADER_SIZE + data_len then None
      else Some (out_header, UDP_HEADER_SIZE, len - UDP_HEADER_SIZE))"

definition ipv6_check :: "bytes \<Rightarrow> (ipv6_header \<times> int \<times> int) option" where
  "ipv6_check data =
     (let data_len = int (length data) in
      if data_len < IPV6_HEADER_SIZE then None
      else let out_header = ipv6_header_of data in
      if drop_bit 4 (ntoh8 (ip6_version4_tc4 out_header)) \<noteq> 6 then None
      else let payload_length = uint (ntoh16 (ip6_payload_length out_header)) in
      if payload_length > data_len - IPV6_HEADER_SIZE then None
      else Some (out_header, IPV6_HEADER_SIZE, payload_length))"

section \<open>The carry-folding loop\<close>

text \<open>The one's complement residue: 0 stays 0, anything else is taken into 1 to 65535.\<close>

definition ones_residue :: "nat \<Rightarrow> nat" where
  "ones_residue n = (if n = 0 then 0 else (n - 1) mod 65535 + 1)"

lemma ones_residue_fold:
  assumes "65536 \<le> n"
  shows "ones_residue (n mod 65536 + n div 65536) = ones_residue n"
proof -
  define q r where "q = n div 65536" and "r = n mod 65536"
  have n: "n = 65536 * q + r" by (simp add: q_def r_def)
  have q: "1 \<le> q" using assms by (simp add: q_def le_div_geq)
  have "n - 1 = (r + q - 1) + 65535 * q" using n q by simp
  then have "(n - 1) mod 65535 = (r + q - 1) mod 65535" by simp
  moreover have "n \<noteq> 0" "r + q \<noteq> 0" using q n by simp_all
  ultimately have "ones_residue (r + q) = ones_residue n" by (simp add: ones_residue_def)
  then show ?thesis unfolding q_def r_def .
qed

lemma unat_fold_carry: "unat (fold_carry t) = ones_residue (unat t)"
proof (induction t rule: fold_carry.induct)
  case (1 t)
  show ?case
  proof (cases "drop_bit 16 t \<noteq> 0")
    case True
    then show ?thesis
      using 1 ones_residue_fold [of "unat t"]
      by (subst fold_carry.simps) (simp add: unat_fold_step drop_bit_16_iff)
  next
    case False
    then have lt: "unat t < 65536" using drop_bit_16_iff [of t] by linarith
    have "fold_carry t = t" using False by (subst fold_carry.simps) simp
    moreover have "ones_residue (unat t) = unat t"
      using lt by (cases "unat t") (auto simp: ones_residue_def)
    ultimately show ?thesis by simp
  qed
qed

lemma ones_residue_bounds: "ones_residue n \<le> 65535" "ones_residue n = 0 \<longleftrightarrow> n = 0"
  by (simp_all add: ones_residue_def Suc_le_eq)

lemma ones_residue_cong: "ones_residue n mod 65535 = n mod 65535"
proof (cases n)
  case (Suc k)
  then show ?thesis by (simp add: ones_residue_def mod_Suc_eq)
qed (simp add: ones_residue_def)

section \<open>Sums of 16-bit words\<close>

text \<open>The sum of the big-endian 16-bit words of a byte string, an odd last byte padded with 0.\<close>

fun wsum :: "bytes \<Rightarrow> nat" where
  "wsum (a # b # r) = 256 * unat a + unat b + wsum r"
| "wsum [a] = 256 * unat a"
| "wsum [] = 0"

lemma wsum_append: "even (length xs) \<Longrightarrow> wsum (xs @ ys) = wsum xs + wsum ys"
  by (induction xs rule: wsum.induct) simp_all

lemma unat_u8_bound: "unat (a :: u8) \<le> 255"
proof -
  have "unat a < 2 ^ 8" by (rule order.strict_trans2 [OF unsigned_less]) simp
  then show ?thesis by simp
qed

lemma wsum_bound: "even (length xs) \<Longrightarrow> wsum xs \<le> 65535 * (length xs div 2)"
proof (induction xs rule: wsum.induct)
  case (1 a b r)
  then show ?case using unat_u8_bound [of a] unat_u8_bound [of b] by simp
qed simp_all

lemma unat_ucast_u8_u16: "unat (ucast (a :: u8) :: u16) = unat a"
  using unat_u8_bound [of a] by (simp add: unsigned_ucast_eq take_bit_nat_eq_self)

lemma unat_read_be16: "unat (badvpn_read_be16 (a # b # r)) = 256 * unat a + unat b"
proof -
  have "badvpn_read_be16 (a # b # r) = push_bit 8 (ucast a) + ucast b"
    unfolding badvpn_read_be16_def
    by (subst disjunctive_add) (auto simp: bit_simps)
  also have "unat \<dots> = (unat (push_bit 8 (ucast a) :: u16) + unat (ucast b :: u16)) mod 65536"
    by (simp add: unat_word_ariths)
  also have "unat (push_bit 8 (ucast a) :: u16) = 256 * unat a"
    using unat_u8_bound [of a]
    by (simp add: push_bit_eq_mult unat_word_ariths unat_ucast_u8_u16 mult.commute)
  also have "unat (ucast b :: u16) = unat b" by (rule unat_ucast_u8_u16)
  finally show ?thesis using unat_u8_bound [of a] unat_u8_bound [of b] by simp
qed

lemma be16_words_simps:
  "be16_words p 0 t = t"
  "be16_words (a # b # r) (Suc n) t = be16_words r n (t + ucast (badvpn_read_be16 (a # b # r)))"
proof -
  have "[0..<Suc n] = 0 # map Suc [0..<n]" by (simp add: map_Suc_upt upt_conv_Cons)
  then show "be16_words (a # b # r) (Suc n) t = be16_words r n (t + ucast (badvpn_read_be16 (a # b # r)))"
    by (simp add: be16_words_def fold_map comp_def)
qed (simp add: be16_words_def)

lemma be16_words_wsum:
  "even (length p) \<Longrightarrow> be16_words p (length p div 2) t = t + of_nat (wsum p)"
proof (induction p arbitrary: t rule: wsum.induct)
  case (1 a b r)
  have "(ucast (badvpn_read_be16 (a # b # r)) :: u32) = of_nat (256 * unat a + unat b)"
    unfolding unat_read_be16 [symmetric, of a b r] by simp
  with 1 show ?case by (simp add: be16_words_simps algebra_simps)
qed (simp_all add: be16_words_simps)

lemma wsum_mem16 [simp]: "wsum (mem16 x) = unat (ntoh16 x)"
proof -
  obtain a b where "mem16 x = [a, b]" by (simp add: mem16_def)
  then show ?thesis using unat_read_be16 [of a b "[]"] read_be16_mem16 [of x] by simp
qed

lemma ntoh16_0 [simp]: "ntoh16 0 = 0" "hton16 0 = 0"
  by (simp_all add: ntoh16_def hton16_def badvpn_reverse16_def mem16_def rd16_def)

text \<open>The complement of the folded sum.\<close>

lemma unat_not_fold_carry:
  "unat (ucast (NOT (fold_carry t)) :: u16) = 65535 - ones_residue (unat t)"
proof -
  let ?w = "fold_carry t"
  have lt: "unat ?w \<le> 65535" using ones_residue_bounds(1) by (simp add: unat_fold_carry)
  have "(ucast (NOT ?w) :: u16) = NOT (ucast ?w)"
    by (rule bit_word_eqI) (auto simp: bit_simps)
  also have "\<dots> = - 1 - ucast ?w" by (simp add: not_eq_complement)
  finally have "unat (ucast (NOT ?w) :: u16) = unat (- 1 - ucast ?w :: u16)" by simp
  also have "\<dots> = unat (- 1 :: u16) - unat (ucast ?w :: u16)"
    by (rule unat_sub) simp
  also have "unat (- 1 :: u16) = 65535" by (simp add: unsigned_minus_1_eq_mask mask_eq_exp_minus_1)
  also have "unat (ucast ?w :: u16) = unat ?w"
    using lt by (simp add: unsigned_ucast_eq take_bit_nat_eq_self)
  finally show ?thesis by (simp add: unat_fold_carry)
qed

text \<open>Adding the complement of the residue makes the one's complement sum all ones.\<close>

lemma ones_residue_complement: "ones_residue (n + (65535 - ones_residue n)) = 65535"
proof (cases "n = 0")
  case True
  then show ?thesis by (simp add: ones_residue_def)
next
  case False
  then obtain k where k: "n = Suc k" by (cases n) auto
  define q r where "q = k div 65535" and "r = k mod 65535"
  have "k = 65535 * q + r" "r < 65535" by (simp_all add: q_def r_def)
  then have "n + (65535 - ones_residue n) = Suc (65534 + 65535 * q)"
    unfolding k ones_residue_def by (simp flip: r_def)
  then show ?thesis by (simp add: ones_residue_def)
qed

section \<open>Header layout\<close>

lemma length_header_bytes [simp]:
  "length (ipv4_header_bytes h) = 20" "length (udp_header_bytes u) = 8"
  "length (ip6_source_address g) = 16 \<Longrightarrow> length (ip6_destination_address g) = 16 \<Longrightarrow>
     length (ipv6_header_bytes g) = 40"
  by (simp_all add: ipv4_header_bytes_def udp_header_bytes_def ipv6_header_bytes_def)

lemma ipv4_header_of_bytes: "ipv4_header_of (ipv4_header_bytes h @ r) = h"
  by (simp add: ipv4_header_of_def ipv4_header_bytes_def nth_append)

lemma udp_header_of_bytes: "udp_header_of (udp_header_bytes h @ r) = h"
  by (simp add: udp_header_of_def udp_header_bytes_def)

lemma ipv6_header_of_bytes:
  "length (ip6_source_address h) = 16 \<Longrightarrow> length (ip6_destination_address h) = 16 \<Longrightarrow>
   ipv6_header_of (ipv6_header_bytes h @ r) = h"
  by (simp add: ipv6_header_of_def ipv6_header_bytes_def nth_append)

lemma mem16_rd16_take: "2 \<le> length d \<Longrightarrow> mem16 (rd16 d) = take 2 d"
proof -
  assume l: "2 \<le> length d"
  then have "rd16 d = rd16 (take 2 d)" by (simp add: rd16_def)
  then show ?thesis using l by (simp add: mem16_rd16)
qed

lemma mem32_rd32_take: "4 \<le> length d \<Longrightarrow> mem32 (rd32 d) = take 4 d"
proof -
  assume l: "4 \<le> length d"
  then have "rd32 d = rd32 (take 4 d)" by (simp add: rd32_def)
  then show ?thesis using l by (simp add: mem32_rd32)
qed

lemma take_drop_append: "i \<le> j \<Longrightarrow> take i d @ take (j - i) (drop i d) = take j d"
  by (metis le_add_diff_inverse take_add)

lemma ipv4_header_bytes_of: "20 \<le> length d \<Longrightarrow> ipv4_header_bytes (ipv4_header_of d) = take 20 d"
  by (rule nth_equalityI)
     (auto simp: ipv4_header_bytes_def ipv4_header_of_def mem16_rd16_take mem32_rd32_take nth_append nth_Cons' less_Suc_eq numeral_eq_Suc)

lemma udp_header_bytes_of: "8 \<le> length d \<Longrightarrow> udp_header_bytes (udp_header_of d) = take 8 d"
  using take_drop_append [of 2 4 d] take_drop_append [of 4 6 d] take_drop_append [of 6 8 d]
  by (simp add: udp_header_bytes_def udp_header_of_def mem16_rd16_take append_assoc [symmetric] del: append_assoc)

section \<open>Checksums verify\<close>

lemma wsum_ipv4_checksum_field:
  "wsum (ipv4_header_bytes (h\<lparr>ip4_checksum := c\<rparr>)) =
   wsum (ipv4_header_bytes (h\<lparr>ip4_checksum := 0\<rparr>)) + unat (ntoh16 c)"
  by (simp add: ipv4_header_bytes_def wsum_append)

lemma unat_of_nat_u32: "n < 2 ^ 32 \<Longrightarrow> unat (of_nat n :: u32) = n"
  by (simp add: unsigned_of_nat take_bit_nat_eq_self)

lemma ipv4_checksum_residue:
  assumes "even (length extra)" "length extra \<le> 65535"
  shows "unat (ntoh16 (ipv4_checksum h extra)) =
         65535 - ones_residue (wsum (ipv4_header_bytes h) + wsum extra)"
proof -
  have "wsum (ipv4_header_bytes h) \<le> 65535 * 10" using wsum_bound [of "ipv4_header_bytes h"] by simp
  moreover have "wsum extra \<le> 65535 * 32767"
  proof -
    have "length extra div 2 \<le> 32767" using assms(2) by simp
    then show ?thesis using wsum_bound [OF assms(1)] by linarith
  qed
  ultimately have "wsum (ipv4_header_bytes h) + wsum extra < 2 ^ 32" by simp
  then have "unat (of_nat (wsum (ipv4_header_bytes h)) + of_nat (wsum extra) :: u32) =
      wsum (ipv4_header_bytes h) + wsum extra"
    using unat_of_nat_u32 by (simp flip: of_nat_add)
  moreover have "be16_words (ipv4_header_bytes h) (20 div 2) 0 = of_nat (wsum (ipv4_header_bytes h))"
    using be16_words_wsum [of "ipv4_header_bytes h" 0] by simp
  ultimately show ?thesis
    unfolding ipv4_checksum_def Let_def be16_words_wsum [OF assms(1)]
    by (simp add: unat_not_fold_carry)
qed

lemma ipv4_checksum_verifies:
  assumes "even (length extra)" "length extra \<le> 65535"
  shows "ones_residue (wsum (ipv4_header_bytes
           (h\<lparr>ip4_checksum := ipv4_checksum (h\<lparr>ip4_checksum := 0\<rparr>) extra\<rparr>) @ extra)) = 65535"
proof -
  let ?S = "wsum (ipv4_header_bytes (h\<lparr>ip4_checksum := 0\<rparr>)) + wsum extra"
  have "wsum (ipv4_header_bytes (h\<lparr>ip4_checksum := ipv4_checksum (h\<lparr>ip4_checksum := 0\<rparr>) extra\<rparr>) @ extra) =
    ?S + (65535 - ones_residue ?S)"
    using ipv4_checksum_residue [OF assms, of "h\<lparr>ip4_checksum := 0\<rparr>"]
      wsum_ipv4_checksum_field [where h = h and c = "ipv4_checksum (h\<lparr>ip4_checksum := 0\<rparr>) extra"]
    by (simp add: wsum_append)
  then show ?thesis by (simp only: ones_residue_complement)
qed

text \<open>The bytes covered by the UDP checksum over IPv4, the pseudo-header first.\<close>

definition udp_pseudo4 :: "u32 \<Rightarrow> u32 \<Rightarrow> int \<Rightarrow> bytes" where
  "udp_pseudo4 src dst len = mem32 src @ mem32 dst @ badvpn_write_be16 17 @ badvpn_write_be16 (word_of_int len)"

definition udp_pseudo6 :: "bytes \<Rightarrow> bytes \<Rightarrow> int \<Rightarrow> bytes" where
  "udp_pseudo6 src dst len = take 16 src @ take 16 dst @ badvpn_write_be32 (word_of_int len) @ badvpn_write_be32 17"

lemma summer_wsum: "even (length p) \<Longrightarrow> udp_checksum_summer p = of_nat (wsum p)"
  by (simp add: udp_checksum_summer_def be16_words_wsum)

lemma udp_checksum_payload_wsum: "udp_checksum_payload payload t = t + of_nat (wsum payload)"
proof (cases "even (length payload)")
  case True
  then show ?thesis by (simp add: udp_checksum_payload_def summer_wsum)
next
  case False
  then have ne: "payload \<noteq> []" by auto
  define xs a where "xs = butlast payload" and "a = last payload"
  have p: "payload = xs @ [a]" using ne by (simp add: xs_def a_def)
  have ev: "even (length xs)" using False p by simp
  have "(push_bit 8 (ucast a) :: u16) = badvpn_read_be16 [a, 0]"
    by (simp add: badvpn_read_be16_def)
  then have "unat (push_bit 8 (ucast a) :: u16) = 256 * unat a"
    using unat_read_be16 [of a 0 "[]"] by simp
  then have "udp_checksum_summer (mem16 (hton16 (push_bit 8 (ucast a)))) = of_nat (256 * unat a)"
    by (simp add: summer_wsum)
  moreover have "udp_checksum_payload (xs @ [a]) t =
      t + udp_checksum_summer xs + udp_checksum_summer (mem16 (hton16 (push_bit 8 (ucast a))))"
    using ev by (simp add: udp_checksum_payload_def mod_2_eq_odd)
  ultimately show ?thesis using ev unfolding p by (simp add: summer_wsum wsum_append)
qed

lemma length_write_be [simp]: "length (badvpn_write_be16 x) = 2" "length (badvpn_write_be32 y) = 4"
  by (simp_all add: badvpn_write_be16_def badvpn_write_be32_def)

lemma udp_checksum_sum:
  "udp_checksum h payload src dst =
   udp_checksum_finish (of_nat (wsum (udp_pseudo4 src dst (8 + int (length payload)) @ udp_header_bytes h @ payload)))"
proof -
  have "ucast IPV4_PROTOCOL_UDP = (17 :: u16)" by (simp add: IPV4_PROTOCOL_UDP_def)
  then show ?thesis
    by (simp add: udp_checksum_def Let_def summer_wsum udp_checksum_payload_wsum udp_pseudo4_def wsum_append
        mem16_hton16 add.assoc)
qed

lemma udp_ip6_checksum_sum:
  assumes "length src = 16" "length dst = 16"
  shows "udp_ip6_checksum h payload src dst =
   udp_checksum_finish (of_nat (wsum (udp_pseudo6 src dst (8 + int (length payload)) @ udp_header_bytes h @ payload)))"
proof -
  have "ucast IPV6_NEXT_UDP = (17 :: u32)" by (simp add: IPV6_NEXT_UDP_def)
  then show ?thesis using assms
    by (simp add: udp_ip6_checksum_def Let_def summer_wsum udp_checksum_payload_wsum udp_pseudo6_def wsum_append
        mem32_hton32 add.assoc)
qed

text \<open>
  The accumulator after folding is below 65536, so its 32-bit complement is never 0 and the
  substitution of a zero checksum never happens.
\<close>

lemma udp_checksum_finish_eq: "udp_checksum_finish t = hton16 (ucast (NOT (fold_carry t)))"
proof -
  have "NOT (fold_carry t) \<noteq> 0"
  proof
    assume "NOT (fold_carry t) = 0"
    then have "fold_carry t = - 1" by (metis bit.double_compl bit.compl_zero)
    then have "unat (fold_carry t) = 4294967295" by (simp add: unsigned_minus_1_eq_mask mask_eq_exp_minus_1)
    then show False using ones_residue_bounds(1) [of "unat t"] by (simp add: unat_fold_carry)
  qed
  then show ?thesis by (simp add: udp_checksum_finish_def)
qed

lemma wsum_bound_any: "wsum xs \<le> 65535 * ((length xs + 1) div 2)"
proof (induction xs rule: wsum.induct)
  case (1 a b r)
  then show ?case using unat_u8_bound [of a] unat_u8_bound [of b] by simp
next
  case (2 a)
  then show ?case using unat_u8_bound [of a] by simp
qed simp

lemma udp_finish_verifies:
  assumes "n < 2 ^ 32"
  shows "ones_residue (n + unat (ntoh16 (udp_checksum_finish (of_nat n)))) = 65535"
  using assms ones_residue_complement [of n]
  by (simp add: udp_checksum_finish_eq unat_not_fold_carry unat_of_nat_u32)

lemma wsum_udp_checksum_field:
  "wsum (udp_header_bytes (h\<lparr>udp_checksum_field := c\<rparr>)) =
   wsum (udp_header_bytes (h\<lparr>udp_checksum_field := 0\<rparr>)) + unat (ntoh16 c)"
  by (simp add: udp_header_bytes_def wsum_append)

lemma wsum_lt_2p32: "length xs \<le> 131000 \<Longrightarrow> wsum xs < 2 ^ 32"
proof -
  assume "length xs \<le> 131000"
  then have "(length xs + 1) div 2 \<le> 65500" by simp
  then show ?thesis using wsum_bound_any [of xs] by simp
qed

section \<open>What the parsers accept\<close>

lemma ipv4_check_Some:
  assumes "ipv4_check data = Some (h, off, len)"
  shows "20 \<le> length data" "h = ipv4_header_of data" "IPV4_GET_VERSION h = 4"
    "off = IPV4_GET_IHL h * 4" "20 \<le> off" "0 \<le> len" "off + len = uint (ntoh16 (ip4_total_length h))"
    "off + len \<le> int (length data)"
    "ip4_checksum h = ipv4_checksum (h\<lparr>ip4_checksum := 0\<rparr>) (mem_read 20 (nat off - 20) data)"
  using assms by (auto simp: ipv4_check_def Let_def nat_diff_distrib split: if_splits)

lemma udp_check_iff:
  "udp_check data = Some (h, off, len) \<longleftrightarrow>
     8 \<le> length data \<and> h = udp_header_of data \<and> off = 8 \<and> 0 \<le> len \<and>
     8 + len = uint (ntoh16 (udp_length h)) \<and> 8 + len \<le> int (length data)"
  by (auto simp: udp_check_def Let_def)

lemma ipv6_check_iff:
  "ipv6_check data = Some (h, off, len) \<longleftrightarrow>
     40 \<le> length data \<and> h = ipv6_header_of data \<and> drop_bit 4 (ip6_version4_tc4 h) = 6 \<and> off = 40 \<and>
     len = uint (ntoh16 (ip6_payload_length h)) \<and> 40 + len \<le> int (length data)"
  by (auto simp: ipv6_check_def Let_def ntoh8_def hton8_def)

lemma udp_field_verifies:
  assumes "even (length pseudo)" "length pseudo \<le> 40" "length payload \<le> 65527"
  shows "ones_residue (wsum (pseudo @ udp_header_bytes (h\<lparr>udp_checksum_field :=
        udp_checksum_finish (of_nat (wsum (pseudo @ udp_header_bytes (h\<lparr>udp_checksum_field := 0\<rparr>) @ payload)))\<rparr>) @
        payload)) = 65535"
proof -
  let ?n = "wsum (pseudo @ udp_header_bytes (h\<lparr>udp_checksum_field := 0\<rparr>) @ payload)"
  have "?n < 2 ^ 32" using assms by (intro wsum_lt_2p32) simp
  from udp_finish_verifies [OF this] show ?thesis
    using assms(1) wsum_udp_checksum_field [where h = h and c = "udp_checksum_finish (of_nat ?n)"]
    by (simp add: wsum_append algebra_simps)
qed

lemma ipv4_check_bytes:
  assumes "ip4_version4_ihl4 h = IPV4_MAKE_VERSION_IHL IPV4_HEADER_SIZE"
    "ip4_total_length h = hton16 (word_of_int (IPV4_HEADER_SIZE + int (length payload)))"
    "length payload \<le> 65515" "ip4_checksum h = ipv4_checksum (h\<lparr>ip4_checksum := hton16 0\<rparr>) []"
  shows "ipv4_check (ipv4_header_bytes h @ payload @ stray) = Some (h, 20, int (length payload))"
proof -
  have v: "IPV4_GET_VERSION h = 4" "IPV4_GET_IHL h = 5"
    using assms(1) by (simp_all add: IPV4_GET_VERSION_def IPV4_GET_IHL_def IPV4_MAKE_VERSION_IHL_def)
  have t: "uint (ntoh16 (ip4_total_length h)) = 20 + int (length payload)"
    using assms(2,3) by (simp add: word_of_int_inverse)
  show ?thesis
    using v t assms(4) [symmetric] unfolding ipv4_check_def ipv4_header_of_bytes by (simp add: Let_def ipv4_header_of_bytes)
qed

section \<open>Properties\<close>

lemma even_u4_times_4: "even (nat (IPV4_GET_IHL h * 4) - 20)"
proof -
  have "0 \<le> IPV4_GET_IHL h" by (simp add: IPV4_GET_IHL_def)
  then obtain k where "IPV4_GET_IHL h = int k" using nonneg_int_cases by blast
  then have "nat (IPV4_GET_IHL h * 4) - 20 = 2 * (2 * k - 10)" by simp
  then show ?thesis by simp
qed

lemma IPV4_GET_IHL_bound: "IPV4_GET_IHL h \<le> 15"
proof -
  have "uint (ip4_version4_ihl4 h AND 0x0F) \<le> uint (0x0F :: u8)"
    by (simp only: word_le_def [symmetric]) (rule word_and_le1)
  then show ?thesis by (simp add: IPV4_GET_IHL_def)
qed


definition demo_ip4 :: ipv4_header where
  "demo_ip4 =
     (let h = \<lparr>ip4_version4_ihl4 = IPV4_MAKE_VERSION_IHL 20, ip4_ds = 0, ip4_total_length = hton16 22,
               ip4_identification = 0, ip4_flags3_fragmentoffset13 = 0, ip4_ttl = 64, ip4_protocol = 17,
               ip4_checksum = 0, ip4_source_address = 0x0100000A, ip4_destination_address = 0x08080808\<rparr>
      in h\<lparr>ip4_checksum := ipv4_checksum h []\<rparr>)"

lemma demo_ip4_check: "ipv4_check (ipv4_header_bytes demo_ip4 @ [7, 9]) = Some (demo_ip4, 20, 2)"
  by code_simp


text \<open>
  C5: \<^verbatim>\<open>ipv4_check\<close> parses what the IPv4 header writer builds. A header without options
  whose length field covers the payload and whose checksum field is \<^verbatim>\<open>ipv4_checksum\<close> of
  the header with that field cleared is accepted, with exactly that payload, whatever
  bytes follow it.
\<close>

theorem ipv4_check_build:
  assumes "ip4_version4_ihl4 h = IPV4_MAKE_VERSION_IHL IPV4_HEADER_SIZE"
    "ip4_total_length h = hton16 (word_of_int (IPV4_HEADER_SIZE + int (length payload)))"
    "length payload \<le> 65515"
  shows "ipv4_check (ipv4_header_bytes (h\<lparr>ip4_checksum := ipv4_checksum (h\<lparr>ip4_checksum := hton16 0\<rparr>) []\<rparr>)
                       @ payload @ stray) =
         Some (h\<lparr>ip4_checksum := ipv4_checksum (h\<lparr>ip4_checksum := hton16 0\<rparr>) []\<rparr>,
               20, int (length payload))"
  by (rule ipv4_check_bytes) (use assms in simp_all)

theorem ipv4_check_build_witness:
  "ipv4_check (ipv4_header_bytes demo_ip4 @ [7, 9] @ [1, 2, 3]) = Some (demo_ip4, 20, 2)"
proof -
  have "demo_ip4\<lparr>ip4_checksum := ipv4_checksum (demo_ip4\<lparr>ip4_checksum := hton16 0\<rparr>) []\<rparr> = demo_ip4"
    by code_simp
  then show ?thesis
    using ipv4_check_build [of demo_ip4 "[7, 9]" "[1, 2, 3]"] by (simp add: demo_ip4_def Let_def)
qed

text \<open>
  C6: the UDP checksums are the Internet checksum. With the checksum field set to what
  \<^verbatim>\<open>udp_checksum\<close> (\<^verbatim>\<open>udp_ip6_checksum\<close>) returns for the cleared field, the one's
  complement sum over pseudo-header, UDP header and payload is all ones, for payloads of
  even and odd length up to the maximum of a UDP datagram.
\<close>

theorem udp_checksum_verifies:
  assumes "length payload \<le> 65527" "length src6 = 16" "length dst6 = 16"
  shows "ones_residue (wsum (udp_pseudo4 src dst (8 + int (length payload)) @
           udp_header_bytes (h\<lparr>udp_checksum_field := udp_checksum (h\<lparr>udp_checksum_field := 0\<rparr>) payload src dst\<rparr>) @
           payload)) = 65535 \<and>
         ones_residue (wsum (udp_pseudo6 src6 dst6 (8 + int (length payload)) @
           udp_header_bytes (h\<lparr>udp_checksum_field := udp_ip6_checksum (h\<lparr>udp_checksum_field := 0\<rparr>) payload src6 dst6\<rparr>) @
           payload)) = 65535"
proof -
  show ?thesis
    using udp_field_verifies [OF _ _ assms(1), of "udp_pseudo4 src dst (8 + int (length payload))"]
      udp_field_verifies [OF _ _ assms(1), of "udp_pseudo6 src6 dst6 (8 + int (length payload))"] assms(2,3)
    unfolding udp_checksum_sum udp_ip6_checksum_sum [OF assms(2,3)]
    by (simp add: udp_pseudo4_def udp_pseudo6_def)
qed

definition demo_udp :: udp_header where
  "demo_udp = \<lparr>udp_source_port = hton16 53, udp_dest_port = hton16 4000, udp_length = hton16 11,
               udp_checksum_field = 0\<rparr>"

theorem udp_checksum_verifies_witness:
  "ones_residue (wsum (udp_pseudo4 0x08080808 0x0100000A 11 @
     udp_header_bytes (demo_udp\<lparr>udp_checksum_field := udp_checksum (demo_udp\<lparr>udp_checksum_field := 0\<rparr>) [1, 2, 3] 0x08080808 0x0100000A\<rparr>) @
     [1, 2, 3])) = 65535"
  using udp_checksum_verifies [of "[1, 2, 3]" "replicate 16 0" "replicate 16 1" "0x08080808" "0x0100000A" demo_udp]
  by simp


end
