(* ===== verification/PacketProto.thy ===== *)
theory PacketProto
  imports "HOL-Library.Sublist" ByteOrder FlowInterface
begin

text \<open>
  PacketProto, the framing of packets on a byte stream (\<^verbatim>\<open>protocol/packetproto.h\<close>): the
  encoder \<^verbatim>\<open>flow/PacketProtoEncoder.c\<close> and the decoder \<^verbatim>\<open>flow/PacketProtoDecoder.c\<close>. The
  decoder receives stream data into one buffer and hands out packets by pointers into it;
  the model keeps the buffer as bytes and pointers as offsets. The step relation composes
  the decoder's handlers with the jobs of its stream input and packet output, an arbitrary
  stream provider (any segmentation) and an arbitrary packet receiver.

  The lemmas show for every input that the buffer bounds and the interface protocols are
  respected, and for a stream produced by the encoder that the packets come out as they
  went in, whatever the segmentation.
\<close>

section \<open>The format\<close>

text \<open>\<^verbatim>\<open>struct packetproto_header\<close> is one little-endian 16-bit length.\<close>

abbreviation PACKETPROTO_HEADER_SIZE :: int where "PACKETPROTO_HEADER_SIZE \<equiv> 2"
abbreviation PACKETPROTO_MAXPAYLOAD :: int where "PACKETPROTO_MAXPAYLOAD \<equiv> UINT16_MAX"

definition PACKETPROTO_ENCLEN :: "int \<Rightarrow> int" where
  "PACKETPROTO_ENCLEN len = PACKETPROTO_HEADER_SIZE + len"

definition packetproto_header_bytes :: "u16 \<Rightarrow> bytes" where
  "packetproto_header_bytes len = mem16 len"

section \<open>Encoder\<close>

record PacketProtoEncoder =
  ppe_input :: "int PacketRecvInterface"
  ppe_output :: "int PacketRecvInterface"
  ppe_output_packet :: "int option"

definition PacketProtoEncoder_output_handler_recv :: "PacketProtoEncoder \<Rightarrow> int \<Rightarrow> PacketProtoEncoder" where
  "PacketProtoEncoder_output_handler_recv enc data =
     enc\<lparr>ppe_output_packet := Some data,
         ppe_input := PacketRecvInterface_Receiver_Recv (ppe_input enc) (data + PACKETPROTO_HEADER_SIZE)\<rparr>"

text \<open>The memory the output packet lies in is an argument and a result.\<close>

definition PacketProtoEncoder_input_handler_done ::
    "PacketProtoEncoder \<Rightarrow> bytes \<Rightarrow> int \<Rightarrow> PacketProtoEncoder \<times> bytes" where
  "PacketProtoEncoder_input_handler_done enc mem in_len =
     (let mem = mem_write (nat (the (ppe_output_packet enc)))
                  (packetproto_header_bytes (htol16 (word_of_int in_len))) mem
      in (enc\<lparr>ppe_output_packet := None,
              ppe_output := PacketRecvInterface_Done (ppe_output enc) (PACKETPROTO_ENCLEN in_len)\<rparr>, mem))"

definition PacketProtoEncoder_Init :: "int PacketRecvInterface \<Rightarrow> PacketProtoEncoder" where
  "PacketProtoEncoder_Init input =
     (let input = PacketRecvInterface_Receiver_Init input
      in \<lparr>ppe_input = input,
          ppe_output = PacketRecvInterface_Init 0 (PACKETPROTO_ENCLEN (PacketRecvInterface_GetMTU input)),
          ppe_output_packet = None\<rparr>)"

section \<open>Decoder\<close>

record PacketProtoDecoder =
  ppd_input :: "int StreamRecvInterface"
  ppd_output :: "int PacketPassInterface"
  ppd_output_mtu :: int
  ppd_buf_size :: int
  ppd_buf_start :: int
  ppd_buf_used :: int
  ppd_buf :: bytes

text \<open>
  The tail of \<^verbatim>\<open>process_data\<close> after the \<^verbatim>\<open>do\<close> block was left by \<^verbatim>\<open>break\<close>. The second
  result tells whether \<^verbatim>\<open>handler_error\<close> is called.
\<close>

definition PacketProtoDecoder_receive :: "PacketProtoDecoder \<Rightarrow> bool \<Rightarrow> PacketProtoDecoder \<times> bool" where
  "PacketProtoDecoder_receive enc was_error =
     (let enc = (if was_error then enc\<lparr>ppd_buf_start := 0, ppd_buf_used := 0\<rparr>
                 else if ppd_buf_start enc + ppd_buf_used enc = ppd_buf_size enc
                 then enc\<lparr>ppd_buf := mem_write 0 (mem_read (nat (ppd_buf_start enc)) (nat (ppd_buf_used enc)) (ppd_buf enc))
                                       (ppd_buf enc),
                          ppd_buf_start := 0\<rparr>
                 else enc);
          enc = enc\<lparr>ppd_input := StreamRecvInterface_Receiver_Recv (ppd_input enc)
                      (ppd_buf_start enc + ppd_buf_used enc)
                      (ppd_buf_size enc - (ppd_buf_start enc + ppd_buf_used enc))\<rparr>
      in (enc, was_error))"

definition PacketProtoDecoder_process_data :: "PacketProtoDecoder \<Rightarrow> PacketProtoDecoder \<times> bool" where
  "PacketProtoDecoder_process_data enc =
     (let data = ppd_buf_start enc; left = ppd_buf_used enc in
      if left < PACKETPROTO_HEADER_SIZE then PacketProtoDecoder_receive enc False
      else let header_len = rd16 (mem_read (nat data) 2 (ppd_buf enc));
               data = data + PACKETPROTO_HEADER_SIZE;
               left = left - PACKETPROTO_HEADER_SIZE;
               data_len = uint (ltoh16 header_len) in
      if data_len > ppd_output_mtu enc then PacketProtoDecoder_receive enc True
      else if left < data_len then PacketProtoDecoder_receive enc False
      else (enc\<lparr>ppd_buf_start := ppd_buf_start enc + (PACKETPROTO_HEADER_SIZE + data_len),
                ppd_buf_used := ppd_buf_used enc - (PACKETPROTO_HEADER_SIZE + data_len),
                ppd_output := PacketPassInterface_Sender_Send (ppd_output enc) data data_len\<rparr>, False))"

definition PacketProtoDecoder_input_handler_done ::
    "PacketProtoDecoder \<Rightarrow> int \<Rightarrow> PacketProtoDecoder \<times> bool" where
  "PacketProtoDecoder_input_handler_done enc data_len =
     PacketProtoDecoder_process_data (enc\<lparr>ppd_buf_used := ppd_buf_used enc + data_len\<rparr>)"

definition PacketProtoDecoder_output_handler_done :: "PacketProtoDecoder \<Rightarrow> PacketProtoDecoder \<times> bool" where
  "PacketProtoDecoder_output_handler_done enc = PacketProtoDecoder_process_data enc"

definition PacketProtoDecoder_Init ::
    "(int \<Rightarrow> bytes option) \<Rightarrow> int StreamRecvInterface \<Rightarrow> int PacketPassInterface \<Rightarrow> PacketProtoDecoder option" where
  "PacketProtoDecoder_Init malloc input output =
     (let input = StreamRecvInterface_Receiver_Init input;
          output = PacketPassInterface_Sender_Init output;
          output_mtu = bmin_int (PacketPassInterface_GetMTU output) PACKETPROTO_MAXPAYLOAD;
          buf_size = PACKETPROTO_ENCLEN output_mtu
      in case malloc buf_size of
           None \<Rightarrow> None
         | Some buf \<Rightarrow>
             Some \<lparr>ppd_input = StreamRecvInterface_Receiver_Recv input 0 buf_size, ppd_output = output,
                   ppd_output_mtu = output_mtu, ppd_buf_size = buf_size, ppd_buf_start = 0,
                   ppd_buf_used = 0, ppd_buf = buf\<rparr>)"

definition PacketProtoDecoder_Reset :: "PacketProtoDecoder \<Rightarrow> PacketProtoDecoder" where
  "PacketProtoDecoder_Reset enc =
     enc\<lparr>ppd_buf_start := ppd_buf_start enc + ppd_buf_used enc, ppd_buf_used := 0\<rparr>"

section \<open>The decoder between its interfaces\<close>

text \<open>The stream provider stores bytes through its pointer; the packet receiver reads through its own.\<close>

definition ppd_provide :: "PacketProtoDecoder \<Rightarrow> bytes \<Rightarrow> PacketProtoDecoder" where
  "ppd_provide d x =
     d\<lparr>ppd_buf := mem_write (nat (si_job_operation_data (ppd_input d))) x (ppd_buf d),
       ppd_input := StreamRecvInterface_Done (ppd_input d) (int (length x))\<rparr>"

definition ppd_received :: "PacketProtoDecoder \<Rightarrow> bytes" where
  "ppd_received d = mem_read (nat (ppi_job_operation_data (ppd_output d)))
     (nat (ppi_job_operation_len (ppd_output d))) (ppd_buf d)"

text \<open>State: decoder, all stream bytes provided, all packets delivered, number of errors reported.\<close>

type_synonym ppd_state = "PacketProtoDecoder \<times> bytes \<times> bytes list \<times> nat"

inductive ppd_step :: "ppd_state \<Rightarrow> ppd_state \<Rightarrow> bool" where
  ppd_in_operation: "si_job_operation (ppd_input d) \<Longrightarrow>
    ppd_step (d, inp, del, e) (d\<lparr>ppd_input := StreamRecvInterface_job_operation (ppd_input d)\<rparr>, inp, del, e)"
| ppd_in_done: "StreamRecvInterface_Done_pre (ppd_input d) (int (length x)) \<Longrightarrow>
    ppd_step (d, inp, del, e) (ppd_provide d x, inp @ x, del, e)"
| ppd_in_job_done: "si_job_done (ppd_input d) \<Longrightarrow>
    PacketProtoDecoder_input_handler_done (d\<lparr>ppd_input := StreamRecvInterface_job_done (ppd_input d)\<rparr>)
      (si_job_done_len (ppd_input d)) = (d', err) \<Longrightarrow>
    ppd_step (d, inp, del, e) (d', inp, del, e + of_bool err)"
| ppd_out_operation: "ppi_job_operation (ppd_output d) \<Longrightarrow>
    ppd_step (d, inp, del, e) (d\<lparr>ppd_output := PacketPassInterface_job_operation (ppd_output d)\<rparr>, inp, del, e)"
| ppd_out_done: "PacketPassInterface_Done_pre (ppd_output d) \<Longrightarrow>
    ppd_step (d, inp, del, e)
      (d\<lparr>ppd_output := PacketPassInterface_Done (ppd_output d)\<rparr>, inp, del @ [ppd_received d], e)"
| ppd_out_job_done: "ppi_job_done (ppd_output d) \<Longrightarrow>
    PacketProtoDecoder_output_handler_done (d\<lparr>ppd_output := PacketPassInterface_job_done (ppd_output d)\<rparr>) = (d', err) \<Longrightarrow>
    ppd_step (d, inp, del, e) (d', inp, del, e + of_bool err)"

abbreviation ppd_reach :: "ppd_state \<Rightarrow> ppd_state \<Rightarrow> bool" where
  "ppd_reach \<equiv> ppd_step\<^sup>*\<^sup>*"

section \<open>Safety for every input\<close>

definition ppd_geom :: "PacketProtoDecoder \<Rightarrow> bool" where
  "ppd_geom d \<longleftrightarrow>
     int (length (ppd_buf d)) = ppd_buf_size d \<and> ppd_buf_size d = ppd_output_mtu d + 2 \<and>
     0 \<le> ppd_output_mtu d \<and> ppd_output_mtu d \<le> ppi_mtu (ppd_output d) \<and>
     0 \<le> ppd_buf_start d \<and> 0 \<le> ppd_buf_used d \<and> ppd_buf_start d + ppd_buf_used d \<le> ppd_buf_size d \<and>
     si_wf (ppd_input d) \<and> si_handler_done (ppd_input d) \<and>
     ppi_wf (ppd_output d) \<and> ppi_handler_done (ppd_output d)"

definition ppd_receiving :: "PacketProtoDecoder \<Rightarrow> bool" where
  "ppd_receiving d \<longleftrightarrow>
     si_state (ppd_input d) \<noteq> STATE_NONE \<and> ppi_state (ppd_output d) = STATE_NONE \<and>
     si_job_operation_data (ppd_input d) = ppd_buf_start d + ppd_buf_used d \<and>
     si_job_operation_len (ppd_input d) = ppd_buf_size d - (ppd_buf_start d + ppd_buf_used d) \<and>
     0 < si_job_operation_len (ppd_input d) \<and>
     (si_state (ppd_input d) = STATE_DONE_PENDING \<longrightarrow>
        0 < si_job_done_len (ppd_input d) \<and> si_job_done_len (ppd_input d) \<le> si_job_operation_len (ppd_input d))"

definition ppd_sending :: "PacketProtoDecoder \<Rightarrow> bool" where
  "ppd_sending d \<longleftrightarrow>
     si_state (ppd_input d) = STATE_NONE \<and> ppi_state (ppd_output d) \<noteq> STATE_NONE \<and>
     0 \<le> ppi_job_operation_data (ppd_output d) \<and> 0 \<le> ppi_job_operation_len (ppd_output d) \<and>
     ppi_job_operation_len (ppd_output d) \<le> ppd_output_mtu d \<and>
     ppi_job_operation_data (ppd_output d) + ppi_job_operation_len (ppd_output d) \<le> ppd_buf_start d"

definition ppd_idle :: "PacketProtoDecoder \<Rightarrow> bool" where
  "ppd_idle d \<longleftrightarrow> si_state (ppd_input d) = STATE_NONE \<and> ppi_state (ppd_output d) = STATE_NONE"

definition ppd_safe :: "PacketProtoDecoder \<Rightarrow> bool" where
  "ppd_safe d \<longleftrightarrow> ppd_geom d \<and> (ppd_receiving d \<or> ppd_sending d)"

text \<open>The bytes received and not yet parsed, and those stored but not yet announced.\<close>

definition ppd_pending :: "PacketProtoDecoder \<Rightarrow> bytes" where
  "ppd_pending d = mem_read (nat (ppd_buf_start d)) (nat (ppd_buf_used d)) (ppd_buf d)"

definition ppd_inflight :: "PacketProtoDecoder \<Rightarrow> bytes" where
  "ppd_inflight d =
     (if si_state (ppd_input d) = STATE_DONE_PENDING
      then mem_read (nat (si_job_operation_data (ppd_input d))) (nat (si_job_done_len (ppd_input d))) (ppd_buf d)
      else [])"

definition packetproto_encode :: "bytes \<Rightarrow> bytes" where
  "packetproto_encode x = packetproto_header_bytes (htol16 (word_of_int (int (length x)))) @ x"

lemma mem_read_sub:
  assumes "i + n \<le> k"
  shows "mem_read (off + i) n m = take n (drop i (mem_read off k m))"
  using assms by (simp add: mem_read_def drop_take min_def add.commute)

lemma length_pending: "ppd_geom d \<Longrightarrow> int (length (ppd_pending d)) = ppd_buf_used d"
  unfolding ppd_pending_def by (subst length_mem_read) (auto simp: ppd_geom_def)

text \<open>The declared length of the next packet.\<close>

definition ppd_next_len :: "bytes \<Rightarrow> int" where
  "ppd_next_len p = uint (rd16 (take 2 p))"

lemma ppd_header:
  assumes "ppd_geom d" "2 \<le> ppd_buf_used d"
  shows "uint (ltoh16 (rd16 (mem_read (nat (ppd_buf_start d)) 2 (ppd_buf d)))) = ppd_next_len (ppd_pending d)"
  using assms mem_read_sub [of 0 2 "nat (ppd_buf_used d)" "nat (ppd_buf_start d)" "ppd_buf d"]
  by (simp add: ppd_next_len_def ppd_pending_def ltoh16_def htol16_def)

lemma ppd_next_len_range: "0 \<le> ppd_next_len p" "ppd_next_len p \<le> 65535"
proof -
  have "uint (rd16 (take 2 p)) < 2 ^ 16" by (rule order.strict_trans2 [OF unsigned_less]) simp
  then show "0 \<le> ppd_next_len p" "ppd_next_len p \<le> 65535" by (simp_all add: ppd_next_len_def)
qed

lemma packetproto_encode_next:
  assumes "length x \<le> 65535"
  shows "ppd_next_len (packetproto_encode x @ r) = int (length x)"
  using assms
  by (simp add: packetproto_encode_def packetproto_header_bytes_def ppd_next_len_def htol16_def word_of_int_inverse)

lemma length_packetproto_encode [simp]: "length (packetproto_encode x) = 2 + length x"
  by (simp add: packetproto_encode_def packetproto_header_bytes_def)

section \<open>One round of process\_data\<close>

lemma ppd_receive:
  assumes g: "ppd_geom d" and i: "ppd_idle d"
    and r: "PacketProtoDecoder_receive d err = (d', err')"
    and room: "err \<or> ppd_buf_used d < ppd_buf_size d"
  shows "err' = err" "ppd_geom d'" "ppd_receiving d'" "ppd_inflight d' = []"
    "ppd_pending d' = (if err then [] else ppd_pending d)"
proof -
  have d': "d' = fst (PacketProtoDecoder_receive d err)" and "err' = err"
    using r by (auto simp: PacketProtoDecoder_receive_def Let_def)
  then show "err' = err" by simp
  have lp: "length (ppd_pending d) = nat (ppd_buf_used d)" using length_pending [OF g] by simp
  have len: "length (mem_write 0 (ppd_pending d) (ppd_buf d)) = length (ppd_buf d)"
    using g lp by (intro length_mem_write) (auto simp: ppd_geom_def)
  have rd: "mem_read 0 (nat (ppd_buf_used d)) (mem_write 0 (ppd_pending d) (ppd_buf d)) = ppd_pending d"
    using g lp by (intro mem_read_write_same) (auto simp: ppd_geom_def)
  show "ppd_geom d'" "ppd_receiving d'" "ppd_inflight d' = []"
    using g i room len unfolding d'
    by (auto simp: PacketProtoDecoder_receive_def Let_def ppd_geom_def ppd_receiving_def ppd_idle_def
        ppd_inflight_def si_wf_def sri_defs ppd_pending_def)
  show "ppd_pending d' = (if err then [] else ppd_pending d)"
    using rd unfolding d' by (auto simp: PacketProtoDecoder_receive_def Let_def ppd_pending_def)
qed

lemma process_data_cases:
  assumes g: "ppd_geom d" and i: "ppd_idle d"
    and r: "PacketProtoDecoder_process_data d = (d', err)"
  defines "p \<equiv> ppd_pending d"
  obtains (wait) "\<not> err" "ppd_geom d'" "ppd_receiving d'" "ppd_inflight d' = []" "ppd_pending d' = p"
      "length p < 2 \<or> int (length p) < 2 + ppd_next_len p"
  | (error) "err" "ppd_geom d'" "ppd_receiving d'" "ppd_inflight d' = []" "ppd_pending d' = []"
      "2 \<le> length p" "ppd_next_len p > ppd_output_mtu d"
  | (packet) "\<not> err" "ppd_geom d'" "ppd_sending d'" "ppi_state (ppd_output d') = STATE_OPERATION_PENDING"
      "2 + ppd_next_len p \<le> int (length p)" "ppd_received d' = take (nat (ppd_next_len p)) (drop 2 p)"
      "ppd_pending d' = drop (nat (2 + ppd_next_len p)) p" "ppd_inflight d' = []"
proof -
  have lp: "int (length p) = ppd_buf_used d" using length_pending [OF g] by (simp add: p_def)
  have sz: "2 \<le> ppd_buf_size d" using g by (simp add: ppd_geom_def)
  show thesis
  proof (cases "ppd_buf_used d < 2")
    case True
    then have "PacketProtoDecoder_receive d False = (d', err)"
      using r by (simp add: PacketProtoDecoder_process_data_def Let_def)
    from ppd_receive [OF g i this] True sz lp show thesis by (intro wait) (auto simp: p_def)
  next
    case False
    let ?n = "ppd_next_len p"
    have hd: "uint (ltoh16 (rd16 (mem_read (nat (ppd_buf_start d)) 2 (ppd_buf d)))) = ?n"
      using ppd_header [OF g] False by (simp add: p_def)
    note r' = r [unfolded PacketProtoDecoder_process_data_def Let_def hd]
    show thesis
    proof (cases "?n > ppd_output_mtu d")
      case True
      then have "PacketProtoDecoder_receive d True = (d', err)" using r' False by simp
      from ppd_receive [OF g i this] True False lp show thesis by (intro error) auto
    next
      case le: False
      show thesis
      proof (cases "ppd_buf_used d - 2 < ?n")
        case True
        then have rc: "PacketProtoDecoder_receive d False = (d', err)" using r' False le by simp
        have "ppd_buf_used d < ppd_buf_size d" using True le g by (simp add: ppd_geom_def)
        with ppd_receive [OF g i rc] True lp show thesis by (intro wait) (auto simp: p_def)
      next
        case fits: False
        have n0: "0 \<le> ?n" by (rule ppd_next_len_range)
        have d': "d' = d\<lparr>ppd_buf_start := ppd_buf_start d + (2 + ?n), ppd_buf_used := ppd_buf_used d - (2 + ?n),
            ppd_output := PacketPassInterface_Sender_Send (ppd_output d) (ppd_buf_start d + 2) ?n\<rparr>"
          and err: "\<not> err" using r' False le fits by auto
        obtain s u n where nats: "ppd_buf_start d = int s" "ppd_buf_used d = int u" "?n = int n"
          using g n0 nonneg_int_cases unfolding ppd_geom_def by metis
        have nn: "2 + n \<le> u" using fits nats by linarith
        have pm: "p = mem_read s u (ppd_buf d)" using nats by (simp add: p_def ppd_pending_def)
        have s2: "nat (int s + 2) = s + 2" "nat (int s + (2 + int n)) = s + (2 + n)" "nat (int u - (2 + int n)) = u - (2 + n)"
          by linarith+
        show thesis
        proof (rule packet)
          show "ppd_geom d'" "ppd_sending d'" "ppi_state (ppd_output d') = STATE_OPERATION_PENDING" "ppd_inflight d' = []"
            using g i le fits n0 unfolding d'
            by (auto simp: ppd_geom_def ppd_sending_def ppd_idle_def ppi_wf_def ppi_defs ppd_inflight_def)
          show "2 + ?n \<le> int (length p)" using fits lp by simp
          have "mem_read (s + 2) n (ppd_buf d) = take n (drop 2 p)"
            using mem_read_sub [of 2 n u s "ppd_buf d"] nn pm by simp
          then show "ppd_received d' = take (nat ?n) (drop 2 p)"
            using s2(1) unfolding d' nats by (simp add: ppd_received_def ppi_defs nats)
          have "mem_read (s + (2 + n)) (u - (2 + n)) (ppd_buf d) = drop (2 + n) p"
            using nn pm by (simp add: mem_read_def drop_take add.commute)
          moreover have "nat (2 + ?n) = 2 + n" using nats(3) by simp
          ultimately show "ppd_pending d' = drop (nat (2 + ?n)) p"
            using s2(2,3) unfolding d' by (simp add: ppd_pending_def nats)
        qed (rule err)
      qed
    qed
  qed
qed

text \<open>A completed receive, as the handler finds the buffer.\<close>

lemma ppd_announce:
  assumes g: "ppd_geom d" and r: "ppd_receiving d" and j: "si_state (ppd_input d) = STATE_DONE_PENDING"
  defines "d1 \<equiv> d\<lparr>ppd_input := StreamRecvInterface_job_done (ppd_input d),
                    ppd_buf_used := ppd_buf_used d + si_job_done_len (ppd_input d)\<rparr>"
  shows "ppd_geom d1" "ppd_idle d1" "ppd_pending d1 = ppd_pending d @ ppd_inflight d"
proof -
  show "ppd_geom d1" "ppd_idle d1"
    using g r j by (auto simp: d1_def ppd_geom_def ppd_receiving_def ppd_idle_def si_wf_def sri_defs)
  obtain s u n where nats: "ppd_buf_start d = int s" "ppd_buf_used d = int u" "si_job_done_len (ppd_input d) = int n"
    using g r j nonneg_int_cases unfolding ppd_geom_def ppd_receiving_def by (metis order_less_imp_le)
  have data: "nat (si_job_operation_data (ppd_input d)) = s + u"
    using r nats by (simp add: ppd_receiving_def)
  have "nat (int u + int n) = u + n" by simp
  then show "ppd_pending d1 = ppd_pending d @ ppd_inflight d"
    using mem_read_append [of s u n "ppd_buf d"] j
    by (simp add: d1_def ppd_pending_def ppd_inflight_def nats data sri_defs)
qed

lemma ppd_provided:
  assumes g: "ppd_geom d" and s: "ppd_safe d" and p: "StreamRecvInterface_Done_pre (ppd_input d) (int (length x))"
  shows "ppd_geom (ppd_provide d x)" "ppd_receiving (ppd_provide d x)"
    "ppd_pending (ppd_provide d x) = ppd_pending d" "ppd_inflight (ppd_provide d x) = x"
    "ppd_receiving d" "ppd_inflight d = []"
proof -
  have st: "si_state (ppd_input d) = STATE_BUSY" using p by (simp add: sri_defs)
  then show r: "ppd_receiving d" using s by (auto simp: ppd_safe_def ppd_sending_def)
  show "ppd_inflight d = []" using st by (simp add: ppd_inflight_def)
  obtain s u where nats: "ppd_buf_start d = int s" "ppd_buf_used d = int u"
    using g nonneg_int_cases unfolding ppd_geom_def by metis
  have data: "nat (si_job_operation_data (ppd_input d)) = s + u"
    using r nats by (simp add: ppd_receiving_def)
  have fit: "s + u + length x \<le> length (ppd_buf d)"
    using g r p nats by (simp add: ppd_geom_def ppd_receiving_def sri_defs)
  show "ppd_geom (ppd_provide d x)" "ppd_receiving (ppd_provide d x)"
    using g r p st fit data
    by (auto simp: ppd_provide_def ppd_geom_def ppd_receiving_def si_wf_def sri_defs)
  show "ppd_pending (ppd_provide d x) = ppd_pending d"
    using fit data by (simp add: ppd_provide_def ppd_pending_def nats mem_read_write_before)
  show "ppd_inflight (ppd_provide d x) = x"
    using fit data by (simp add: ppd_provide_def ppd_inflight_def sri_defs mem_read_write_same)
qed

lemma process_data_safe:
  assumes "ppd_geom d" "ppd_idle d" "PacketProtoDecoder_process_data d = (d', err)"
  shows "ppd_safe d'"
  using assms by (cases rule: process_data_cases) (auto simp: ppd_safe_def)

lemma ppd_sent_idle:
  assumes "ppd_safe d" "ppi_job_done (ppd_output d)"
  shows "ppd_sending d" "ppi_state (ppd_output d) = STATE_DONE_PENDING"
    "ppd_geom (d\<lparr>ppd_output := PacketPassInterface_job_done (ppd_output d)\<rparr>)"
    "ppd_idle (d\<lparr>ppd_output := PacketPassInterface_job_done (ppd_output d)\<rparr>)"
    "ppd_inflight d = []"
  using assms
  by (auto simp: ppd_safe_def ppd_sending_def ppd_receiving_def ppd_geom_def ppd_idle_def ppi_wf_def ppi_defs
      ppd_inflight_def)

lemma ppd_receiving_of_job:
  assumes "ppd_safe d" "si_job_done (ppd_input d)"
  shows "ppd_geom d" "ppd_receiving d" "si_state (ppd_input d) = STATE_DONE_PENDING"
  using assms by (auto simp: ppd_safe_def ppd_geom_def ppd_sending_def si_wf_def)

lemma ppd_step_safe: "ppd_step s s' \<Longrightarrow> ppd_safe (fst s) \<Longrightarrow> ppd_safe (fst s')"
proof (induction rule: ppd_step.induct)
  case (ppd_in_operation d inp del e)
  then show ?case
    by (auto simp: ppd_safe_def ppd_geom_def ppd_receiving_def ppd_sending_def si_wf_def sri_defs)
next
  case (ppd_in_done d x inp del e)
  then show ?case using ppd_provided [of d x] by (simp add: ppd_safe_def)
next
  case (ppd_in_job_done d d' err inp del e)
  then have s: "ppd_safe d" by simp
  note j = ppd_receiving_of_job [OF s ppd_in_job_done(1)]
  show ?case using ppd_in_job_done(2) process_data_safe [OF ppd_announce(1,2) [OF j]]
    by (simp add: PacketProtoDecoder_input_handler_done_def)
next
  case (ppd_out_operation d inp del e)
  then show ?case
    by (auto simp: ppd_safe_def ppd_geom_def ppd_receiving_def ppd_sending_def ppi_wf_def ppi_defs)
next
  case (ppd_out_done d inp del e)
  then show ?case
    by (auto simp: ppd_safe_def ppd_geom_def ppd_receiving_def ppd_sending_def ppi_wf_def ppi_defs)
next
  case (ppd_out_job_done d d' err inp del e)
  then show ?case
    using process_data_safe [OF ppd_sent_idle(3,4) [of d]]
    by (simp add: PacketProtoDecoder_output_handler_done_def)
qed

lemma ppd_reach_safe: "ppd_reach s s' \<Longrightarrow> ppd_safe (fst s) \<Longrightarrow> ppd_safe (fst s')"
  by (induction rule: rtranclp_induct) (auto intro: ppd_step_safe)

lemma ppd_Reset_safe: "ppd_safe d \<Longrightarrow> ppd_safe (PacketProtoDecoder_Reset d)"
  by (auto simp: ppd_safe_def ppd_geom_def ppd_receiving_def ppd_sending_def PacketProtoDecoder_Reset_def)

section \<open>Streams of encoded packets\<close>

definition packetproto_stream :: "bytes list \<Rightarrow> bytes" where
  "packetproto_stream pkts = concat (map packetproto_encode pkts)"

lemma next_of_prefix:
  assumes p: "prefix p (packetproto_encode x @ S)" and l: "2 \<le> length p" and x: "length x \<le> 65535"
  shows "ppd_next_len p = int (length x)"
    "2 + length x \<le> length p \<Longrightarrow> take (length x) (drop 2 p) = x \<and> p = packetproto_encode x @ drop (2 + length x) p"
proof -
  have t: "take k p = take k (packetproto_encode x @ S)" if "k \<le> length p" for k
    using p that by (metis min.absorb1 prefix_def take_take append_eq_conv_conj)
  have "take 2 p = take 2 (packetproto_encode x @ S)" using t l by blast
  then show "ppd_next_len p = int (length x)"
    using packetproto_encode_next [OF x, of S] by (simp add: ppd_next_len_def)
  assume k: "2 + length x \<le> length p"
  then have e: "take (2 + length x) p = packetproto_encode x" using t [OF k] by simp
  then have "p = packetproto_encode x @ drop (2 + length x) p" by (metis append_take_drop_id)
  moreover have "take (length x) (drop 2 p) = drop 2 (take (2 + length x) p)" by (simp add: drop_take)
  ultimately show "take (length x) (drop 2 p) = x \<and> p = packetproto_encode x @ drop (2 + length x) p"
    unfolding e by (simp add: packetproto_encode_def packetproto_header_bytes_def)
qed

text \<open>
  \<open>k\<close> packets have left the buffer; what is left of the stream received so far is in the
  buffer. A packet being sent is still readable behind the start of the buffer contents.
\<close>

definition ppd_track :: "bytes list \<Rightarrow> nat \<Rightarrow> ppd_state \<Rightarrow> bool" where
  "ppd_track pkts k s \<longleftrightarrow>
     (case s of (d, inp, del, e) \<Rightarrow>
        ppd_safe d \<and> e = 0 \<and> k \<le> length pkts \<and>
        packetproto_stream (take k pkts) @ ppd_pending d @ ppd_inflight d = inp \<and>
        (ppd_receiving d \<longrightarrow> length (ppd_pending d) < 2 \<or>
           int (length (ppd_pending d)) < 2 + ppd_next_len (ppd_pending d)) \<and>
        (if ppi_state (ppd_output d) = STATE_OPERATION_PENDING \<or> ppi_state (ppd_output d) = STATE_BUSY
         then 0 < k \<and> del = take (k - 1) pkts \<and> ppd_received d = pkts ! (k - 1)
         else del = take k pkts))"

lemma ppd_track_process:
  assumes g: "ppd_geom d" and i: "ppd_idle d" and r: "PacketProtoDecoder_process_data d = (d', err)"
    and k: "k \<le> length pkts" and inp: "packetproto_stream (take k pkts) @ ppd_pending d = inp"
    and pre: "prefix inp (packetproto_stream pkts)"
    and ok: "\<forall>x \<in> set pkts. int (length x) \<le> ppd_output_mtu d" "ppd_output_mtu d \<le> 65535"
  shows "\<exists>k'. ppd_track pkts k' (d', inp, take k pkts, of_bool err)"
proof -
  let ?p = "ppd_pending d"
  have "packetproto_stream pkts = packetproto_stream (take k pkts) @ packetproto_stream (drop k pkts)"
    by (simp add: packetproto_stream_def flip: concat_append map_append)
  then have pp: "prefix ?p (packetproto_stream (drop k pkts))" using pre inp by auto
  have nxt: "k < length pkts \<and> length (pkts ! k) \<le> 65535 \<and> int (length (pkts ! k)) \<le> ppd_output_mtu d \<and>
      prefix ?p (packetproto_encode (pkts ! k) @ packetproto_stream (drop (Suc k) pkts))" if "2 \<le> length ?p"
  proof -
    have lt: "k < length pkts" using pp that by (cases "k < length pkts") (auto simp: packetproto_stream_def)
    then have "pkts ! k \<in> set pkts" by simp
    then have "int (length (pkts ! k)) \<le> ppd_output_mtu d" using ok(1) by blast
    then show ?thesis using lt pp ok(2) by (simp add: packetproto_stream_def flip: Cons_nth_drop_Suc)
  qed
  from g i r show ?thesis
  proof (cases rule: process_data_cases)
    case wait
    then have "ppd_track pkts k (d', inp, take k pkts, of_bool err)"
      using k inp by (auto simp: ppd_track_def ppd_safe_def ppd_receiving_def)
    then show ?thesis by blast
  next
    case error
    with nxt next_of_prefix(1) [of ?p "pkts ! k"] have False by fastforce
    then show ?thesis ..
  next
    case packet
    let ?x = "pkts ! k"
    have l2: "2 \<le> length ?p" using packet(5) ppd_next_len_range(1) [of ?p] by linarith
    note n = nxt [OF l2]
    have nl: "ppd_next_len ?p = int (length ?x)" using n next_of_prefix(1) [OF _ l2] by blast
    have lx: "2 + length ?x \<le> length ?p" using packet(5) nl by linarith
    have split: "take (length ?x) (drop 2 ?p) = ?x \<and> ?p = packetproto_encode ?x @ drop (2 + length ?x) ?p"
      using n next_of_prefix(2) [OF _ l2 _ lx] by blast
    have "nat (2 + int (length ?x)) = 2 + length ?x" by simp
    then have pend: "ppd_pending d' = drop (2 + length ?x) ?p" using packet(7) nl by simp
    have "packetproto_stream (take (Suc k) pkts) = packetproto_stream (take k pkts) @ packetproto_encode ?x"
      using n by (simp add: packetproto_stream_def take_Suc_conv_app_nth)
    then have "packetproto_stream (take (Suc k) pkts) @ ppd_pending d' = inp"
      using split pend inp by (metis append.assoc)
    then have "ppd_track pkts (Suc k) (d', inp, take k pkts, of_bool err)"
      using packet n nl split by (auto simp: ppd_track_def ppd_safe_def ppd_receiving_def ppd_sending_def)
    then show ?thesis by blast
  qed
qed

lemma process_data_mtu: "PacketProtoDecoder_process_data d = (d', err) \<Longrightarrow> ppd_output_mtu d' = ppd_output_mtu d"
  by (auto simp: PacketProtoDecoder_process_data_def PacketProtoDecoder_receive_def Let_def split: if_splits)

lemma ppd_step_mtu: "ppd_step s s' \<Longrightarrow> ppd_output_mtu (fst s') = ppd_output_mtu (fst s)"
  by (induction rule: ppd_step.induct)
    (auto simp: ppd_provide_def PacketProtoDecoder_input_handler_done_def
       PacketProtoDecoder_output_handler_done_def dest: process_data_mtu)

lemma ppd_track_step:
  assumes "ppd_step s s'" "ppd_track pkts k s" "prefix (fst (snd s')) (packetproto_stream pkts)"
    and "\<forall>x \<in> set pkts. int (length x) \<le> ppd_output_mtu (fst s)" "ppd_output_mtu (fst s) \<le> 65535"
  shows "\<exists>k'. ppd_track pkts k' s'"
  using assms
proof (induction rule: ppd_step.induct)
  case (ppd_in_operation d inp del e)
  have "ppd_safe (fst (d\<lparr>ppd_input := StreamRecvInterface_job_operation (ppd_input d)\<rparr>, inp, del, e))"
    by (rule ppd_step_safe [OF ppd_step.ppd_in_operation [OF ppd_in_operation(1)]])
      (use ppd_in_operation(2) in \<open>simp add: ppd_track_def\<close>)
  moreover have "si_state (ppd_input d) = STATE_OPERATION_PENDING"
    using ppd_in_operation(1,2) by (auto simp: ppd_track_def ppd_safe_def ppd_geom_def si_wf_def)
  ultimately have "ppd_track pkts k (d\<lparr>ppd_input := StreamRecvInterface_job_operation (ppd_input d)\<rparr>, inp, del, e)"
    using ppd_in_operation(2)
    by (auto simp: ppd_track_def ppd_pending_def ppd_inflight_def ppd_received_def ppd_receiving_def sri_defs)
  then show ?case by blast
next
  case (ppd_in_done d x inp del e)
  then have g: "ppd_geom d" and s: "ppd_safe d" by (auto simp: ppd_track_def ppd_safe_def)
  note p = ppd_provided [OF g s ppd_in_done(1)]
  have "ppi_state (ppd_output (ppd_provide d x)) = STATE_NONE" "ppi_state (ppd_output d) = STATE_NONE"
    using p(2,5) by (simp_all add: ppd_receiving_def)
  then have "ppd_track pkts k (ppd_provide d x, inp @ x, del, e)"
    using ppd_in_done(2) p by (auto simp: ppd_track_def ppd_safe_def)
  then show ?case by blast
next
  case (ppd_in_job_done d d' err inp del e)
  then have s: "ppd_safe d" by (simp add: ppd_track_def)
  note j = ppd_receiving_of_job [OF s ppd_in_job_done(1)]
  note an = ppd_announce [OF j]
  let ?d1 = "d\<lparr>ppd_input := StreamRecvInterface_job_done (ppd_input d),
               ppd_buf_used := ppd_buf_used d + si_job_done_len (ppd_input d)\<rparr>"
  have r: "PacketProtoDecoder_process_data ?d1 = (d', err)"
    using ppd_in_job_done(2) by (simp add: PacketProtoDecoder_input_handler_done_def)
  have t: "k \<le> length pkts" "del = take k pkts" "e = 0"
    "packetproto_stream (take k pkts) @ ppd_pending ?d1 = inp"
    using ppd_in_job_done(3) j(2) an(3) by (auto simp: ppd_track_def ppd_receiving_def)
  show ?case
    using ppd_track_process [OF an(1,2) r t(1,4)] ppd_in_job_done(4-6) t(2,3) by simp
next
  case (ppd_out_operation d inp del e)
  have "ppd_safe (fst (d\<lparr>ppd_output := PacketPassInterface_job_operation (ppd_output d)\<rparr>, inp, del, e))"
    by (rule ppd_step_safe [OF ppd_step.ppd_out_operation [OF ppd_out_operation(1)]])
      (use ppd_out_operation(2) in \<open>simp add: ppd_track_def\<close>)
  moreover have "ppi_state (ppd_output d) = STATE_OPERATION_PENDING"
    using ppd_out_operation(1,2) by (auto simp: ppd_track_def ppd_safe_def ppd_geom_def ppi_wf_def)
  ultimately have "ppd_track pkts k (d\<lparr>ppd_output := PacketPassInterface_job_operation (ppd_output d)\<rparr>, inp, del, e)"
    using ppd_out_operation(2)
    by (auto simp: ppd_track_def ppd_pending_def ppd_inflight_def ppd_received_def ppd_receiving_def ppi_defs)
  then show ?case by blast
next
  case (ppd_out_done d inp del e)
  have sf: "ppd_safe (fst (d\<lparr>ppd_output := PacketPassInterface_Done (ppd_output d)\<rparr>, inp, del @ [ppd_received d], e))"
    by (rule ppd_step_safe [OF ppd_step.ppd_out_done [OF ppd_out_done(1)]])
      (use ppd_out_done(2) in \<open>simp add: ppd_track_def\<close>)
  have st: "ppi_state (ppd_output d) = STATE_BUSY" using ppd_out_done(1) by (simp add: ppi_defs)
  then have "0 < k" "k \<le> length pkts" "del @ [ppd_received d] = take (k - 1) pkts @ [pkts ! (k - 1)]"
    using ppd_out_done(2) by (auto simp: ppd_track_def)
  then have "del @ [ppd_received d] = take k pkts" by (simp flip: take_Suc_conv_app_nth)
  then have "ppd_track pkts k (d\<lparr>ppd_output := PacketPassInterface_Done (ppd_output d)\<rparr>, inp, del @ [ppd_received d], e)"
    using ppd_out_done(2) st sf
    by (auto simp: ppd_track_def ppd_pending_def ppd_inflight_def ppd_receiving_def ppi_defs)
  then show ?case by blast
next
  case (ppd_out_job_done d d' err inp del e)
  then have s: "ppd_safe d" by (simp add: ppd_track_def)
  note j = ppd_sent_idle [OF s ppd_out_job_done(1)]
  let ?d1 = "d\<lparr>ppd_output := PacketPassInterface_job_done (ppd_output d)\<rparr>"
  have r: "PacketProtoDecoder_process_data ?d1 = (d', err)"
    using ppd_out_job_done(2) by (simp add: PacketProtoDecoder_output_handler_done_def)
  have t: "k \<le> length pkts" "del = take k pkts" "e = 0"
    "packetproto_stream (take k pkts) @ ppd_pending ?d1 = inp"
    using ppd_out_job_done(3) j(2,5) by (auto simp: ppd_track_def ppd_pending_def)
  show ?case
    using ppd_track_process [OF j(3,4) r t(1,4)] ppd_out_job_done(4-6) t(2,3) by simp
qed

lemma ppd_step_inp: "ppd_step s s' \<Longrightarrow> prefix (fst (snd s)) (fst (snd s'))"
  by (induction rule: ppd_step.induct) auto

lemma ppd_track_reach:
  assumes "ppd_reach s s'" "\<exists>k. ppd_track pkts k s" "prefix (fst (snd s')) (packetproto_stream pkts)"
    and ok: "\<forall>x \<in> set pkts. int (length x) \<le> ppd_output_mtu (fst s)" "ppd_output_mtu (fst s) \<le> 65535"
  shows "(\<exists>k. ppd_track pkts k s') \<and> ppd_output_mtu (fst s') = ppd_output_mtu (fst s)"
  using assms(1-3)
proof (induction rule: rtranclp_induct)
  case base
  then show ?case by simp
next
  case (step t u)
  have "prefix (fst (snd t)) (packetproto_stream pkts)"
    using ppd_step_inp [OF step.hyps(2)] step.prems(2) by (rule prefix_order.trans)
  then have ih: "(\<exists>k. ppd_track pkts k t) \<and> ppd_output_mtu (fst t) = ppd_output_mtu (fst s)"
    using step by blast
  then show ?case
    using ppd_track_step [OF step.hyps(2) _ step.prems(2)] ppd_step_mtu [OF step.hyps(2)] ok by auto
qed

section \<open>Initialisation\<close>

definition ppd_started ::
    "(int \<Rightarrow> bytes option) \<Rightarrow> int StreamRecvInterface \<Rightarrow> int PacketPassInterface \<Rightarrow> PacketProtoDecoder \<Rightarrow> bool" where
  "ppd_started malloc input output d \<longleftrightarrow>
     PacketProtoDecoder_Init malloc input output = Some d \<and>
     (\<forall>n m. malloc n = Some m \<longrightarrow> int (length m) = n) \<and>
     si_wf input \<and> si_state input = STATE_NONE \<and> ppi_wf output \<and> ppi_state output = STATE_NONE \<and>
     0 \<le> ppi_mtu output"

lemma ppd_started_init:
  assumes "ppd_started malloc input output d"
  shows "ppd_safe d" "ppd_track pkts 0 (d, [], [], 0)" "ppd_output_mtu d = min (ppi_mtu output) 65535"
proof -
  obtain buf where d: "d = \<lparr>ppd_input = StreamRecvInterface_Receiver_Recv (StreamRecvInterface_Receiver_Init input) 0
         (2 + bmin_int (ppi_mtu output) 65535), ppd_output = PacketPassInterface_Sender_Init output,
       ppd_output_mtu = bmin_int (ppi_mtu output) 65535, ppd_buf_size = 2 + bmin_int (ppi_mtu output) 65535,
       ppd_buf_start = 0, ppd_buf_used = 0, ppd_buf = buf\<rparr>"
    and l: "int (length buf) = 2 + bmin_int (ppi_mtu output) 65535"
    using assms
    by (auto simp: ppd_started_def PacketProtoDecoder_Init_def Let_def PACKETPROTO_ENCLEN_def
        PacketPassInterface_GetMTU_def PacketPassInterface_Sender_Init_def split: option.splits)
  have b: "bmin_int (ppi_mtu output) 65535 = min (ppi_mtu output) 65535" by (simp add: bmin_int_def min_def)
  then show "ppd_output_mtu d = min (ppi_mtu output) 65535" by (simp add: d)
  show s: "ppd_safe d"
    using assms l unfolding d b ppd_started_def
    by (auto simp: ppd_safe_def ppd_geom_def ppd_receiving_def si_wf_def ppi_wf_def sri_defs ppi_defs)
  have "ppi_state (ppd_output d) = STATE_NONE" "ppd_pending d = []" "ppd_inflight d = []"
    using assms by (simp_all add: d ppd_started_def ppi_defs sri_defs ppd_pending_def ppd_inflight_def)
  then show "ppd_track pkts 0 (d, [], [], 0)"
    using s by (simp add: ppd_track_def packetproto_stream_def)
qed

section \<open>Running the decoder\<close>

datatype ppd_event = PInOperation | PInDone bytes | PInJobDone | POutOperation | POutDone | POutJobDone

fun ppd_do :: "ppd_event \<Rightarrow> ppd_state \<Rightarrow> ppd_state option" where
  "ppd_do PInOperation (d, inp, del, e) =
     (if si_job_operation (ppd_input d)
      then Some (d\<lparr>ppd_input := StreamRecvInterface_job_operation (ppd_input d)\<rparr>, inp, del, e) else None)"
| "ppd_do (PInDone x) (d, inp, del, e) =
     (if StreamRecvInterface_Done_pre (ppd_input d) (int (length x))
      then Some (ppd_provide d x, inp @ x, del, e) else None)"
| "ppd_do PInJobDone (d, inp, del, e) =
     (if si_job_done (ppd_input d)
      then (let r = PacketProtoDecoder_input_handler_done
                      (d\<lparr>ppd_input := StreamRecvInterface_job_done (ppd_input d)\<rparr>) (si_job_done_len (ppd_input d))
            in Some (fst r, inp, del, e + of_bool (snd r))) else None)"
| "ppd_do POutOperation (d, inp, del, e) =
     (if ppi_job_operation (ppd_output d)
      then Some (d\<lparr>ppd_output := PacketPassInterface_job_operation (ppd_output d)\<rparr>, inp, del, e) else None)"
| "ppd_do POutDone (d, inp, del, e) =
     (if PacketPassInterface_Done_pre (ppd_output d)
      then Some (d\<lparr>ppd_output := PacketPassInterface_Done (ppd_output d)\<rparr>, inp, del @ [ppd_received d], e) else None)"
| "ppd_do POutJobDone (d, inp, del, e) =
     (if ppi_job_done (ppd_output d)
      then (let r = PacketProtoDecoder_output_handler_done
                      (d\<lparr>ppd_output := PacketPassInterface_job_done (ppd_output d)\<rparr>)
            in Some (fst r, inp, del, e + of_bool (snd r))) else None)"

fun ppd_exec :: "ppd_event list \<Rightarrow> ppd_state \<Rightarrow> ppd_state option" where
  "ppd_exec [] s = Some s"
| "ppd_exec (ev # evs) s = (case ppd_do ev s of None \<Rightarrow> None | Some s' \<Rightarrow> ppd_exec evs s')"

lemma ppd_do_step: "ppd_do ev s = Some s' \<Longrightarrow> ppd_step s s'"
  by (induction ev s rule: ppd_do.induct)
    (auto simp: Let_def split: if_splits intro: ppd_step.intros)

lemma ppd_exec_reach: "ppd_exec evs s = Some s' \<Longrightarrow> ppd_reach s s'"
  by (induction evs arbitrary: s)
    (auto split: option.splits intro: converse_rtranclp_into_rtranclp dest!: ppd_do_step)

definition demo_stream_malloc :: "int \<Rightarrow> bytes option" where
  "demo_stream_malloc n = (if n < 0 then None else Some (replicate (nat n) 0))"

definition demo_ppd :: PacketProtoDecoder where
  "demo_ppd = the (PacketProtoDecoder_Init demo_stream_malloc (StreamRecvInterface_Init 0) (PacketPassInterface_Init 0 4))"

lemma demo_ppd_started:
  "ppd_started demo_stream_malloc (StreamRecvInterface_Init 0) (PacketPassInterface_Init 0 4) demo_ppd"
proof -
  have "PacketProtoDecoder_Init demo_stream_malloc (StreamRecvInterface_Init 0) (PacketPassInterface_Init 0 4) = Some demo_ppd"
    by code_simp
  moreover have "\<forall>n m. demo_stream_malloc n = Some m \<longrightarrow> int (length m) = n"
    by (auto simp: demo_stream_malloc_def)
  ultimately show ?thesis
    by (simp add: ppd_started_def si_wf_def ppi_wf_def sri_defs ppi_defs)
qed

text \<open>Two packets in three segments, the second packet split by the end of the buffer.\<close>

definition demo_ppd_run :: "ppd_event list" where
  "demo_ppd_run =
     [PInOperation, PInDone [3], PInJobDone, PInOperation, PInDone [0, 7, 8, 9, 2], PInJobDone,
      POutOperation, POutDone, POutJobDone, PInOperation, PInDone [0, 5, 6], PInJobDone,
      POutOperation, POutDone, POutJobDone]"

lemma demo_ppd_reach:
  "\<exists>d. ppd_reach (demo_ppd, [], [], 0) (d, packetproto_stream [[7, 8, 9], [5, 6]], [[7, 8, 9], [5, 6]], 0) \<and>
       ppi_state (ppd_output d) = STATE_NONE \<and> si_state (ppd_input d) = STATE_OPERATION_PENDING"
proof -
  have "map_option (\<lambda>(d, h). (h, ppi_state (ppd_output d), si_state (ppd_input d)))
      (ppd_exec demo_ppd_run (demo_ppd, [], [], 0)) =
    Some ((packetproto_stream [[7, 8, 9], [5, 6]], [[7, 8, 9], [5, 6]], 0), STATE_NONE, STATE_OPERATION_PENDING)"
    by code_simp
  then show ?thesis by (auto dest!: ppd_exec_reach)
qed

section \<open>Properties\<close>

text \<open>
  C8: the decoder inverts the encoder for every segmentation of the stream. While the
  bytes provided so far are a prefix of the encoding of some packets, no error is reported
  and the packets delivered are the first of those packets; once the whole encoding was
  provided and announced and no packet is being sent, all of them have been delivered.
\<close>

theorem PacketProtoDecoder_roundtrip:
  assumes "ppd_started malloc input output d0" "ppd_reach (d0, [], [], 0) (d, inp, del, e)"
    "prefix inp (packetproto_stream pkts)"
    "\<forall>x \<in> set pkts. int (length x) \<le> min (ppi_mtu output) 65535"
  shows "e = 0 \<and> prefix del pkts \<and>
    (inp = packetproto_stream pkts \<and> ppi_state (ppd_output d) = STATE_NONE \<and>
     si_state (ppd_input d) \<noteq> STATE_DONE_PENDING \<longrightarrow> del = pkts)"
proof -
  note st = ppd_started_init [OF assms(1)]
  obtain k where t: "ppd_track pkts k (d, inp, del, e)"
    using ppd_track_reach [OF assms(2), of pkts] assms(3,4) st by auto
  have "prefix del pkts"
    using t by (auto simp: ppd_track_def take_is_prefix split: if_splits)
  moreover have "del = pkts" if fin: "inp = packetproto_stream pkts" "ppi_state (ppd_output d) = STATE_NONE"
    "si_state (ppd_input d) \<noteq> STATE_DONE_PENDING"
  proof (rule ccontr)
    assume "del \<noteq> pkts"
    then have k: "k < length pkts" and r: "ppd_receiving d"
      using t fin(2) by (auto simp: ppd_track_def ppd_safe_def ppd_sending_def le_less)
    have "packetproto_stream (take k pkts @ pkts ! k # drop (Suc k) pkts) =
        packetproto_stream (take k pkts) @ packetproto_encode (pkts ! k) @ packetproto_stream (drop (Suc k) pkts)"
      by (simp add: packetproto_stream_def)
    then have "packetproto_stream pkts =
        packetproto_stream (take k pkts) @ packetproto_encode (pkts ! k) @ packetproto_stream (drop (Suc k) pkts)"
      by (simp only: id_take_nth_drop [OF k, symmetric])
    then have p: "ppd_pending d = packetproto_encode (pkts ! k) @ packetproto_stream (drop (Suc k) pkts)"
      using t fin(1,3) by (simp add: ppd_track_def ppd_inflight_def)
    have "int (length (pkts ! k)) \<le> min (ppi_mtu output) 65535" using assms(4) k by simp
    then have "length (pkts ! k) \<le> 65535" by simp
    then show False using t r p packetproto_encode_next by (simp add: ppd_track_def)
  qed
  ultimately show ?thesis using t by (simp add: ppd_track_def)
qed

theorem PacketProtoDecoder_roundtrip_witness:
  "\<exists>d. ppd_reach (demo_ppd, [], [], 0) (d, packetproto_stream [[7, 8, 9], [5, 6]], [[7, 8, 9], [5, 6]], 0) \<and>
       prefix [[7, 8, 9], [5, 6]] [[7, 8, 9], [5, 6 :: byte]]"
proof -
  obtain d where d: "ppd_reach (demo_ppd, [], [], 0) (d, packetproto_stream [[7, 8, 9], [5, 6]], [[7, 8, 9], [5, 6]], 0)"
    using demo_ppd_reach by blast
  show ?thesis
    using PacketProtoDecoder_roundtrip [OF demo_ppd_started d, of "[[7, 8, 9], [5, 6]]"] d
    by (simp add: ppi_defs) blast
qed




definition demo_ppe :: PacketProtoEncoder where
  "demo_ppe = (PacketProtoEncoder_Init (PacketRecvInterface_Init 0 10))\<lparr>ppe_output_packet := Some (int 1)\<rparr>"


end
