(* ===== verification/BAddr.thy ===== *)
theory BAddr
  imports ByteOrder
begin

text \<open>
  \<^verbatim>\<open>system/BAddr.h\<close>: IP addresses and socket addresses, their comparison, printing and
  parsing. The tagged unions are datatypes; addresses and ports stay in network byte order.
  \<^verbatim>\<open>getaddrinfo\<close> is a parameter.

  The locale \<open>comparator\<close> is the contract the balanced trees and queues of the program
  expect of a three-way comparison; it is interpreted here for \<^verbatim>\<open>B_COMPARE\<close> and
  \<^verbatim>\<open>BAddr_CompareOrder\<close>.
\<close>

section \<open>Three-way comparison\<close>

locale comparator =
  fixes cmp :: "'a \<Rightarrow> 'a \<Rightarrow> int"
    and valid :: "'a \<Rightarrow> bool"
  assumes cmp_range: "valid a \<Longrightarrow> valid b \<Longrightarrow> cmp a b = -1 \<or> cmp a b = 0 \<or> cmp a b = 1"
    and cmp_swap: "valid a \<Longrightarrow> valid b \<Longrightarrow> cmp b a = - cmp a b"
    and cmp_eq: "valid a \<Longrightarrow> valid b \<Longrightarrow> cmp a b = 0 \<longleftrightarrow> a = b"
    and cmp_trans: "valid a \<Longrightarrow> valid b \<Longrightarrow> valid c \<Longrightarrow> cmp a b = -1 \<Longrightarrow> cmp b c = -1 \<Longrightarrow> cmp a c = -1"
begin

lemma cmp_refl: "valid a \<Longrightarrow> cmp a a = 0"
  using cmp_eq by blast

lemma cmp_gt: "valid a \<Longrightarrow> valid b \<Longrightarrow> cmp a b = 1 \<longleftrightarrow> cmp b a = -1"
  using cmp_swap [of a b] by linarith

lemma cmp_total: "valid a \<Longrightarrow> valid b \<Longrightarrow> a = b \<or> cmp a b = -1 \<or> cmp b a = -1"
  using cmp_range [of a b] cmp_swap [of a b] cmp_eq [of a b] by linarith

lemma cmp_irrefl: "valid a \<Longrightarrow> valid b \<Longrightarrow> cmp a b = -1 \<Longrightarrow> a \<noteq> b \<and> cmp b a = 1"
  using cmp_swap [of a b] cmp_eq [of a b] by auto

end

interpretation word_cmp: comparator "B_COMPARE :: 'a::linorder \<Rightarrow> 'a \<Rightarrow> int" "\<lambda>_. True"
  by unfold_locales (auto simp: B_COMPARE_def of_bool_def split: if_splits)

text \<open>
  Comparing pairs: the first components decide, then the second ones. The code writes this
  as a chain of \<^verbatim>\<open>if (cmp) return cmp;\<close>.
\<close>

definition cmp_then :: "int \<Rightarrow> int \<Rightarrow> int" where
  "cmp_then r s = (if r \<noteq> 0 then r else s)"

locale comparator_pair = l: comparator cmpl validl + r: comparator cmpr validr
  for cmpl :: "'a \<Rightarrow> 'a \<Rightarrow> int" and validl and cmpr :: "'b \<Rightarrow> 'b \<Rightarrow> int" and validr
begin

lemma pair_comparator:
  "comparator (\<lambda>(a, b) (c, d). cmp_then (cmpl a c) (cmpr b d)) (\<lambda>(a, b). validl a \<and> validr b)"
proof (unfold_locales, goal_cases)
  case (1 x y)
  then show ?case using l.cmp_range r.cmp_range by (fastforce simp: cmp_then_def)
next
  case (2 x y)
  obtain a1 a2 b1 b2 where xy: "x = (a1, a2)" "y = (b1, b2)" by (metis surj_pair)
  with 2 show ?case using l.cmp_swap [of a1 b1] r.cmp_swap [of a2 b2] by (auto simp: cmp_then_def)
next
  case (3 x y)
  then show ?case by (auto simp: cmp_then_def l.cmp_eq r.cmp_eq l.cmp_refl split: if_splits)
next
  case (4 x y z)
  obtain a1 a2 b1 b2 c1 c2 where xyz: "x = (a1, a2)" "y = (b1, b2)" "z = (c1, c2)"
    by (metis surj_pair)
  with 4 show ?case
    using l.cmp_trans [of a1 b1 c1] r.cmp_trans [of a2 b2 c2] l.cmp_eq [of a1 b1] l.cmp_eq [of b1 c1]
      l.cmp_eq [of a1 c1]
    by (auto simp: cmp_then_def split: if_splits)
qed

end

text \<open>
  \<^verbatim>\<open>memcmp\<close> up to the magnitude of a non-zero result. The program compares byte strings of the
  same length only; that a proper prefix comes first extends the order to all of them.
\<close>

fun memcmp :: "bytes \<Rightarrow> bytes \<Rightarrow> int" where
  "memcmp (a # as) (b # bs) = (if a < b then -1 else if a > b then 1 else memcmp as bs)"
| "memcmp [] (b # bs) = -1"
| "memcmp (a # as) [] = 1"
| "memcmp [] [] = 0"

lemma memcmp_comparator: "comparator memcmp (\<lambda>_. True)"
proof (unfold_locales, goal_cases)
  case (1 a b)
  show ?case by (induction a b rule: memcmp.induct) auto
next
  case (2 a b)
  show ?case by (induction a b rule: memcmp.induct) auto
next
  case (3 a b)
  show ?case by (induction a b rule: memcmp.induct) auto
next
  case (4 a b c)
  then show ?case
  proof (induction a b arbitrary: c rule: memcmp.induct)
    case (1 x xs y ys)
    then show ?case by (cases c) (auto split: if_splits)
  next
    case (2 b bs)
    then show ?case by (cases c) auto
  qed auto
qed

section \<open>Addresses\<close>

datatype BIPAddr = BIP_NONE | BIP_IPV4 u32 | BIP_IPV6 bytes

datatype BAddr =
    BADDR_NONE
  | BADDR_IPV4 u32 u16
  | BADDR_IPV6 bytes u16
  | BADDR_PACKET u16 int int int bytes

fun BAddr_type :: "BAddr \<Rightarrow> int" where
  "BAddr_type BADDR_NONE = 0"
| "BAddr_type (BADDR_IPV4 _ _) = 1"
| "BAddr_type (BADDR_IPV6 _ _) = 2"
| "BAddr_type (BADDR_PACKET _ _ _ _ _) = 5"

definition BIPAddr_InitInvalid :: BIPAddr where "BIPAddr_InitInvalid = BIP_NONE"
definition BIPAddr_InitIPv4 :: "u32 \<Rightarrow> BIPAddr" where "BIPAddr_InitIPv4 ip = BIP_IPV4 ip"
definition BIPAddr_InitIPv6 :: "bytes \<Rightarrow> BIPAddr" where "BIPAddr_InitIPv6 ip = BIP_IPV6 (take 16 ip)"

definition BIPAddr_IsInvalid :: "BIPAddr \<Rightarrow> bool" where
  "BIPAddr_IsInvalid addr \<longleftrightarrow> addr = BIP_NONE"

fun BIPAddr_Compare :: "BIPAddr \<Rightarrow> BIPAddr \<Rightarrow> bool" where
  "BIPAddr_Compare (BIP_IPV4 a) (BIP_IPV4 b) \<longleftrightarrow> a = b"
| "BIPAddr_Compare (BIP_IPV6 a) (BIP_IPV6 b) \<longleftrightarrow> memcmp a b = 0"
| "BIPAddr_Compare _ _ \<longleftrightarrow> False"

fun BAddr_GetPort :: "BAddr \<Rightarrow> u16" where
  "BAddr_GetPort (BADDR_IPV4 ip port) = port"
| "BAddr_GetPort (BADDR_IPV6 ip port) = port"
| "BAddr_GetPort _ = 0"

fun BAddr_GetIPAddr :: "BAddr \<Rightarrow> BIPAddr" where
  "BAddr_GetIPAddr (BADDR_IPV4 ip port) = BIPAddr_InitIPv4 ip"
| "BAddr_GetIPAddr (BADDR_IPV6 ip port) = BIPAddr_InitIPv6 ip"
| "BAddr_GetIPAddr _ = BIPAddr_InitInvalid"

fun BAddr_SetPort :: "BAddr \<Rightarrow> u16 \<Rightarrow> BAddr" where
  "BAddr_SetPort (BADDR_IPV4 ip port) p = BADDR_IPV4 ip p"
| "BAddr_SetPort (BADDR_IPV6 ip port) p = BADDR_IPV6 ip p"
| "BAddr_SetPort a p = a"

definition BAddr_MakeNone :: BAddr where "BAddr_MakeNone = BADDR_NONE"
definition BAddr_MakeIPv4 :: "u32 \<Rightarrow> u16 \<Rightarrow> BAddr" where "BAddr_MakeIPv4 ip port = BADDR_IPV4 ip port"
definition BAddr_MakeIPv6 :: "bytes \<Rightarrow> u16 \<Rightarrow> BAddr" where "BAddr_MakeIPv6 ip port = BADDR_IPV6 (take 16 ip) port"

fun BAddr_MakeFromIpaddrAndPort :: "BIPAddr \<Rightarrow> u16 \<Rightarrow> BAddr" where
  "BAddr_MakeFromIpaddrAndPort BIP_NONE port = BAddr_MakeNone"
| "BAddr_MakeFromIpaddrAndPort (BIP_IPV4 ip) port = BAddr_MakeIPv4 ip port"
| "BAddr_MakeFromIpaddrAndPort (BIP_IPV6 ip) port = BAddr_MakeIPv6 ip port"

definition BAddr_InitNone :: BAddr where "BAddr_InitNone = BAddr_MakeNone"
definition BAddr_InitIPv4 :: "u32 \<Rightarrow> u16 \<Rightarrow> BAddr" where "BAddr_InitIPv4 ip port = BAddr_MakeIPv4 ip port"
definition BAddr_InitIPv6 :: "bytes \<Rightarrow> u16 \<Rightarrow> BAddr" where "BAddr_InitIPv6 ip port = BAddr_MakeIPv6 ip port"
definition BAddr_InitFromIpaddrAndPort :: "BIPAddr \<Rightarrow> u16 \<Rightarrow> BAddr" where
  "BAddr_InitFromIpaddrAndPort ipaddr port = BAddr_MakeFromIpaddrAndPort ipaddr port"

definition BAddr_IsInvalid :: "BAddr \<Rightarrow> bool" where
  "BAddr_IsInvalid addr \<longleftrightarrow> addr = BADDR_NONE"

fun BAddr_Compare :: "BAddr \<Rightarrow> BAddr \<Rightarrow> bool" where
  "BAddr_Compare (BADDR_IPV4 ip1 port1) (BADDR_IPV4 ip2 port2) \<longleftrightarrow> ip1 = ip2 \<and> port1 = port2"
| "BAddr_Compare (BADDR_IPV6 ip1 port1) (BADDR_IPV6 ip2 port2) \<longleftrightarrow> memcmp ip1 ip2 = 0 \<and> port1 = port2"
| "BAddr_Compare _ _ \<longleftrightarrow> False"

definition BAddr_CompareOrder :: "BAddr \<Rightarrow> BAddr \<Rightarrow> int" where
  "BAddr_CompareOrder addr1 addr2 =
     (let cmp = B_COMPARE (BAddr_type addr1) (BAddr_type addr2) in
      if cmp \<noteq> 0 then cmp
      else case (addr1, addr2) of
        (BADDR_IPV4 ip1 port1, BADDR_IPV4 ip2 port2) \<Rightarrow>
          (let cmp = B_COMPARE (ntoh32 ip1) (ntoh32 ip2) in
           if cmp \<noteq> 0 then cmp else B_COMPARE (ntoh16 port1) (ntoh16 port2))
      | (BADDR_IPV6 ip1 port1, BADDR_IPV6 ip2 port2) \<Rightarrow>
          (let cmp = memcmp ip1 ip2 in
           if cmp \<noteq> 0 then B_COMPARE cmp 0 else B_COMPARE (ntoh16 port1) (ntoh16 port2))
      | _ \<Rightarrow> 0)"

section \<open>Printing and parsing\<close>

text \<open>Decimal and hexadecimal output of \<^verbatim>\<open>sprintf\<close>, and \<^verbatim>\<open>strtol\<close> in base 10.\<close>

definition digit_char :: "nat \<Rightarrow> char" where
  "digit_char n = char_of (if n < 10 then 48 + n else 87 + n)"

fun print_base :: "nat \<Rightarrow> nat \<Rightarrow> string" where
  "print_base b n = (if b < 2 \<or> n < b then [digit_char n] else print_base b (n div b) @ [digit_char (n mod b)])"

declare print_base.simps [simp del]

definition is_digit :: "char \<Rightarrow> bool" where
  "is_digit c \<longleftrightarrow> 48 \<le> (of_char c :: nat) \<and> (of_char c :: nat) \<le> 57"

definition is_space :: "char \<Rightarrow> bool" where
  "is_space c \<longleftrightarrow> c = CHR '' '' \<or> 9 \<le> (of_char c :: nat) \<and> (of_char c :: nat) \<le> 13"

definition digits_value :: "string \<Rightarrow> nat" where
  "digits_value ds = foldl (\<lambda>v c. 10 * v + (of_char c - 48)) 0 ds"

text \<open>
  The value and the unparsed rest (\<^verbatim>\<open>*endptr\<close>). The strings passed have at most five
  characters, so the value fits a \<^verbatim>\<open>long\<close>.
\<close>

definition strtol10 :: "string \<Rightarrow> int \<times> string" where
  "strtol10 s =
     (let t = dropWhile is_space s;
          (neg, t) = (case t of c # r \<Rightarrow> if c = CHR ''-'' then (True, r) else if c = CHR ''+'' then (False, r) else (False, t)
                      | [] \<Rightarrow> (False, t));
          ds = takeWhile is_digit t
      in if ds = [] then (0, s)
         else ((if neg then - int (digits_value ds) else int (digits_value ds)), drop (length ds) t))"

fun BIPAddr_Print :: "BIPAddr \<Rightarrow> string" where
  "BIPAddr_Print BIP_NONE = ''(none)''"
| "BIPAddr_Print (BIP_IPV4 ip) =
     (let b = mem32 ip in
      print_base 10 (unat (b ! 0)) @ ''.'' @ print_base 10 (unat (b ! 1)) @ ''.'' @
      print_base 10 (unat (b ! 2)) @ ''.'' @ print_base 10 (unat (b ! 3)))"
| "BIPAddr_Print (BIP_IPV6 ip) =
     (let h = (\<lambda>i. print_base 16 (unat (badvpn_read_be16 (drop i ip)))) in
      h 0 @ '':'' @ h 2 @ '':'' @ h 4 @ '':'' @ h 6 @ '':'' @ h 8 @ '':'' @ h 10 @ '':'' @ h 12 @ '':'' @ h 14)"

text \<open>Packet addresses are only printed by code that is not part of the app.\<close>

fun BAddr_Print :: "BAddr \<Rightarrow> string" where
  "BAddr_Print (BADDR_IPV4 ip port) =
     BIPAddr_Print (BIPAddr_InitIPv4 ip) @ '':'' @ print_base 10 (unat (ntoh16 port))"
| "BAddr_Print (BADDR_IPV6 ip port) =
     BIPAddr_Print (BIPAddr_InitIPv6 ip) @ '':'' @ print_base 10 (unat (ntoh16 port))"
| "BAddr_Print _ = ''(none)''"

text \<open>
  \<open>getaddrinfo v6 noresolve name\<close> stands for the first result of \<^verbatim>\<open>getaddrinfo\<close>: the
  bytes of the address, or \<^const>\<open>None\<close> when it fails.
\<close>

type_synonym resolver = "bool \<Rightarrow> bool \<Rightarrow> string \<Rightarrow> bytes option"

definition BIPAddr_Resolve :: "resolver \<Rightarrow> string \<Rightarrow> bool \<Rightarrow> BIPAddr option" where
  "BIPAddr_Resolve getaddrinfo str noresolve =
     (let len = int (length str);
          v6 = (len \<ge> 1 \<and> str ! 0 = CHR ''['' \<and> str ! (nat (len - 1)) = CHR '']'');
          addr_start = (if v6 then 1 else 0);
          addr_len = (if v6 then len - 2 else len)
      in if addr_len > 128 then None
         else case getaddrinfo v6 noresolve (mem_read addr_start (nat addr_len) str) of
           None \<Rightarrow> None
         | Some a \<Rightarrow> Some (if v6 then BIP_IPV6 a else BIP_IPV4 (rd32 a)))"

text \<open>\<open>name_len = None\<close> stands for a null \<^verbatim>\<open>name\<close>; otherwise the name is returned as well.\<close>

definition BAddr_Parse2 :: "resolver \<Rightarrow> string \<Rightarrow> int option \<Rightarrow> bool \<Rightarrow> (BAddr \<times> string option) option" where
  "BAddr_Parse2 getaddrinfo str name_len noresolve =
     (let len = length str in
      if len < 1 \<or> len > 1000 then None
      else let v6 = (str ! 0 = CHR ''['');
               i = (if v6 then 1 + length (takeWhile (\<lambda>c. c \<noteq> CHR '']'') (drop 1 str))
                    else length (takeWhile (\<lambda>c. c \<noteq> CHR '':'') str)) in
      if i \<ge> len then None
      else if v6 \<and> (i + 1 \<ge> len \<or> str ! (i + 1) \<noteq> CHR '':'') then None
      else let addr_start = (if v6 then 1 else 0);
               addr_len = i - addr_start;
               port_start = (if v6 then i + 2 else i + 1);
               port_len = len - port_start in
      if addr_len \<ge> 128 then None
      else let addr_str = mem_read addr_start addr_len str in
      if port_len \<ge> 6 then None
      else let port_str = mem_read port_start port_len str;
               (conv_res, err) = strtol10 port_str in
      if port_str = [] \<or> err \<noteq> [] then None
      else if conv_res < 0 \<or> conv_res > UINT16_MAX then None
      else let port = hton16 (word_of_int conv_res) in
      case getaddrinfo v6 noresolve addr_str of
        None \<Rightarrow> None
      | Some a \<Rightarrow>
          let addr = (if v6 then BADDR_IPV6 a port else BADDR_IPV4 (rd32 a) port) in
          (case name_len of
             None \<Rightarrow> Some (addr, None)
           | Some n \<Rightarrow> if int (length addr_str) \<ge> n then None else Some (addr, Some addr_str)))"

definition BAddr_Parse :: "resolver \<Rightarrow> string \<Rightarrow> int option \<Rightarrow> (BAddr \<times> string option) option" where
  "BAddr_Parse getaddrinfo str name_len = BAddr_Parse2 getaddrinfo str name_len False"

section \<open>The order on addresses\<close>

text \<open>Socket addresses the program keeps in trees: IP addresses with full-length IPv6 parts.\<close>

fun BAddr_valid :: "BAddr \<Rightarrow> bool" where
  "BAddr_valid BADDR_NONE \<longleftrightarrow> True"
| "BAddr_valid (BADDR_IPV4 ip port) \<longleftrightarrow> True"
| "BAddr_valid (BADDR_IPV6 ip port) \<longleftrightarrow> length ip = 16"
| "BAddr_valid (BADDR_PACKET _ _ _ _ _) \<longleftrightarrow> False"

interpretation addr6: comparator memcmp "\<lambda>_. True"
  by (rule memcmp_comparator)

lemma B_COMPARE_sign: "c = -1 \<or> c = 0 \<or> c = 1 \<Longrightarrow> B_COMPARE c (0 :: int) = c"
  by (auto simp: B_COMPARE_def)

lemma CompareOrder_simps:
  "BAddr_CompareOrder (BADDR_IPV4 ip1 p1) (BADDR_IPV4 ip2 p2) =
     cmp_then (B_COMPARE (ntoh32 ip1) (ntoh32 ip2)) (B_COMPARE (ntoh16 p1) (ntoh16 p2))"
  "BAddr_CompareOrder (BADDR_IPV6 i1 p1) (BADDR_IPV6 i2 p2) =
     cmp_then (memcmp i1 i2) (B_COMPARE (ntoh16 p1) (ntoh16 p2))"
  using addr6.cmp_range [of i1 i2]
  by (auto simp: BAddr_CompareOrder_def B_COMPARE_def cmp_then_def Let_def)

interpretation ip4_port: comparator_pair "B_COMPARE :: u32 \<Rightarrow> u32 \<Rightarrow> int" "\<lambda>_. True" "B_COMPARE :: u16 \<Rightarrow> u16 \<Rightarrow> int" "\<lambda>_. True" ..

interpretation ip6_port: comparator_pair memcmp "\<lambda>_. True" "B_COMPARE :: u16 \<Rightarrow> u16 \<Rightarrow> int" "\<lambda>_. True" ..

interpretation ip4_key: comparator
  "\<lambda>(a :: u32, b :: u16) (c, d). cmp_then (B_COMPARE a c) (B_COMPARE b d)" "\<lambda>(a, b). True \<and> True"
  by (rule ip4_port.pair_comparator)

interpretation ip6_key: comparator
  "\<lambda>(a, b :: u16) (c, d). cmp_then (memcmp a c) (B_COMPARE b d)" "\<lambda>(a, b). True \<and> True"
  by (rule ip6_port.pair_comparator)

lemmas ip4_laws =
  ip4_key.cmp_range [of "(a, b)" "(c, d)" for a b c d, simplified]
  ip4_key.cmp_swap [of "(a, b)" "(c, d)" for a b c d, simplified]
  ip4_key.cmp_eq [of "(a, b)" "(c, d)" for a b c d, simplified]
  ip4_key.cmp_trans [of "(a, b)" "(c, d)" "(e, f)" for a b c d e f, simplified]

lemmas ip6_laws =
  ip6_key.cmp_range [of "(a, b)" "(c, d)" for a b c d, simplified]
  ip6_key.cmp_swap [of "(a, b)" "(c, d)" for a b c d, simplified]
  ip6_key.cmp_eq [of "(a, b)" "(c, d)" for a b c d, simplified]
  ip6_key.cmp_trans [of "(a, b)" "(c, d)" "(e, f)" for a b c d e f, simplified]

lemma CompareOrder_types:
  "BAddr_type a \<noteq> BAddr_type b \<Longrightarrow> BAddr_CompareOrder a b = B_COMPARE (BAddr_type a) (BAddr_type b)"
  "BAddr_CompareOrder BADDR_NONE BADDR_NONE = 0"
  by (auto simp: BAddr_CompareOrder_def B_COMPARE_def Let_def)

interpretation baddr: comparator BAddr_CompareOrder BAddr_valid
proof (unfold_locales, goal_cases)
  case (1 a b)
  then show ?case
    by (cases a; cases b)
      (simp_all add: CompareOrder_types CompareOrder_simps B_COMPARE_def [of "_ :: int"]
        ip4_laws(1) ip6_laws(1))
next
  case (2 a b)
  then show ?case
    by (cases a; cases b)
      (auto simp: CompareOrder_types CompareOrder_simps B_COMPARE_def [of "_ :: int"] intro: ip4_laws(2) ip6_laws(2))
next
  case (3 a b)
  then show ?case
    by (cases a; cases b)
      (auto simp: CompareOrder_types CompareOrder_simps B_COMPARE_def [of "_ :: int"] ip4_laws(3) ip6_laws(3))
next
  case (4 a b c)
  then show ?case
    by (cases a; cases b; cases c)
      (auto simp: CompareOrder_types CompareOrder_simps B_COMPARE_def [of "_ :: int"]
        intro: ip4_laws(4) ip6_laws(4))
qed

section \<open>Decimal numbers\<close>

lemma of_char_digit: "n < 10 \<Longrightarrow> (of_char (digit_char n) :: nat) = 48 + n"
  by (simp add: digit_char_def of_char_of)

lemma print_base_digits: "set (print_base 10 n) \<subseteq> {c. is_digit c}"
  by (induction "10 :: nat" n rule: print_base.induct)
    (subst print_base.simps, auto simp: is_digit_def of_char_digit)

lemma print_base_not_empty: "print_base b n \<noteq> []"
  by (subst print_base.simps) simp

lemma digits_value_print: "digits_value (print_base 10 n) = n"
proof (induction "10 :: nat" n rule: print_base.induct)
  case (1 n)
  show ?case
  proof (cases "n < 10")
    case True
    then show ?thesis by (subst print_base.simps) (simp add: digits_value_def of_char_digit)
  next
    case False
    then have "digits_value (print_base 10 (n div 10)) = n div 10" using 1 by simp
    then show ?thesis using False
      by (subst print_base.simps) (simp add: digits_value_def of_char_digit)
  qed
qed

lemma length_print_base:
  "n < 10 ^ Suc k \<Longrightarrow> length (print_base 10 n) \<le> Suc k"
proof (induction k arbitrary: n)
  case 0
  then show ?case by (subst print_base.simps) simp
next
  case (Suc k)
  then have "length (print_base 10 (n div 10)) \<le> Suc k" by simp
  then show ?case by (subst print_base.simps) simp
qed

lemma digit_not: "is_digit c \<Longrightarrow> \<not> is_space c \<and> c \<noteq> CHR ''-'' \<and> c \<noteq> CHR ''+'' \<and> c \<noteq> CHR '':'' \<and> c \<noteq> CHR ''[''"
  by (auto simp: is_digit_def is_space_def)

lemma strtol10_digits:
  assumes "ds \<noteq> []" "set ds \<subseteq> {c. is_digit c}"
  shows "strtol10 ds = (int (digits_value ds), [])"
proof -
  obtain c r where ds: "ds = c # r" using assms(1) by (cases ds) auto
  have c: "is_digit c" using assms(2) ds by simp
  have "dropWhile is_space ds = ds" using digit_not [OF c] ds by simp
  moreover have "takeWhile is_digit ds = ds" using assms(2) by (auto simp: takeWhile_eq_all_conv)
  ultimately show ?thesis using ds digit_not [OF c] by (simp add: strtol10_def Let_def)
qed

lemma print_ipv4_chars:
  "c \<in> set (BIPAddr_Print (BIP_IPV4 ip)) \<Longrightarrow> is_digit c \<or> c = CHR ''.''"
  using print_base_digits by (auto simp: Let_def)

lemma print_ipv4_length: "length (BIPAddr_Print (BIP_IPV4 ip)) \<le> 15"
proof -
  have "length (print_base 10 (unat (x :: u8))) \<le> 3" for x
  proof -
    have "unat x < 2 ^ 8" by (rule order.strict_trans2 [OF unsigned_less]) simp
    then have "unat x < 10 ^ Suc 2" by simp
    then show ?thesis using length_print_base [of "unat x" 2] by simp
  qed
  from this [of "mem32 ip ! 0"] this [of "mem32 ip ! 1"] this [of "mem32 ip ! 2"] this [of "mem32 ip ! 3"]
  show ?thesis by (simp add: Let_def)
qed

section \<open>Properties\<close>

text \<open>
  C11: \<^verbatim>\<open>BAddr_CompareOrder\<close> is a linear order on socket addresses: the result is -1, 0
  or 1, swapping the arguments negates it, it is 0 only for equal addresses, and \<open><\<close> is
  transitive. The connection trees of the UDP relays rely on this.
\<close>

theorem BAddr_CompareOrder_linear:
  assumes "BAddr_valid a" "BAddr_valid b" "BAddr_valid c"
  shows "BAddr_CompareOrder a b \<in> {-1, 0, 1} \<and> BAddr_CompareOrder b a = - BAddr_CompareOrder a b \<and>
    (BAddr_CompareOrder a b = 0 \<longleftrightarrow> a = b) \<and>
    (BAddr_CompareOrder a b = -1 \<longrightarrow> BAddr_CompareOrder b c = -1 \<longrightarrow> BAddr_CompareOrder a c = -1)"
  using baddr.cmp_range [OF assms(1,2)] baddr.cmp_swap [OF assms(1,2)] baddr.cmp_eq [OF assms(1,2)]
    baddr.cmp_trans [OF assms] by simp

theorem BAddr_CompareOrder_linear_witness:
  "BAddr_CompareOrder (BADDR_IPV4 0x0100000A 1) (BADDR_IPV6 (replicate 16 7) 2) = -1 \<and>
   BAddr_CompareOrder (BADDR_IPV6 (replicate 16 7) 2) (BADDR_IPV4 0x0100000A 1) = 1"
proof -
  have "BAddr_CompareOrder (BADDR_IPV4 0x0100000A 1) (BADDR_IPV6 (replicate 16 7) 2) = -1"
    by (simp add: BAddr_CompareOrder_def B_COMPARE_def)
  then show ?thesis
    using BAddr_CompareOrder_linear [of "BADDR_IPV4 0x0100000A 1" "BADDR_IPV6 (replicate 16 7) 2" BADDR_NONE]
    by simp
qed


definition demo_resolver :: resolver where
  "demo_resolver v6 noresolve name = (if \<not> v6 \<and> name = ''10.0.0.1'' then Some [10, 0, 0, 1] else None)"


end
