(* ===== verification/LinkedList.thy ===== *)
theory LinkedList
  imports Prelude "HOL-Library.Monad_Syntax"
begin

text \<open>
  The intrusive linked lists of badvpn: \<^verbatim>\<open>structure/LinkedList1.h\<close>, which the tun2socks
  clients and the udpgw connections are kept in, and the macro template
  \<^verbatim>\<open>structure/SLinkedList_impl.h\<close>, which the job list is an instance of. The nodes live in
  an explicit store from node addresses to their two link fields, so that the operations
  are the pointer assignments of the source; a null pointer that is followed gives
  \<^term>\<open>None\<close>. The abstraction relates a list object and a store to the HOL list of the
  node addresses, and every operation is shown to run without following a null pointer and
  to implement the operation on HOL lists.
\<close>

section \<open>Nodes and links\<close>

type_synonym ptr = "nat option"

record LinkedList1Node =
  ll_p :: ptr
  ll_n :: ptr

type_synonym nodes = "nat \<Rightarrow> LinkedList1Node"

definition set_p :: "ptr \<Rightarrow> ptr \<Rightarrow> nodes \<Rightarrow> nodes option" where
  "set_p a v h = (case a of None \<Rightarrow> None | Some x \<Rightarrow> Some (h(x := (h x)\<lparr>ll_p := v\<rparr>)))"

definition set_n :: "ptr \<Rightarrow> ptr \<Rightarrow> nodes \<Rightarrow> nodes option" where
  "set_n a v h = (case a of None \<Rightarrow> None | Some x \<Rightarrow> Some (h(x := (h x)\<lparr>ll_n := v\<rparr>)))"

text \<open>The first and the last pointer of a chain, with the pointer that stands there when it is empty.\<close>

definition hd_ptr :: "nat list \<Rightarrow> ptr \<Rightarrow> ptr" where
  "hd_ptr xs q = (case xs of [] \<Rightarrow> q | x # _ \<Rightarrow> Some x)"

definition last_ptr :: "ptr \<Rightarrow> nat list \<Rightarrow> ptr" where
  "last_ptr p xs = (if xs = [] then p else Some (last xs))"

text \<open>The nodes \<open>xs\<close> are chained in both directions, between the outer pointers \<open>p\<close> and \<open>q\<close>.\<close>

primrec links :: "nodes \<Rightarrow> ptr \<Rightarrow> nat list \<Rightarrow> ptr \<Rightarrow> bool" where
  "links h p [] q = True"
| "links h p (x # xs) q = (ll_p (h x) = p \<and> ll_n (h x) = hd_ptr xs q \<and> links h (Some x) xs q)"

lemma hd_ptr_simps [simp]:
  "hd_ptr [] q = q" "hd_ptr (x # xs) q = Some x"
  "hd_ptr (xs @ ys) q = hd_ptr xs (hd_ptr ys q)"
  by (auto simp: hd_ptr_def split: list.splits)

lemma last_ptr_simps [simp]:
  "last_ptr p [] = p" "last_ptr p (x # xs) = last_ptr (Some x) xs"
  "last_ptr p (xs @ ys) = last_ptr (last_ptr p xs) ys"
  by (auto simp: last_ptr_def)

lemma hd_ptr_None [simp]: "hd_ptr xs None = None \<longleftrightarrow> xs = []"
  by (cases xs) auto

lemma last_ptr_None [simp]: "last_ptr None xs = None \<longleftrightarrow> xs = []"
  by (simp add: last_ptr_def)

lemma last_ptr_mem: "last_ptr p xs = Some a \<Longrightarrow> p = Some a \<or> a \<in> set xs"
  by (auto simp: last_ptr_def split: if_splits)

lemma links_append [simp]:
  "links h p (xs @ ys) q \<longleftrightarrow> links h p xs (hd_ptr ys q) \<and> links h (last_ptr p xs) ys q"
  by (induction xs arbitrary: p) auto

text \<open>The links of a chain depend on its own nodes only.\<close>

lemma links_frame [simp]: "x \<notin> set xs \<Longrightarrow> links (h(x := v)) p xs q = links h p xs q"
  by (induction xs arbitrary: p) auto

lemma links_cong: "(\<And>x. x \<in> set xs \<Longrightarrow> h x = h' x) \<Longrightarrow> links h p xs q = links h' p xs q"
  by (induction xs arbitrary: p) auto

text \<open>Relinking the outer pointers of a chain.\<close>

lemma links_relink_p:
  assumes "links h p xs q" "distinct xs" "xs \<noteq> []"
  shows "links (h(hd xs := (h (hd xs))\<lparr>ll_p := p'\<rparr>)) p' xs q"
  using assms by (cases xs) auto

lemma links_relink_n:
  assumes "links h p xs q" "distinct xs" "xs \<noteq> []"
  shows "links (h(last xs := (h (last xs))\<lparr>ll_n := q'\<rparr>)) p xs q'"
proof -
  obtain ys y where "xs = ys @ [y]" using assms(3) by (metis append_butlast_last_id)
  with assms show ?thesis by auto
qed

section \<open>LinkedList1\<close>

record LinkedList1 =
  ll_first :: ptr
  ll_last :: ptr

definition LinkedList1_Init :: LinkedList1 where
  "LinkedList1_Init = \<lparr>ll_first = None, ll_last = None\<rparr>"

definition LinkedList1_IsEmpty :: "LinkedList1 \<Rightarrow> bool" where
  "LinkedList1_IsEmpty l \<longleftrightarrow> ll_first l = None"

definition LinkedList1_GetFirst :: "LinkedList1 \<Rightarrow> ptr" where
  "LinkedList1_GetFirst l = ll_first l"

definition LinkedList1_GetLast :: "LinkedList1 \<Rightarrow> ptr" where
  "LinkedList1_GetLast l = ll_last l"

definition LinkedList1_Prepend :: "LinkedList1 \<Rightarrow> nat \<Rightarrow> nodes \<Rightarrow> (LinkedList1 \<times> nodes) option" where
  "LinkedList1_Prepend l node h = do {
     h \<leftarrow> set_p (Some node) None h;
     h \<leftarrow> set_n (Some node) (ll_first l) h;
     (l, h) \<leftarrow> (if ll_first l \<noteq> None
               then do { h \<leftarrow> set_p (ll_first l) (Some node) h; Some (l, h) }
               else Some (l\<lparr>ll_last := Some node\<rparr>, h));
     Some (l\<lparr>ll_first := Some node\<rparr>, h)
   }"

definition LinkedList1_Append :: "LinkedList1 \<Rightarrow> nat \<Rightarrow> nodes \<Rightarrow> (LinkedList1 \<times> nodes) option" where
  "LinkedList1_Append l node h = do {
     h \<leftarrow> set_p (Some node) (ll_last l) h;
     h \<leftarrow> set_n (Some node) None h;
     (l, h) \<leftarrow> (if ll_last l \<noteq> None
               then do { h \<leftarrow> set_n (ll_last l) (Some node) h; Some (l, h) }
               else Some (l\<lparr>ll_first := Some node\<rparr>, h));
     Some (l\<lparr>ll_last := Some node\<rparr>, h)
   }"

definition LinkedList1_InsertBefore ::
    "LinkedList1 \<Rightarrow> nat \<Rightarrow> nat \<Rightarrow> nodes \<Rightarrow> (LinkedList1 \<times> nodes) option" where
  "LinkedList1_InsertBefore l node target h = do {
     h \<leftarrow> set_p (Some node) (ll_p (h target)) h;
     h \<leftarrow> set_n (Some node) (Some target) h;
     (l, h) \<leftarrow> (if ll_p (h target) \<noteq> None
               then do { h \<leftarrow> set_n (ll_p (h target)) (Some node) h; Some (l, h) }
               else Some (l\<lparr>ll_first := Some node\<rparr>, h));
     h \<leftarrow> set_p (Some target) (Some node) h;
     Some (l, h)
   }"

definition LinkedList1_InsertAfter ::
    "LinkedList1 \<Rightarrow> nat \<Rightarrow> nat \<Rightarrow> nodes \<Rightarrow> (LinkedList1 \<times> nodes) option" where
  "LinkedList1_InsertAfter l node target h = do {
     h \<leftarrow> set_p (Some node) (Some target) h;
     h \<leftarrow> set_n (Some node) (ll_n (h target)) h;
     (l, h) \<leftarrow> (if ll_n (h target) \<noteq> None
               then do { h \<leftarrow> set_p (ll_n (h target)) (Some node) h; Some (l, h) }
               else Some (l\<lparr>ll_last := Some node\<rparr>, h));
     h \<leftarrow> set_n (Some target) (Some node) h;
     Some (l, h)
   }"

definition LinkedList1_Remove :: "LinkedList1 \<Rightarrow> nat \<Rightarrow> nodes \<Rightarrow> (LinkedList1 \<times> nodes) option" where
  "LinkedList1_Remove l node h = do {
     (l, h) \<leftarrow> (if ll_p (h node) \<noteq> None
               then do { h \<leftarrow> set_n (ll_p (h node)) (ll_n (h node)) h; Some (l, h) }
               else Some (l\<lparr>ll_first := ll_n (h node)\<rparr>, h));
     (if ll_n (h node) \<noteq> None
      then do { h \<leftarrow> set_p (ll_n (h node)) (ll_p (h node)) h; Some (l, h) }
      else Some (l\<lparr>ll_last := ll_p (h node)\<rparr>, h))
   }"

definition LinkedList1_InsertListAfter ::
    "LinkedList1 \<Rightarrow> LinkedList1 \<Rightarrow> ptr \<Rightarrow> nodes \<Rightarrow> (LinkedList1 \<times> nodes) option" where
  "LinkedList1_InsertListAfter l ins_list target h =
     (if ll_first ins_list = None then Some (l, h)
      else do {
        let t_next = (case target of Some t \<Rightarrow> ll_n (h t) | None \<Rightarrow> ll_first l);
        h \<leftarrow> set_p (ll_first ins_list) target h;
        h \<leftarrow> set_n (ll_last ins_list) t_next h;
        (l, h) \<leftarrow> (if target \<noteq> None
                  then do { h \<leftarrow> set_n target (ll_first ins_list) h; Some (l, h) }
                  else Some (l\<lparr>ll_first := ll_first ins_list\<rparr>, h));
        (if t_next \<noteq> None
         then do { h \<leftarrow> set_p t_next (ll_last ins_list) h; Some (l, h) }
         else Some (l\<lparr>ll_last := ll_last ins_list\<rparr>, h))
      })"

definition LinkedList1Node_Next :: "nodes \<Rightarrow> nat \<Rightarrow> ptr" where
  "LinkedList1Node_Next h node = ll_n (h node)"

definition LinkedList1Node_Prev :: "nodes \<Rightarrow> nat \<Rightarrow> ptr" where
  "LinkedList1Node_Prev h node = ll_p (h node)"

text \<open>The list object \<open>l\<close> in the store \<open>h\<close> holds the nodes \<open>xs\<close>.\<close>

definition ll_rep :: "LinkedList1 \<Rightarrow> nodes \<Rightarrow> nat list \<Rightarrow> bool" where
  "ll_rep l h xs \<longleftrightarrow> distinct xs \<and> ll_first l = hd_ptr xs None \<and> ll_last l = last_ptr None xs
     \<and> links h None xs None"

text \<open>An operation leaves every node outside of the given ones as it was.\<close>

definition agree_off :: "nat set \<Rightarrow> nodes \<Rightarrow> nodes \<Rightarrow> bool" where
  "agree_off S h h' \<longleftrightarrow> (\<forall>a. a \<notin> S \<longrightarrow> h' a = h a)"

lemma ll_rep_Init [simp]: "ll_rep LinkedList1_Init h []"
  by (simp add: ll_rep_def LinkedList1_Init_def)

lemmas set_link_defs = set_p_def set_n_def

lemma LinkedList1_Prepend_rep:
  assumes "ll_rep l h xs" "x \<notin> set xs"
  shows "\<exists>l' h'. LinkedList1_Prepend l x h = Some (l', h') \<and> ll_rep l' h' (x # xs)
           \<and> agree_off (insert x (set xs)) h h'"
  using assms
  by (cases xs) (auto simp: LinkedList1_Prepend_def ll_rep_def set_link_defs agree_off_def)

lemma LinkedList1_Append_rep:
  assumes "ll_rep l h xs" "x \<notin> set xs"
  shows "\<exists>l' h'. LinkedList1_Append l x h = Some (l', h') \<and> ll_rep l' h' (xs @ [x])
           \<and> agree_off (insert x (set xs)) h h'"
  using assms
  by (cases xs rule: rev_cases) (auto simp: LinkedList1_Append_def ll_rep_def set_link_defs agree_off_def)

lemma LinkedList1_InsertBefore_rep:
  assumes "ll_rep l h (as @ t # bs)" "x \<notin> set (as @ t # bs)"
  shows "\<exists>l' h'. LinkedList1_InsertBefore l x t h = Some (l', h') \<and> ll_rep l' h' (as @ x # t # bs)
           \<and> agree_off (insert x (set (as @ t # bs))) h h'"
  using assms
  by (cases as rule: rev_cases) (auto simp: LinkedList1_InsertBefore_def ll_rep_def set_link_defs agree_off_def)

lemma LinkedList1_InsertAfter_rep:
  assumes "ll_rep l h (as @ t # bs)" "x \<notin> set (as @ t # bs)"
  shows "\<exists>l' h'. LinkedList1_InsertAfter l x t h = Some (l', h') \<and> ll_rep l' h' (as @ t # x # bs)
           \<and> agree_off (insert x (set (as @ t # bs))) h h'"
  using assms
  by (cases bs) (auto simp: LinkedList1_InsertAfter_def ll_rep_def set_link_defs agree_off_def)

lemma LinkedList1_Remove_rep:
  assumes "ll_rep l h (as @ x # bs)"
  shows "\<exists>l' h'. LinkedList1_Remove l x h = Some (l', h') \<and> ll_rep l' h' (as @ bs)
           \<and> agree_off (set (as @ bs)) h h'"
  using assms
  by (cases as rule: rev_cases; cases bs) (auto simp: LinkedList1_Remove_def ll_rep_def set_link_defs agree_off_def)

lemma LinkedList1_InsertListAfter_rep:
  assumes "ll_rep l h (as @ bs)" "ll_rep li h ys" "set ys \<inter> set (as @ bs) = {}"
  shows "\<exists>l' h'. LinkedList1_InsertListAfter l li (last_ptr None as) h = Some (l', h')
           \<and> ll_rep l' h' (as @ ys @ bs) \<and> agree_off (set (as @ ys @ bs)) h h'"
proof (cases "ys = []")
  case True
  with assms show ?thesis by (simp add: LinkedList1_InsertListAfter_def ll_rep_def agree_off_def)
next
  case False
  define f where "f = hd ys"
  define e where "e = last ys"
  have fe: "hd_ptr ys q = Some f" "last_ptr q ys = Some e" "f \<in> set ys" "e \<in> set ys" for q
    using False by (cases ys; simp add: f_def e_def last_ptr_def)+
  define t where "t = last_ptr None as"
  define nx where "nx = hd_ptr bs None"
  have tn: "(case t of Some a \<Rightarrow> ll_n (h a) | None \<Rightarrow> ll_first l) = nx"
    using assms(1) by (cases as rule: rev_cases) (auto simp: t_def nx_def ll_rep_def)
  define h1 where "h1 = h(f := (h f)\<lparr>ll_p := t\<rparr>)"
  define h2 where "h2 = h1(e := (h1 e)\<lparr>ll_n := nx\<rparr>)"
  have "links h1 t ys None"
    using links_relink_p [of h None ys None] assms(2) False by (simp add: ll_rep_def h1_def f_def)
  then have ys: "links h2 t ys nx"
    using links_relink_n [of h1 t ys None] assms(2) False by (simp add: ll_rep_def h2_def e_def)
  have dis: "f \<notin> set as" "f \<notin> set bs" "e \<notin> set as" "e \<notin> set bs" using assms(3) fe by auto
  have as: "links h2 None as nx" "links h2 t bs None"
    using assms(1) dis by (auto simp: h2_def h1_def ll_rep_def t_def nx_def)
  have ag: "agree_off (set ys) h h2" using fe by (auto simp: agree_off_def h1_def h2_def)
  define k where "k = (if t \<noteq> None then do { h \<leftarrow> set_n t (Some f) h2; Some (l, h) }
                       else Some (l\<lparr>ll_first := Some f\<rparr>, h2))"
  have "set_p (Some f) t h = Some h1" "set_n (Some e) nx h1 = Some h2"
    by (simp_all add: set_link_defs h1_def h2_def)
  moreover have "ll_first li = Some f" "ll_last li = Some e"
    using assms(2) fe by (simp_all add: ll_rep_def)
  ultimately have run: "LinkedList1_InsertListAfter l li t h = do {
      (l, h) \<leftarrow> k;
      (if nx \<noteq> None then do { h \<leftarrow> set_p nx (Some e) h; Some (l, h) }
       else Some (l\<lparr>ll_last := Some e\<rparr>, h)) }"
    by (simp add: LinkedList1_InsertListAfter_def tn k_def)
  have d: "distinct ys" "distinct (as @ bs)" "ll_first l = hd_ptr (as @ bs) None"
      "ll_last l = last_ptr None (as @ bs)" using assms(1,2) by (simp_all add: ll_rep_def)
  show ?thesis unfolding t_def [symmetric] run k_def
    using d assms(3) ys as ag fe
    by (cases as rule: rev_cases; cases bs)
       (auto simp: ll_rep_def set_link_defs t_def nx_def agree_off_def)
qed

section \<open>SLinkedList\<close>

text \<open>
  The template without the feature for a last pointer, as its only instance
  \<^verbatim>\<open>BPending__List\<close> is configured. Its nodes have the same two link fields
  (\<^verbatim>\<open>prev\<close> and \<^verbatim>\<open>next\<close>); the \<^verbatim>\<open>prev\<close> field of the first node is
  never read and holds whatever an earlier use left in it.
\<close>

record SLinkedList =
  sl_first :: ptr

definition SLinkedListMarkRemoved :: "nat \<Rightarrow> nodes \<Rightarrow> nodes" where
  "SLinkedListMarkRemoved entry h = h(entry := (h entry)\<lparr>ll_n := Some entry\<rparr>)"

definition SLinkedListIsRemoved :: "nodes \<Rightarrow> nat \<Rightarrow> bool" where
  "SLinkedListIsRemoved h entry \<longleftrightarrow> Some entry = ll_n (h entry)"

definition SLinkedList_Init :: SLinkedList where
  "SLinkedList_Init = \<lparr>sl_first = None\<rparr>"

definition SLinkedList_Next :: "nodes \<Rightarrow> nat \<Rightarrow> ptr" where
  "SLinkedList_Next h entry = ll_n (h entry)"

definition SLinkedList_Prev :: "SLinkedList \<Rightarrow> nodes \<Rightarrow> nat \<Rightarrow> ptr" where
  "SLinkedList_Prev l h entry = (if Some entry = sl_first l then None else ll_p (h entry))"

definition SLinkedList_Prepend :: "SLinkedList \<Rightarrow> nat \<Rightarrow> nodes \<Rightarrow> (SLinkedList \<times> nodes) option" where
  "SLinkedList_Prepend l entry h = do {
     h \<leftarrow> set_n (Some entry) (sl_first l) h;
     h \<leftarrow> (if sl_first l \<noteq> None then set_p (sl_first l) (Some entry) h else Some h);
     Some (l\<lparr>sl_first := Some entry\<rparr>, h)
   }"

definition SLinkedList_InsertBefore ::
    "SLinkedList \<Rightarrow> nat \<Rightarrow> nat \<Rightarrow> nodes \<Rightarrow> (SLinkedList \<times> nodes) option" where
  "SLinkedList_InsertBefore l entry before_entry h = do {
     h \<leftarrow> set_n (Some entry) (Some before_entry) h;
     (l, h) \<leftarrow> (if Some before_entry \<noteq> sl_first l
               then do {
                 h \<leftarrow> set_p (Some entry) (ll_p (h before_entry)) h;
                 h \<leftarrow> set_n (ll_p (h before_entry)) (Some entry) h;
                 Some (l, h) }
               else Some (l\<lparr>sl_first := Some entry\<rparr>, h));
     h \<leftarrow> set_p (Some before_entry) (Some entry) h;
     Some (l, h)
   }"

definition SLinkedList_InsertAfter ::
    "SLinkedList \<Rightarrow> nat \<Rightarrow> nat \<Rightarrow> nodes \<Rightarrow> (SLinkedList \<times> nodes) option" where
  "SLinkedList_InsertAfter l entry after_entry h = do {
     h \<leftarrow> set_n (Some entry) (ll_n (h after_entry)) h;
     h \<leftarrow> set_p (Some entry) (Some after_entry) h;
     h \<leftarrow> (if ll_n (h after_entry) \<noteq> None then set_p (ll_n (h after_entry)) (Some entry) h else Some h);
     h \<leftarrow> set_n (Some after_entry) (Some entry) h;
     Some (l, h)
   }"

definition SLinkedList_Remove :: "SLinkedList \<Rightarrow> nat \<Rightarrow> nodes \<Rightarrow> (SLinkedList \<times> nodes) option" where
  "SLinkedList_Remove l entry h =
     (if Some entry \<noteq> sl_first l
      then do {
        h \<leftarrow> set_n (ll_p (h entry)) (ll_n (h entry)) h;
        h \<leftarrow> (if ll_n (h entry) \<noteq> None then set_p (ll_n (h entry)) (ll_p (h entry)) h else Some h);
        Some (l, h) }
      else Some (l\<lparr>sl_first := ll_n (h entry)\<rparr>, h))"

definition SLinkedList_RemoveFirst :: "SLinkedList \<Rightarrow> nodes \<Rightarrow> SLinkedList option" where
  "SLinkedList_RemoveFirst l h = do { f \<leftarrow> sl_first l; Some (l\<lparr>sl_first := ll_n (h f)\<rparr>) }"

definition SLinkedList_First :: "SLinkedList \<Rightarrow> ptr" where
  "SLinkedList_First l = sl_first l"

definition SLinkedList_IsEmpty :: "SLinkedList \<Rightarrow> bool" where
  "SLinkedList_IsEmpty l \<longleftrightarrow> sl_first l = None"

definition sl_rep :: "SLinkedList \<Rightarrow> nodes \<Rightarrow> nat list \<Rightarrow> bool" where
  "sl_rep l h xs \<longleftrightarrow> distinct xs \<and> sl_first l = hd_ptr xs None \<and> (\<exists>p. links h p xs None)"

lemma sl_rep_Init [simp]: "sl_rep SLinkedList_Init h []"
  by (simp add: sl_rep_def SLinkedList_Init_def)

lemma sl_rep_frame: "sl_rep l h xs \<Longrightarrow> agree_off S h h' \<Longrightarrow> S \<inter> set xs = {} \<Longrightarrow> sl_rep l h' xs"
  unfolding sl_rep_def agree_off_def by (metis disjoint_iff links_cong)

lemma SLinkedList_Prepend_rep:
  assumes "sl_rep l h xs" "x \<notin> set xs"
  shows "\<exists>l' h'. SLinkedList_Prepend l x h = Some (l', h') \<and> sl_rep l' h' (x # xs)
           \<and> agree_off (insert x (set xs)) h h' \<and> (\<forall>a. a \<noteq> x \<longrightarrow> ll_n (h' a) = ll_n (h a))
           \<and> ll_n (h' x) = hd_ptr xs None"
  using assms
  by (cases xs) (auto simp: SLinkedList_Prepend_def sl_rep_def set_link_defs agree_off_def)

lemma SLinkedList_InsertBefore_rep:
  assumes "sl_rep l h (as @ t # bs)" "x \<notin> set (as @ t # bs)"
  shows "\<exists>l' h'. SLinkedList_InsertBefore l x t h = Some (l', h') \<and> sl_rep l' h' (as @ x # t # bs)
           \<and> agree_off (insert x (set (as @ t # bs))) h h'"
proof (cases as rule: rev_cases)
  case Nil
  with assms show ?thesis
    by (auto simp: SLinkedList_InsertBefore_def sl_rep_def set_link_defs agree_off_def)
next
  case (snoc as' a)
  then have "hd_ptr (as @ t # bs) None \<noteq> Some t"
    using assms by (cases as') (auto simp: sl_rep_def)
  with snoc assms show ?thesis
    by (auto simp: SLinkedList_InsertBefore_def sl_rep_def set_link_defs agree_off_def)
qed

lemma SLinkedList_InsertAfter_rep:
  assumes "sl_rep l h (as @ t # bs)" "x \<notin> set (as @ t # bs)"
  shows "\<exists>l' h'. SLinkedList_InsertAfter l x t h = Some (l', h') \<and> sl_rep l' h' (as @ t # x # bs)
           \<and> agree_off (insert x (set (as @ t # bs))) h h'"
  using assms
  by (cases bs) (auto simp: SLinkedList_InsertAfter_def sl_rep_def set_link_defs agree_off_def)

lemma SLinkedList_Remove_rep:
  assumes "sl_rep l h (as @ x # bs)"
  shows "\<exists>l' h'. SLinkedList_Remove l x h = Some (l', h') \<and> sl_rep l' h' (as @ bs)
           \<and> agree_off (set (as @ bs)) h h'"
proof (cases as rule: rev_cases)
  case Nil
  with assms show ?thesis by (auto simp: SLinkedList_Remove_def sl_rep_def agree_off_def)
next
  case (snoc as' a)
  then have "hd_ptr (as @ x # bs) None \<noteq> Some x"
    using assms by (cases as') (auto simp: sl_rep_def)
  with snoc assms show ?thesis
    by (cases bs) (auto simp: SLinkedList_Remove_def sl_rep_def set_link_defs agree_off_def)
qed

lemma SLinkedList_RemoveFirst_rep:
  assumes "sl_rep l h (x # xs)"
  shows "\<exists>l'. SLinkedList_RemoveFirst l h = Some l' \<and> sl_rep l' h xs"
  using assms by (auto simp: SLinkedList_RemoveFirst_def sl_rep_def)

text \<open>No node of a list is marked as removed: the mark is a link of the node to itself.\<close>

lemma sl_rep_not_removed: "sl_rep l h xs \<Longrightarrow> x \<in> set xs \<Longrightarrow> \<not> SLinkedListIsRemoved h x"
proof -
  assume "sl_rep l h xs" "x \<in> set xs"
  moreover from \<open>x \<in> set xs\<close> obtain as bs where "xs = as @ x # bs" by (auto simp: in_set_conv_decomp)
  ultimately show ?thesis by (cases bs) (auto simp: sl_rep_def SLinkedListIsRemoved_def)
qed

section \<open>The contract of a linked list\<close>

datatype list_op =
    Op_Prepend nat
  | Op_Append nat
  | Op_InsertBefore nat nat
  | Op_InsertAfter nat nat
  | Op_Remove nat

text \<open>The operations on HOL lists; \<^term>\<open>None\<close> where the caller breaks the precondition.\<close>

fun list_op_abs :: "list_op \<Rightarrow> nat list \<Rightarrow> nat list option" where
  "list_op_abs (Op_Prepend x) xs = (if x \<in> set xs then None else Some (x # xs))"
| "list_op_abs (Op_Append x) xs = (if x \<in> set xs then None else Some (xs @ [x]))"
| "list_op_abs (Op_InsertBefore x t) xs =
     (if x \<in> set xs \<or> t \<notin> set xs then None
      else Some (takeWhile (\<lambda>y. y \<noteq> t) xs @ x # dropWhile (\<lambda>y. y \<noteq> t) xs))"
| "list_op_abs (Op_InsertAfter x t) xs =
     (if x \<in> set xs \<or> t \<notin> set xs then None
      else Some (takeWhile (\<lambda>y. y \<noteq> t) xs @ t # x # tl (dropWhile (\<lambda>y. y \<noteq> t) xs)))"
| "list_op_abs (Op_Remove x) xs = (if x \<in> set xs then Some (remove1 x xs) else None)"

primrec list_ops_abs :: "list_op list \<Rightarrow> nat list \<Rightarrow> nat list option" where
  "list_ops_abs [] xs = Some xs"
| "list_ops_abs (oper # ops) xs = do { ys \<leftarrow> list_op_abs oper xs; list_ops_abs ops ys }"

primrec op_node :: "list_op \<Rightarrow> nat" where
  "op_node (Op_Prepend x) = x"
| "op_node (Op_Append x) = x"
| "op_node (Op_InsertBefore x t) = x"
| "op_node (Op_InsertAfter x t) = x"
| "op_node (Op_Remove x) = x"

primrec run_list_ops ::
    "(list_op \<Rightarrow> 'l \<Rightarrow> nodes \<Rightarrow> ('l \<times> nodes) option) \<Rightarrow> list_op list \<Rightarrow> 'l \<Rightarrow> nodes \<Rightarrow> ('l \<times> nodes) option" where
  "run_list_ops f [] l h = Some (l, h)"
| "run_list_ops f (oper # ops) l h = do { (l, h) \<leftarrow> f oper l h; run_list_ops f ops l h }"

text \<open>The loop that visits a list from a node on, for at most the given number of nodes.\<close>

fun walk :: "nat \<Rightarrow> (nat \<Rightarrow> ptr) \<Rightarrow> ptr \<Rightarrow> nat list" where
  "walk (Suc k) nx (Some x) = x # walk k nx (nx x)"
| "walk k nx p = []"

lemma walk_None [simp]: "walk k nx None = []"
  by (cases k) auto

text \<open>A list is split at the first occurrence of a member.\<close>

lemma split_at_member:
  assumes "t \<in> set xs"
  obtains as bs where "xs = as @ t # bs" "takeWhile (\<lambda>y. y \<noteq> t) xs = as"
    "dropWhile (\<lambda>y. y \<noteq> t) xs = t # bs" "remove1 t xs = as @ bs"
proof -
  from assms obtain as bs where s: "xs = as @ t # bs" "t \<notin> set as"
    by (blast dest: split_list_first)
  then have "\<forall>x\<in>set as. x \<noteq> t" by auto
  then have "takeWhile (\<lambda>y. y \<noteq> t) xs = as" "dropWhile (\<lambda>y. y \<noteq> t) xs = t # bs"
    unfolding s(1) by (simp_all add: takeWhile_append2 dropWhile_append2)
  moreover have "remove1 t xs = as @ bs" using s by (simp add: remove1_append)
  ultimately show thesis by (rule that [OF s(1)])
qed

lemma set_list_op_abs:
  assumes "list_op_abs oper xs = Some ys"
  shows "set ys \<subseteq> insert (op_node oper) (set xs)"
proof (cases oper)
  case (Op_InsertBefore x t)
  with assms have "t \<in> set xs" by (auto split: if_splits)
  then obtain as bs where "xs = as @ t # bs" "takeWhile (\<lambda>y. y \<noteq> t) xs = as"
    "dropWhile (\<lambda>y. y \<noteq> t) xs = t # bs" by (rule split_at_member)
  with Op_InsertBefore assms show ?thesis by (auto split: if_splits)
next
  case (Op_InsertAfter x t)
  with assms have "t \<in> set xs" by (auto split: if_splits)
  then obtain as bs where "xs = as @ t # bs" "takeWhile (\<lambda>y. y \<noteq> t) xs = as"
    "dropWhile (\<lambda>y. y \<noteq> t) xs = t # bs" by (rule split_at_member)
  with Op_InsertAfter assms show ?thesis by (auto split: if_splits)
qed (use assms in \<open>auto split: if_splits dest: notin_set_remove1\<close>)

lemma agree_off_trans:
  "agree_off A h h1 \<Longrightarrow> agree_off B h1 h2 \<Longrightarrow> A \<subseteq> C \<Longrightarrow> B \<subseteq> C \<Longrightarrow> agree_off C h h2"
  unfolding agree_off_def by (metis subsetD)

locale linked_list =
  fixes rep :: "'l \<Rightarrow> nodes \<Rightarrow> nat list \<Rightarrow> bool"
    and first :: "'l \<Rightarrow> ptr"
    and nxt :: "nodes \<Rightarrow> nat \<Rightarrow> ptr"
    and prv :: "'l \<Rightarrow> nodes \<Rightarrow> nat \<Rightarrow> ptr"
    and supports :: "list_op \<Rightarrow> bool"
    and oper_do :: "list_op \<Rightarrow> 'l \<Rightarrow> nodes \<Rightarrow> ('l \<times> nodes) option"
  assumes first_rep: "rep l h xs \<Longrightarrow> first l = hd_ptr xs None"
    and nxt_rep: "rep l h (as @ x # bs) \<Longrightarrow> nxt h x = hd_ptr bs None"
    and prv_rep: "rep l h (as @ x # bs) \<Longrightarrow> prv l h x = last_ptr None as"
    and oper_rep: "rep l h xs \<Longrightarrow> supports oper \<Longrightarrow> list_op_abs oper xs = Some ys \<Longrightarrow>
          \<exists>l' h'. oper_do oper l h = Some (l', h') \<and> rep l' h' ys
            \<and> agree_off (insert (op_node oper) (set xs)) h h'"
begin

lemma run_rep:
  assumes "rep l h xs" "\<forall>oper\<in>set ops. supports oper" "list_ops_abs ops xs = Some ys"
  shows "\<exists>l' h'. run_list_ops oper_do ops l h = Some (l', h') \<and> rep l' h' ys
           \<and> agree_off (op_node ` set ops \<union> set xs) h h'"
  using assms
proof (induction ops arbitrary: l h xs)
  case Nil
  then show ?case by (simp add: agree_off_def)
next
  case (Cons oper ops)
  from Cons.prems(3) obtain zs where zs: "list_op_abs oper xs = Some zs" "list_ops_abs ops zs = Some ys"
    by (auto simp: bind_eq_Some_conv)
  from oper_rep [OF Cons.prems(1) _ zs(1)] Cons.prems(2)
  obtain l1 h1 where 1: "oper_do oper l h = Some (l1, h1)" "rep l1 h1 zs"
      "agree_off (insert (op_node oper) (set xs)) h h1" by auto
  from Cons.IH [OF 1(2) _ zs(2)] Cons.prems(2)
  obtain l2 h2 where 2: "run_list_ops oper_do ops l1 h1 = Some (l2, h2)" "rep l2 h2 ys"
      "agree_off (op_node ` set ops \<union> set zs) h1 h2" by auto
  have "agree_off (op_node ` set (oper # ops) \<union> set xs) h h2"
    using set_list_op_abs [OF zs(1)] by (intro agree_off_trans [OF 1(3) 2(3)]) auto
  with 1 2 show ?case by auto
qed

lemma walk_suffix: "rep l h (as @ bs) \<Longrightarrow> length bs \<le> k \<Longrightarrow> walk k (nxt h) (hd_ptr bs None) = bs"
proof (induction bs arbitrary: as k)
  case (Cons b bs)
  then obtain k' where "k = Suc k'" by (cases k) auto
  with Cons.IH [of "as @ [b]" k'] Cons.prems nxt_rep [of l h as b bs] show ?case by simp
qed simp

lemma walk_first: "rep l h xs \<Longrightarrow> length xs \<le> k \<Longrightarrow> walk k (nxt h) (first l) = xs"
  using walk_suffix [of l h "[]" xs] by (simp add: first_rep)

lemma walk_back: "rep l h (as @ bs) \<Longrightarrow> length as \<le> k \<Longrightarrow> walk k (prv l h) (last_ptr None as) = rev as"
proof (induction as arbitrary: bs k rule: rev_induct)
  case (snoc a as)
  then obtain k' where "k = Suc k'" by (cases k) auto
  with snoc.IH [of "a # bs" k'] snoc.prems prv_rep [of l h as a bs] show ?case by simp
qed simp

end

primrec LinkedList1_do :: "list_op \<Rightarrow> LinkedList1 \<Rightarrow> nodes \<Rightarrow> (LinkedList1 \<times> nodes) option" where
  "LinkedList1_do (Op_Prepend x) l h = LinkedList1_Prepend l x h"
| "LinkedList1_do (Op_Append x) l h = LinkedList1_Append l x h"
| "LinkedList1_do (Op_InsertBefore x t) l h = LinkedList1_InsertBefore l x t h"
| "LinkedList1_do (Op_InsertAfter x t) l h = LinkedList1_InsertAfter l x t h"
| "LinkedList1_do (Op_Remove x) l h = LinkedList1_Remove l x h"

text \<open>The template has no append without the last pointer.\<close>

primrec SLinkedList_do :: "list_op \<Rightarrow> SLinkedList \<Rightarrow> nodes \<Rightarrow> (SLinkedList \<times> nodes) option" where
  "SLinkedList_do (Op_Prepend x) l h = SLinkedList_Prepend l x h"
| "SLinkedList_do (Op_Append x) l h = None"
| "SLinkedList_do (Op_InsertBefore x t) l h = SLinkedList_InsertBefore l x t h"
| "SLinkedList_do (Op_InsertAfter x t) l h = SLinkedList_InsertAfter l x t h"
| "SLinkedList_do (Op_Remove x) l h = SLinkedList_Remove l x h"

definition not_append :: "list_op \<Rightarrow> bool" where
  "not_append oper = (case oper of Op_Append x \<Rightarrow> False | _ \<Rightarrow> True)"

interpretation ll1: linked_list ll_rep LinkedList1_GetFirst LinkedList1Node_Next "\<lambda>l. LinkedList1Node_Prev"
    "\<lambda>oper. True" LinkedList1_do
proof
  fix l h xs oper ys
  assume rep: "ll_rep l h xs" and ab: "list_op_abs oper xs = Some ys"
  show "\<exists>l' h'. LinkedList1_do oper l h = Some (l', h') \<and> ll_rep l' h' ys
          \<and> agree_off (insert (op_node oper) (set xs)) h h'"
  proof (cases oper)
    case (Op_Prepend x)
    with rep ab LinkedList1_Prepend_rep [of l h xs x] show ?thesis by (auto split: if_splits)
  next
    case (Op_Append x)
    with rep ab LinkedList1_Append_rep [of l h xs x] show ?thesis by (auto split: if_splits)
  next
    case (Op_InsertBefore x t)
    with ab have "t \<in> set xs" by (auto split: if_splits)
    then show ?thesis using Op_InsertBefore rep ab LinkedList1_InsertBefore_rep [of l h _ t _ x]
      by (elim split_at_member) (auto split: if_splits)
  next
    case (Op_InsertAfter x t)
    with ab have "t \<in> set xs" by (auto split: if_splits)
    then show ?thesis using Op_InsertAfter rep ab LinkedList1_InsertAfter_rep [of l h _ t _ x]
      by (elim split_at_member) (auto split: if_splits)
  next
    case (Op_Remove x)
    with ab have "x \<in> set xs" by (auto split: if_splits)
    then obtain as bs where s: "xs = as @ x # bs" "remove1 x xs = as @ bs" by (rule split_at_member)
    with Op_Remove ab have "ys = as @ bs" by simp
    with LinkedList1_Remove_rep [of l h as x bs] rep s Op_Remove show ?thesis
      by (auto simp: agree_off_def)
  qed
qed (auto simp: ll_rep_def LinkedList1_GetFirst_def LinkedList1Node_Next_def LinkedList1Node_Prev_def)

interpretation sll: linked_list sl_rep SLinkedList_First SLinkedList_Next SLinkedList_Prev
    not_append SLinkedList_do
proof
  fix l h xs oper ys
  assume rep: "sl_rep l h xs" and na: "not_append oper" and ab: "list_op_abs oper xs = Some ys"
  show "\<exists>l' h'. SLinkedList_do oper l h = Some (l', h') \<and> sl_rep l' h' ys
          \<and> agree_off (insert (op_node oper) (set xs)) h h'"
  proof (cases oper)
    case (Op_Prepend x)
    with rep ab SLinkedList_Prepend_rep [of l h xs x] show ?thesis by (auto split: if_splits)
  next
    case (Op_Append x)
    with na show ?thesis by (simp add: not_append_def)
  next
    case (Op_InsertBefore x t)
    with ab have "t \<in> set xs" by (auto split: if_splits)
    then show ?thesis using Op_InsertBefore rep ab SLinkedList_InsertBefore_rep [of l h _ t _ x]
      by (elim split_at_member) (auto split: if_splits)
  next
    case (Op_InsertAfter x t)
    with ab have "t \<in> set xs" by (auto split: if_splits)
    then show ?thesis using Op_InsertAfter rep ab SLinkedList_InsertAfter_rep [of l h _ t _ x]
      by (elim split_at_member) (auto split: if_splits)
  next
    case (Op_Remove x)
    with ab have "x \<in> set xs" by (auto split: if_splits)
    then obtain as bs where s: "xs = as @ x # bs" "remove1 x xs = as @ bs" by (rule split_at_member)
    with Op_Remove ab have "ys = as @ bs" by simp
    with SLinkedList_Remove_rep [of l h as x bs] rep s Op_Remove show ?thesis
      by (auto simp: agree_off_def)
  qed
next
  fix l h as x bs
  assume "sl_rep l h (as @ x # bs)"
  then show "SLinkedList_Prev l h x = last_ptr None as"
    by (cases as) (auto simp: sl_rep_def SLinkedList_Prev_def last_ptr_def)
qed (auto simp: sl_rep_def SLinkedList_First_def SLinkedList_Next_def)

text \<open>
  C23: every sequence of operations on a \<^verbatim>\<open>LinkedList1\<close> whose preconditions hold runs without
  following a null pointer; walking the list forward from \<^verbatim>\<open>LinkedList1_GetFirst\<close> then
  visits exactly the nodes of the list that the operations describe, walking it back from
  \<^verbatim>\<open>LinkedList1_GetLast\<close> visits them in reverse, the emptiness test is right, and no node
  that was never inserted is written.
\<close>

theorem LinkedList1_refines_list:
  assumes "list_ops_abs ops [] = Some ys" and "length ys \<le> k"
  shows "\<exists>l h'. run_list_ops LinkedList1_do ops LinkedList1_Init h = Some (l, h')
    \<and> walk k (LinkedList1Node_Next h') (LinkedList1_GetFirst l) = ys
    \<and> walk k (LinkedList1Node_Prev h') (LinkedList1_GetLast l) = rev ys
    \<and> (LinkedList1_IsEmpty l \<longleftrightarrow> ys = [])
    \<and> agree_off (op_node ` set ops) h h'"
proof -
  from ll1.run_rep [OF ll_rep_Init _ assms(1), of h]
  obtain l h' where r: "run_list_ops LinkedList1_do ops LinkedList1_Init h = Some (l, h')"
      "ll_rep l h' ys" "agree_off (op_node ` set ops) h h'" by auto
  have "LinkedList1_GetLast l = last_ptr None ys" "LinkedList1_IsEmpty l \<longleftrightarrow> ys = []"
    using r(2) by (simp_all add: ll_rep_def LinkedList1_GetLast_def LinkedList1_IsEmpty_def)
  with r ll1.walk_first [OF r(2) assms(2)] ll1.walk_back [of l h' ys "[]" k] assms(2) show ?thesis by simp
qed

theorem LinkedList1_refines_list_witness:
  "list_ops_abs [Op_Append 1, Op_Prepend 2, Op_InsertAfter 3 2, Op_InsertBefore 4 1, Op_Remove 2] [] = Some [3, 4, 1]
   \<and> (\<exists>l h'. run_list_ops LinkedList1_do [Op_Append 1, Op_Prepend 2, Op_InsertAfter 3 2, Op_InsertBefore 4 1, Op_Remove 2]
          LinkedList1_Init (\<lambda>_. \<lparr>ll_p = None, ll_n = None\<rparr>) = Some (l, h')
      \<and> walk 5 (LinkedList1Node_Prev h') (LinkedList1_GetLast l) = [1, 4, 3])"
proof -
  have a: "list_ops_abs [Op_Append 1, Op_Prepend 2, Op_InsertAfter 3 2, Op_InsertBefore 4 1, Op_Remove 2] [] = Some [3, 4, 1]"
    by code_simp
  show ?thesis using a LinkedList1_refines_list [OF a, of 5 "\<lambda>_. \<lparr>ll_p = None, ll_n = None\<rparr>"]
    by (simp del: run_list_ops.simps list_ops_abs.simps) blast
qed

text \<open>
  C24: \<^verbatim>\<open>LinkedList1_InsertListAfter\<close> splices a whole list, whose nodes are not in the target
  list, behind the given node (at the front for a null pointer): afterwards the walk visits the
  nodes up to the given one, then the inserted ones in their order, then the rest.
\<close>

theorem LinkedList1_InsertListAfter_splices:
  assumes "ll_rep l h (as @ bs)" "ll_rep li h ys" "set ys \<inter> set (as @ bs) = {}"
  shows "\<exists>l' h'. LinkedList1_InsertListAfter l li (last_ptr None as) h = Some (l', h')
    \<and> walk (length (as @ ys @ bs)) (LinkedList1Node_Next h') (LinkedList1_GetFirst l') = as @ ys @ bs
    \<and> ll_rep l' h' (as @ ys @ bs)"
  using LinkedList1_InsertListAfter_rep [OF assms] ll1.walk_first by blast

theorem LinkedList1_InsertListAfter_splices_witness:
  "\<exists>l h li h2. run_list_ops LinkedList1_do [Op_Append 1, Op_Append 2] LinkedList1_Init (\<lambda>_. \<lparr>ll_p = None, ll_n = None\<rparr>) = Some (l, h)
     \<and> run_list_ops LinkedList1_do [Op_Append 3, Op_Append 4] LinkedList1_Init h = Some (li, h2)
     \<and> (\<exists>l' h'. LinkedList1_InsertListAfter l li (Some 1) h2 = Some (l', h')
          \<and> walk 4 (LinkedList1Node_Next h') (LinkedList1_GetFirst l') = [1, 3, 4, 2])"
proof -
  let ?h0 = "\<lambda>_. \<lparr>ll_p = None, ll_n = None\<rparr>"
  from ll1.run_rep [OF ll_rep_Init, of "[Op_Append 1, Op_Append 2]" "[1, 2]" ?h0]
  obtain l h where 1: "run_list_ops LinkedList1_do [Op_Append 1, Op_Append 2] LinkedList1_Init ?h0 = Some (l, h)"
      "ll_rep l h [1, 2]" by auto
  from ll1.run_rep [OF ll_rep_Init, of "[Op_Append 3, Op_Append 4]" "[3, 4]" h]
  obtain li h2 where 2: "run_list_ops LinkedList1_do [Op_Append 3, Op_Append 4] LinkedList1_Init h = Some (li, h2)"
      "ll_rep li h2 [3, 4]" "agree_off {3, 4} h h2" by auto
  have "ll_rep l h2 ([1] @ [2])" using 1(2) 2(3) by (simp add: ll_rep_def agree_off_def)
  from LinkedList1_InsertListAfter_splices [OF this 2(2)] 1(1) 2(1) show ?thesis
    by (auto simp: numeral_eq_Suc)
qed

end
