(* ===== verification/Simulation.thy ===== *)
theory Simulation
  imports Main "HOL-Library.Monad_Syntax"
begin

text \<open>
  Forward simulation between a model of the code, whose steps may fail, and an abstract
  specification, whose steps are undefined where a caller breaks a precondition. The lifting
  from single operations to sequences of operations is proved once, for every component that
  is related to a specification in this way.
\<close>

primrec run_opt :: "('o \<Rightarrow> 'c \<Rightarrow> 'c option) \<Rightarrow> 'o list \<Rightarrow> 'c \<Rightarrow> 'c option" where
  "run_opt f [] c = Some c"
| "run_opt f (x # xs) c = do { c \<leftarrow> f x c; run_opt f xs c }"

lemma run_opt_append: "run_opt f (xs @ ys) c = do { c \<leftarrow> run_opt f xs c; run_opt f ys c }"
  by (induction xs arbitrary: c) (auto split: bind_splits)

lemma run_opt_invariant:
  assumes "\<And>x c c'. x \<in> set xs \<Longrightarrow> P c \<Longrightarrow> f x c = Some c' \<Longrightarrow> P c'"
    and "P c" "run_opt f xs c = Some c'"
  shows "P c'"
  using assms
proof (induction xs arbitrary: c)
  case (Cons x xs)
  from Cons.prems(3) obtain d where d: "f x c = Some d" "run_opt f xs d = Some c'"
    by (auto simp: bind_eq_Some_conv)
  from Cons.prems(1) [of x c d] d(1) Cons.prems(2) have "P d" by simp
  from Cons.IH [OF _ this d(2)] Cons.prems(1) show ?case by (meson list.set_intros(2))
qed simp

locale simulation =
  fixes rel :: "'c \<Rightarrow> 'a \<Rightarrow> bool"
    and cstep :: "'o \<Rightarrow> 'c \<Rightarrow> 'c option"
    and astep :: "'o \<Rightarrow> 'a \<Rightarrow> 'a option"
  assumes step_rel: "rel c a \<Longrightarrow> astep x a = Some a' \<Longrightarrow> \<exists>c'. cstep x c = Some c' \<and> rel c' a'"
begin

lemma run_rel:
  "rel c a \<Longrightarrow> run_opt astep xs a = Some a' \<Longrightarrow> \<exists>c'. run_opt cstep xs c = Some c' \<and> rel c' a'"
proof (induction xs arbitrary: c a)
  case (Cons x xs)
  from Cons.prems(2) obtain b where b: "astep x a = Some b" "run_opt astep xs b = Some a'"
    by (auto simp: bind_eq_Some_conv)
  from step_rel [OF Cons.prems(1) b(1)] obtain d where "cstep x c = Some d" "rel d b" by blast
  with Cons.IH [OF _ b(2)] show ?case by auto
qed simp

lemma run_rel_from:
  assumes "rel c a" "run_opt astep xs a = Some a'"
  obtains c' where "run_opt cstep xs c = Some c'" "rel c' a'"
  using run_rel [OF assms] by blast

end

end
