(* ===== verification/BPending.thy ===== *)
theory BPending
  imports LinkedList Simulation "HOL-Library.Multiset"
begin

text \<open>
  The job list of the event loop: \<^verbatim>\<open>base/BPending.c\<close> on top of the linked list
  template, and \<^verbatim>\<open>BReactor_Synchronize\<close> of \<^verbatim>\<open>system/BReactor_badvpn.c\<close>, which runs
  jobs until a given one is next. A job is named by the address of its
  \<^verbatim>\<open>BSmallPending\<close> object; the pair of its handler and its user pointer is a value of an
  arbitrary type, and what the handlers do is a parameter, which tells the calls that a
  handler makes on the job list. The abstract job list is a stack of jobs, and the
  pointer structure is shown to implement it: no null pointer is followed and every query
  has the right answer. Synchronizing is shown to return, to run only jobs above the
  reference, and to leave what is below it alone.
\<close>

section \<open>The job list\<close>

record 'h BPendingGroup =
  pg_jobs :: SLinkedList
  pg_nodes :: nodes
  pg_handler :: "nat \<Rightarrow> 'h"

definition BPendingGroup_Init :: "'h BPendingGroup \<Rightarrow> 'h BPendingGroup" where
  "BPendingGroup_Init g = g\<lparr>pg_jobs := SLinkedList_Init\<rparr>"

definition BPendingGroup_HasJobs :: "'h BPendingGroup \<Rightarrow> bool" where
  "BPendingGroup_HasJobs g \<longleftrightarrow> \<not> SLinkedList_IsEmpty (pg_jobs g)"

definition BPendingGroup_PeekJob :: "'h BPendingGroup \<Rightarrow> ptr" where
  "BPendingGroup_PeekJob g = SLinkedList_First (pg_jobs g)"

definition BSmallPending_SetHandler :: "nat \<Rightarrow> 'h \<Rightarrow> 'h BPendingGroup \<Rightarrow> 'h BPendingGroup" where
  "BSmallPending_SetHandler x handler g = g\<lparr>pg_handler := (pg_handler g)(x := handler)\<rparr>"

definition pg_mark_removed :: "nat \<Rightarrow> 'h BPendingGroup \<Rightarrow> 'h BPendingGroup" where
  "pg_mark_removed x g = g\<lparr>pg_nodes := SLinkedListMarkRemoved x (pg_nodes g)\<rparr>"

definition BSmallPending_Init :: "nat \<Rightarrow> 'h \<Rightarrow> 'h BPendingGroup \<Rightarrow> 'h BPendingGroup" where
  "BSmallPending_Init x handler g =
     (let g = g\<lparr>pg_handler := (pg_handler g)(x := handler)\<rparr> in pg_mark_removed x g)"

definition pg_list_remove :: "nat \<Rightarrow> 'h BPendingGroup \<Rightarrow> 'h BPendingGroup option" where
  "pg_list_remove x g = do {
     (l, h) \<leftarrow> SLinkedList_Remove (pg_jobs g) x (pg_nodes g);
     Some (g\<lparr>pg_jobs := l, pg_nodes := h\<rparr>)
   }"

definition pg_list_prepend :: "nat \<Rightarrow> 'h BPendingGroup \<Rightarrow> 'h BPendingGroup option" where
  "pg_list_prepend x g = do {
     (l, h) \<leftarrow> SLinkedList_Prepend (pg_jobs g) x (pg_nodes g);
     Some (g\<lparr>pg_jobs := l, pg_nodes := h\<rparr>)
   }"

definition BSmallPending_IsSet :: "nat \<Rightarrow> 'h BPendingGroup \<Rightarrow> bool" where
  "BSmallPending_IsSet x g \<longleftrightarrow> \<not> SLinkedListIsRemoved (pg_nodes g) x"

definition BSmallPending_Free :: "nat \<Rightarrow> 'h BPendingGroup \<Rightarrow> 'h BPendingGroup option" where
  "BSmallPending_Free x g =
     (if \<not> SLinkedListIsRemoved (pg_nodes g) x then pg_list_remove x g else Some g)"

definition BSmallPending_Set :: "nat \<Rightarrow> 'h BPendingGroup \<Rightarrow> 'h BPendingGroup option" where
  "BSmallPending_Set x g = do {
     g \<leftarrow> (if \<not> SLinkedListIsRemoved (pg_nodes g) x then pg_list_remove x g else Some g);
     pg_list_prepend x g
   }"

definition BSmallPending_Unset :: "nat \<Rightarrow> 'h BPendingGroup \<Rightarrow> 'h BPendingGroup option" where
  "BSmallPending_Unset x g =
     (if \<not> SLinkedListIsRemoved (pg_nodes g) x
      then do { g \<leftarrow> pg_list_remove x g; Some (pg_mark_removed x g) }
      else Some g)"

text \<open>The calls that code running on the event loop makes.\<close>

datatype 'h bp_call =
    Call_Init nat 'h
  | Call_Free nat
  | Call_SetHandler nat 'h
  | Call_Set nat
  | Call_Unset nat
  | Call_Quit int

record 'h BReactor =
  br_exiting :: bool
  br_exit_code :: int
  br_pending_jobs :: "'h BPendingGroup"

definition BReactor_Quit :: "int \<Rightarrow> 'h BReactor \<Rightarrow> 'h BReactor" where
  "BReactor_Quit code r = r\<lparr>br_exiting := True, br_exit_code := code\<rparr>"

definition on_jobs :: "('h BPendingGroup \<Rightarrow> 'h BPendingGroup option) \<Rightarrow> 'h BReactor \<Rightarrow> 'h BReactor option" where
  "on_jobs f r = do { g \<leftarrow> f (br_pending_jobs r); Some (r\<lparr>br_pending_jobs := g\<rparr>) }"

primrec bp_do :: "'h bp_call \<Rightarrow> 'h BReactor \<Rightarrow> 'h BReactor option" where
  "bp_do (Call_Init x handler) r = on_jobs (\<lambda>g. Some (BSmallPending_Init x handler g)) r"
| "bp_do (Call_Free x) r = on_jobs (BSmallPending_Free x) r"
| "bp_do (Call_SetHandler x handler) r = on_jobs (\<lambda>g. Some (BSmallPending_SetHandler x handler g)) r"
| "bp_do (Call_Set x) r = on_jobs (BSmallPending_Set x) r"
| "bp_do (Call_Unset x) r = on_jobs (BSmallPending_Unset x) r"
| "bp_do (Call_Quit code) r = Some (BReactor_Quit code r)"

text \<open>
  Executing the top job. The parameter \<open>code\<close> gives the calls the handler makes and its
  effect on the rest of the program's state.
\<close>

definition BPendingGroup_ExecuteJob ::
    "('h \<Rightarrow> 's \<Rightarrow> 'h bp_call list \<times> 's) \<Rightarrow> 'h BReactor \<Rightarrow> 's \<Rightarrow> ('h BReactor \<times> 's) option" where
  "BPendingGroup_ExecuteJob code r s = do {
     p \<leftarrow> SLinkedList_First (pg_jobs (br_pending_jobs r));
     l \<leftarrow> SLinkedList_RemoveFirst (pg_jobs (br_pending_jobs r)) (pg_nodes (br_pending_jobs r));
     let g = pg_mark_removed p ((br_pending_jobs r)\<lparr>pg_jobs := l\<rparr>);
     let (calls, s) = code (pg_handler g p) s;
     r \<leftarrow> run_opt bp_do calls (r\<lparr>br_pending_jobs := g\<rparr>);
     Some (r, s)
   }"

partial_function (option) BReactor_Synchronize ::
    "('h \<Rightarrow> 's \<Rightarrow> 'h bp_call list \<times> 's) \<Rightarrow> nat \<Rightarrow> 'h BReactor \<Rightarrow> 's \<Rightarrow> (bool \<times> 'h BReactor \<times> 's) option" where
  "BReactor_Synchronize code ref r s =
     (if br_exiting r then Some (False, r, s)
      else if BPendingGroup_PeekJob (br_pending_jobs r) = Some ref then Some (True, r, s)
      else do {
        (r, s) \<leftarrow> BPendingGroup_ExecuteJob code r s;
        BReactor_Synchronize code ref r s
      })"

text \<open>\<^verbatim>\<open>BPending\<close> is a \<^verbatim>\<open>BSmallPending\<close> that remembers its group.\<close>

definition BPending_Init :: "nat \<Rightarrow> 'h \<Rightarrow> 'h BPendingGroup \<Rightarrow> 'h BPendingGroup" where
  "BPending_Init x handler g = BSmallPending_Init x handler g"

definition BPending_Free :: "nat \<Rightarrow> 'h BPendingGroup \<Rightarrow> 'h BPendingGroup option" where
  "BPending_Free x g = BSmallPending_Free x g"

definition BPending_IsSet :: "nat \<Rightarrow> 'h BPendingGroup \<Rightarrow> bool" where
  "BPending_IsSet x g = BSmallPending_IsSet x g"

definition BPending_Set :: "nat \<Rightarrow> 'h BPendingGroup \<Rightarrow> 'h BPendingGroup option" where
  "BPending_Set x g = BSmallPending_Set x g"

definition BPending_Unset :: "nat \<Rightarrow> 'h BPendingGroup \<Rightarrow> 'h BPendingGroup option" where
  "BPending_Unset x g = BSmallPending_Unset x g"

section \<open>The stack of jobs\<close>

record 'h jobs =
  js_stack :: "nat list"
  js_live :: "nat set"
  js_handler :: "nat \<Rightarrow> 'h"

fun bp_abs :: "'h bp_call \<Rightarrow> 'h jobs \<Rightarrow> 'h jobs option" where
  "bp_abs (Call_Init x handler) j =
     (if x \<in> js_live j then None
      else Some (j\<lparr>js_live := insert x (js_live j), js_handler := (js_handler j)(x := handler)\<rparr>))"
| "bp_abs (Call_Free x) j =
     (if x \<notin> js_live j then None
      else Some (j\<lparr>js_live := js_live j - {x}, js_stack := remove1 x (js_stack j)\<rparr>))"
| "bp_abs (Call_SetHandler x handler) j =
     (if x \<notin> js_live j then None else Some (j\<lparr>js_handler := (js_handler j)(x := handler)\<rparr>))"
| "bp_abs (Call_Set x) j =
     (if x \<notin> js_live j then None else Some (j\<lparr>js_stack := x # remove1 x (js_stack j)\<rparr>))"
| "bp_abs (Call_Unset x) j =
     (if x \<notin> js_live j then None else Some (j\<lparr>js_stack := remove1 x (js_stack j)\<rparr>))"
| "bp_abs (Call_Quit code) j = Some j"

text \<open>
  The pointer structure represents the stack: the nodes of the pending jobs are linked in
  its order, and a live job is marked as removed exactly when it is not on it.
\<close>

definition bp_rep :: "'h BPendingGroup \<Rightarrow> 'h jobs \<Rightarrow> bool" where
  "bp_rep g j \<longleftrightarrow> sl_rep (pg_jobs g) (pg_nodes g) (js_stack j) \<and> set (js_stack j) \<subseteq> js_live j
     \<and> (\<forall>x\<in>js_live j. SLinkedListIsRemoved (pg_nodes g) x \<longleftrightarrow> x \<notin> set (js_stack j))
     \<and> pg_handler g = js_handler j"

lemma bp_rep_distinct: "bp_rep g j \<Longrightarrow> distinct (js_stack j)"
  by (simp add: bp_rep_def sl_rep_def)

lemma agree_IsRemoved: "agree_off S h h' \<Longrightarrow> x \<notin> S \<Longrightarrow> SLinkedListIsRemoved h' x = SLinkedListIsRemoved h x"
  by (simp add: agree_off_def SLinkedListIsRemoved_def)

lemma MarkRemoved_simps [simp]:
  "SLinkedListIsRemoved (SLinkedListMarkRemoved x h) y \<longleftrightarrow> x = y \<or> SLinkedListIsRemoved h y"
  by (auto simp: SLinkedListIsRemoved_def SLinkedListMarkRemoved_def)

lemma sl_rep_MarkRemoved: "sl_rep l h xs \<Longrightarrow> x \<notin> set xs \<Longrightarrow> sl_rep l (SLinkedListMarkRemoved x h) xs"
  by (auto simp: sl_rep_def SLinkedListMarkRemoved_def)

text \<open>Unlinking a pending job leaves the others linked; its own node keeps its stale links.\<close>

lemma pg_list_remove_rep:
  assumes "bp_rep g j" "x \<in> set (js_stack j)"
  shows "\<exists>g'. pg_list_remove x g = Some g' \<and> sl_rep (pg_jobs g') (pg_nodes g') (remove1 x (js_stack j))
    \<and> pg_handler g' = pg_handler g
    \<and> (\<forall>y\<in>js_live j - {x}. SLinkedListIsRemoved (pg_nodes g') y \<longleftrightarrow> y \<notin> set (js_stack j))"
proof -
  obtain as bs where s: "js_stack j = as @ x # bs" "remove1 x (js_stack j) = as @ bs"
    using assms(2) by (elim split_at_member)
  from assms(1) s SLinkedList_Remove_rep [of "pg_jobs g" "pg_nodes g" as x bs]
  obtain l h where r: "SLinkedList_Remove (pg_jobs g) x (pg_nodes g) = Some (l, h)"
      "sl_rep l h (as @ bs)" "agree_off (set (as @ bs)) (pg_nodes g) h" by (auto simp: bp_rep_def)
  have "SLinkedListIsRemoved h y \<longleftrightarrow> y \<notin> set (js_stack j)" if "y \<in> js_live j - {x}" for y
  proof (cases "y \<in> set (as @ bs)")
    case True
    with sl_rep_not_removed [OF r(2)] s show ?thesis by auto
  next
    case False
    with agree_IsRemoved [OF r(3), of y] assms(1) that s show ?thesis by (auto simp: bp_rep_def)
  qed
  with r s show ?thesis by (simp add: pg_list_remove_def)
qed

lemma pg_list_prepend_rep:
  assumes "sl_rep (pg_jobs g) (pg_nodes g) xs" "x \<notin> set xs" "x \<in> L" "set xs \<subseteq> L"
    and "\<forall>y\<in>L - {x}. SLinkedListIsRemoved (pg_nodes g) y \<longleftrightarrow> y \<notin> set xs"
  shows "\<exists>g'. pg_list_prepend x g = Some g'
    \<and> bp_rep g' \<lparr>js_stack = x # xs, js_live = L, js_handler = pg_handler g\<rparr>"
proof -
  from SLinkedList_Prepend_rep [OF assms(1,2)]
  obtain l h where p: "SLinkedList_Prepend (pg_jobs g) x (pg_nodes g) = Some (l, h)" "sl_rep l h (x # xs)"
      "agree_off (insert x (set xs)) (pg_nodes g) h" by blast
  have "SLinkedListIsRemoved h y \<longleftrightarrow> y \<notin> set (x # xs)" if "y \<in> L" for y
  proof (cases "y \<in> set (x # xs)")
    case True
    with sl_rep_not_removed [OF p(2)] show ?thesis by auto
  next
    case False
    with agree_IsRemoved [OF p(3), of y] assms(5) that show ?thesis by auto
  qed
  with p assms(3,4) show ?thesis by (auto simp: pg_list_prepend_def bp_rep_def)
qed

text \<open>A reactor represents a job stack when its job list does.\<close>

definition br_rep :: "'h BReactor \<Rightarrow> 'h jobs \<Rightarrow> bool" where
  "br_rep r j \<longleftrightarrow> bp_rep (br_pending_jobs r) j"

lemma br_rep_Init: "br_rep \<lparr>br_exiting = False, br_exit_code = 0, br_pending_jobs = BPendingGroup_Init g\<rparr>
    \<lparr>js_stack = [], js_live = {}, js_handler = pg_handler g\<rparr>"
  by (simp add: br_rep_def bp_rep_def BPendingGroup_Init_def)

lemma BSmallPending_IsSet_rep: "bp_rep g j \<Longrightarrow> x \<in> js_live j \<Longrightarrow> BSmallPending_IsSet x g \<longleftrightarrow> x \<in> set (js_stack j)"
  by (auto simp: bp_rep_def BSmallPending_IsSet_def)

lemma BPendingGroup_PeekJob_rep: "bp_rep g j \<Longrightarrow> BPendingGroup_PeekJob g = hd_ptr (js_stack j) None"
  unfolding bp_rep_def BPendingGroup_PeekJob_def using sll.first_rep by blast

lemma BPendingGroup_HasJobs_rep: "bp_rep g j \<Longrightarrow> BPendingGroup_HasJobs g \<longleftrightarrow> js_stack j \<noteq> []"
  by (simp add: bp_rep_def sl_rep_def BPendingGroup_HasJobs_def SLinkedList_IsEmpty_def)

lemma IsRemoved_rep: "bp_rep g j \<Longrightarrow> x \<in> js_live j \<Longrightarrow> SLinkedListIsRemoved (pg_nodes g) x \<longleftrightarrow> x \<notin> set (js_stack j)"
  by (simp add: bp_rep_def)

lemma set_remove1_stack: "bp_rep g j \<Longrightarrow> set (remove1 x (js_stack j)) = set (js_stack j) - {x}"
  by (drule bp_rep_distinct) (simp add: set_remove1_eq)

lemma BSmallPending_Init_rep:
  assumes "bp_rep g j" "x \<notin> js_live j"
  shows "bp_rep (BSmallPending_Init x f g)
    (j\<lparr>js_live := insert x (js_live j), js_handler := (js_handler j)(x := f)\<rparr>)"
proof -
  have "x \<notin> set (js_stack j)" using assms by (auto simp: bp_rep_def)
  with assms show ?thesis
    by (auto simp: bp_rep_def BSmallPending_Init_def pg_mark_removed_def sl_rep_MarkRemoved)
qed

lemma BSmallPending_Set_rep:
  assumes "bp_rep g j" "x \<in> js_live j"
  shows "\<exists>g'. BSmallPending_Set x g = Some g' \<and> bp_rep g' (j\<lparr>js_stack := x # remove1 x (js_stack j)\<rparr>)"
proof -
  let ?xs = "remove1 x (js_stack j)"
  have "\<exists>g1. (if \<not> SLinkedListIsRemoved (pg_nodes g) x then pg_list_remove x g else Some g) = Some g1
      \<and> sl_rep (pg_jobs g1) (pg_nodes g1) ?xs \<and> pg_handler g1 = js_handler j
      \<and> (\<forall>y\<in>js_live j - {x}. SLinkedListIsRemoved (pg_nodes g1) y \<longleftrightarrow> y \<notin> set ?xs)"
  proof (cases "x \<in> set (js_stack j)")
    case True
    with pg_list_remove_rep [OF assms(1) True] assms IsRemoved_rep [OF assms] set_remove1_stack [OF assms(1)]
    show ?thesis by (auto simp: bp_rep_def)
  next
    case False
    with assms show ?thesis by (auto simp: bp_rep_def remove1_idem)
  qed
  then obtain g1 where g1: "(if \<not> SLinkedListIsRemoved (pg_nodes g) x then pg_list_remove x g else Some g) = Some g1"
      "sl_rep (pg_jobs g1) (pg_nodes g1) ?xs" "pg_handler g1 = js_handler j"
      "\<forall>y\<in>js_live j - {x}. SLinkedListIsRemoved (pg_nodes g1) y \<longleftrightarrow> y \<notin> set ?xs" by blast
  have "x \<notin> set ?xs" "set ?xs \<subseteq> js_live j" using assms set_remove1_stack [OF assms(1)] by (auto simp: bp_rep_def)
  from pg_list_prepend_rep [OF g1(2) this(1) assms(2) this(2) g1(4)] g1(1,3) show ?thesis
    by (cases j) (auto simp: BSmallPending_Set_def bp_rep_def)
qed

lemma BSmallPending_Unset_rep:
  assumes "bp_rep g j" "x \<in> js_live j"
  shows "\<exists>g'. BSmallPending_Unset x g = Some g' \<and> bp_rep g' (j\<lparr>js_stack := remove1 x (js_stack j)\<rparr>)"
proof (cases "x \<in> set (js_stack j)")
  case True
  from pg_list_remove_rep [OF assms(1) True]
  obtain g1 where g1: "pg_list_remove x g = Some g1" "sl_rep (pg_jobs g1) (pg_nodes g1) (remove1 x (js_stack j))"
      "pg_handler g1 = pg_handler g"
      "\<forall>y\<in>js_live j - {x}. SLinkedListIsRemoved (pg_nodes g1) y \<longleftrightarrow> y \<notin> set (js_stack j)" by blast
  with True assms IsRemoved_rep [OF assms] set_remove1_stack [OF assms(1)] show ?thesis
    by (auto simp: bp_rep_def BSmallPending_Unset_def pg_mark_removed_def intro: sl_rep_MarkRemoved)
next
  case False
  with assms IsRemoved_rep [OF assms] show ?thesis
    by (auto simp: BSmallPending_Unset_def remove1_idem)
qed

lemma BSmallPending_Free_rep:
  assumes "bp_rep g j" "x \<in> js_live j"
  shows "\<exists>g'. BSmallPending_Free x g = Some g'
    \<and> bp_rep g' (j\<lparr>js_live := js_live j - {x}, js_stack := remove1 x (js_stack j)\<rparr>)"
proof (cases "x \<in> set (js_stack j)")
  case True
  with pg_list_remove_rep [OF assms(1) True] assms IsRemoved_rep [OF assms] set_remove1_stack [OF assms(1)]
  show ?thesis by (auto simp: bp_rep_def BSmallPending_Free_def)
next
  case False
  with assms IsRemoved_rep [OF assms] show ?thesis
    by (auto simp: BSmallPending_Free_def bp_rep_def remove1_idem)
qed

interpretation br: simulation br_rep bp_do bp_abs
proof
  fix r j c j'
  assume rep: "br_rep r j" and ab: "bp_abs c j = Some j'"
  have frame: "\<exists>r'. on_jobs f r = Some r' \<and> br_rep r' k"
    if "\<exists>g'. f (br_pending_jobs r) = Some g' \<and> bp_rep g' k" for f k
    using that by (auto simp: on_jobs_def br_rep_def)
  note rep = rep [unfolded br_rep_def]
  show "\<exists>r'. bp_do c r = Some r' \<and> br_rep r' j'"
  proof (cases c)
    case (Call_Init x f)
    with ab BSmallPending_Init_rep [OF rep, of x f] show ?thesis
      by (auto split: if_splits intro!: frame)
  next
    case (Call_Free x)
    with ab BSmallPending_Free_rep [OF rep, of x] show ?thesis by (auto split: if_splits intro!: frame)
  next
    case (Call_SetHandler x f)
    with ab rep show ?thesis
      by (auto split: if_splits intro!: frame simp: bp_rep_def BSmallPending_SetHandler_def)
  next
    case (Call_Set x)
    with ab BSmallPending_Set_rep [OF rep, of x] show ?thesis by (auto split: if_splits intro!: frame)
  next
    case (Call_Unset x)
    with ab BSmallPending_Unset_rep [OF rep, of x] show ?thesis by (auto split: if_splits intro!: frame)
  next
    case (Call_Quit code)
    with ab rep show ?thesis by (simp add: br_rep_def BReactor_Quit_def)
  qed
qed

section \<open>Executing jobs\<close>

lemma BPendingGroup_ExecuteJob_rep:
  assumes rep: "br_rep r j" and st: "js_stack j = p # xs"
    and c: "code (js_handler j p) s = (calls, s')"
    and ab: "run_opt bp_abs calls (j\<lparr>js_stack := xs\<rparr>) = Some j'"
  shows "\<exists>r'. BPendingGroup_ExecuteJob code r s = Some (r', s') \<and> br_rep r' j'"
proof -
  note rep = rep [unfolded br_rep_def]
  let ?g = "br_pending_jobs r"
  have sl: "sl_rep (pg_jobs ?g) (pg_nodes ?g) (p # xs)" using rep st by (simp add: bp_rep_def)
  from SLinkedList_RemoveFirst_rep [OF this]
  obtain l where l: "SLinkedList_RemoveFirst (pg_jobs ?g) (pg_nodes ?g) = Some l" "sl_rep l (pg_nodes ?g) xs" by blast
  have d: "p \<notin> set xs" using sl by (simp add: sl_rep_def)
  define g where "g = pg_mark_removed p (?g\<lparr>pg_jobs := l\<rparr>)"
  have "bp_rep g (j\<lparr>js_stack := xs\<rparr>)"
    using rep l(2) d st by (auto simp: g_def bp_rep_def pg_mark_removed_def sl_rep_MarkRemoved)
  then have "br_rep (r\<lparr>br_pending_jobs := g\<rparr>) (j\<lparr>js_stack := xs\<rparr>)" by (simp add: br_rep_def)
  from br.run_rel_from [OF this ab]
  obtain r' where r': "run_opt bp_do calls (r\<lparr>br_pending_jobs := g\<rparr>) = Some r'" "br_rep r' j'" .
  have "SLinkedList_First (pg_jobs ?g) = Some p" using sll.first_rep [OF sl] by simp
  moreover have "pg_handler g p = js_handler j p"
    using rep by (simp add: g_def bp_rep_def pg_mark_removed_def)
  ultimately show ?thesis using l(1) c r' by (simp add: BPendingGroup_ExecuteJob_def g_def [symmetric])
qed

text \<open>
  The calls of a handler for the job \<open>x\<close> that keep a set of jobs untouched and set only jobs
  of a smaller rank.
\<close>

definition ranked_call :: "(nat \<Rightarrow> nat) \<Rightarrow> nat set \<Rightarrow> nat \<Rightarrow> 'h bp_call \<Rightarrow> bool" where
  "ranked_call rank usable x c =
     (case c of Call_Set y \<Rightarrow> y \<in> usable \<and> rank y < rank x
      | Call_Unset y \<Rightarrow> y \<in> usable
      | Call_Quit code \<Rightarrow> True
      | _ \<Rightarrow> False)"

lemma remove1_outside: "y \<notin> set ys \<Longrightarrow> remove1 y (xs @ ys) = remove1 y xs @ ys"
  by (induction xs) (auto simp: remove1_idem)

lemma ranked_step:
  assumes "ranked_call rank U x c" "U \<subseteq> js_live j" "U \<inter> set ys = {}" "js_stack j = xs @ ys"
    and "\<forall>k\<in>#mset (map rank xs) - A. k < rank x"
  shows "\<exists>xs'. bp_abs c j = Some (j\<lparr>js_stack := xs' @ ys\<rparr>) \<and> (\<forall>k\<in>#mset (map rank xs') - A. k < rank x)"
proof -
  have rm: "\<forall>k\<in>#mset (map rank (remove1 y xs)) - A. k < rank x" for y
  proof -
    have "mset (map rank (remove1 y xs)) \<subseteq># mset (map rank xs)"
      by (metis image_mset_subseteq_mono mset_map mset_remove1 diff_subset_eq_self)
    then have "count (mset (map rank (remove1 y xs))) k \<le> count (mset (map rank xs)) k" for k
      by (rule mset_subset_eq_count)
    then show ?thesis using assms(5) by (meson in_diff_count order.strict_trans2)
  qed
  show ?thesis
  proof (cases c)
    case (Call_Set y)
    with assms have y: "y \<in> js_live j" "y \<notin> set ys" "rank y < rank x" by (auto simp: ranked_call_def)
    have "\<forall>k\<in>#mset (map rank (y # remove1 y xs)) - A. k < rank x"
      using rm [of y] y(3) by (auto simp: in_diff_count split: if_splits)
    with Call_Set y assms(4) show ?thesis
      by (intro exI [of _ "y # remove1 y xs"]) (simp add: remove1_outside)
  next
    case (Call_Unset y)
    with assms have "y \<in> js_live j" "y \<notin> set ys" by (auto simp: ranked_call_def)
    with Call_Unset rm [of y] assms(4) show ?thesis
      by (intro exI [of _ "remove1 y xs"]) (simp add: remove1_outside)
  next
    case (Call_Quit code)
    with assms(4,5) show ?thesis by (intro exI [of _ xs]) (cases j; simp)
  qed (use assms(1) in \<open>auto simp: ranked_call_def\<close>)
qed

lemma ranked_run:
  assumes "\<forall>c\<in>set calls. ranked_call rank U x c" "U \<subseteq> js_live j" "U \<inter> set ys = {}" "js_stack j = xs @ ys"
    and "\<forall>k\<in>#mset (map rank xs) - A. k < rank x"
  shows "\<exists>xs'. run_opt bp_abs calls j = Some (j\<lparr>js_stack := xs' @ ys\<rparr>) \<and> (\<forall>k\<in>#mset (map rank xs') - A. k < rank x)"
  using assms
proof (induction calls arbitrary: j xs)
  case Nil
  then show ?case by (intro exI [of _ xs]) (cases j; simp)
next
  case (Cons c calls)
  from ranked_step [of rank U x c j ys xs A] Cons.prems
  obtain zs where zs: "bp_abs c j = Some (j\<lparr>js_stack := zs @ ys\<rparr>)" "\<forall>k\<in>#mset (map rank zs) - A. k < rank x"
    by auto
  from Cons.IH [of "j\<lparr>js_stack := zs @ ys\<rparr>" zs] Cons.prems zs show ?case by simp
qed

lemma mult_replace_smaller:
  assumes "\<forall>k\<in>#B - A. k < n"
  shows "(B, add_mset n A) \<in> mult less_than"
proof -
  have "((A \<inter># B) + (B - A), (A \<inter># B) + add_mset n (A - B)) \<in> mult less_than"
    by (rule one_step_implies_mult) (use assms in auto)
  moreover have "(A \<inter># B) + (B - A) = B" "(A \<inter># B) + (A - B) = A"
    by (auto intro!: multiset_eqI)
  ultimately show ?thesis by simp
qed

lemma Synchronize_run:
  assumes "br_rep r j" "js_stack j = xs @ ref # ys" "U = js_live j - set (ref # ys)"
    and "\<forall>x\<in>U. \<forall>s. \<forall>c\<in>set (fst (code (js_handler j x) s)). ranked_call rank U x c"
  shows "\<exists>b r' s' xs'. BReactor_Synchronize code ref r s = Some (b, r', s')
    \<and> br_rep r' (j\<lparr>js_stack := xs' @ ref # ys\<rparr>) \<and> (if b then xs' = [] else br_exiting r')"
  using wf_mult [OF wf_less_than] assms
proof (induction "mset (map rank xs)" arbitrary: r j xs s rule: wf_induct_rule)
  case less
  have j: "j\<lparr>js_stack := xs @ ref # ys\<rparr> = j" using less.prems(2) by (cases j) simp
  have peek: "BPendingGroup_PeekJob (br_pending_jobs r) = hd_ptr xs (Some ref)"
    using less.prems(1,2) by (simp add: br_rep_def BPendingGroup_PeekJob_rep)
  show ?case
  proof (cases "br_exiting r \<or> xs = []")
    case True
    then have "BReactor_Synchronize code ref r s = Some (\<not> br_exiting r, r, s)"
      using peek by (subst BReactor_Synchronize.simps) auto
    with True show ?thesis using less.prems(1)
      by (intro exI [of _ "\<not> br_exiting r"] exI [of _ r] exI [of _ s] exI [of _ xs]) (auto simp: j)
  next
    case False
    then obtain x zs where xs: "xs = x # zs" by (cases xs) auto
    have rep: "bp_rep (br_pending_jobs r) j" using less.prems(1) by (simp add: br_rep_def)
    have "x \<in> U" "x \<noteq> ref"
      using rep less.prems(2,3) xs bp_rep_distinct [OF rep] by (auto simp: bp_rep_def)
    obtain calls s' where c: "code (js_handler j x) s = (calls, s')" by fastforce
    have "\<forall>c\<in>set calls. ranked_call rank U x c" using less.prems(4) \<open>x \<in> U\<close> c by (metis fst_conv)
    moreover have "U \<subseteq> js_live j" "U \<inter> set (ref # ys) = {}" using less.prems(3) by blast+
    ultimately obtain ws where ws: "run_opt bp_abs calls (j\<lparr>js_stack := zs @ ref # ys\<rparr>) = Some (j\<lparr>js_stack := ws @ ref # ys\<rparr>)"
        "\<forall>k\<in>#mset (map rank ws) - mset (map rank zs). k < rank x"
      using ranked_run [of calls rank U x "j\<lparr>js_stack := zs @ ref # ys\<rparr>" "ref # ys" zs "mset (map rank zs)"]
      by auto
    have st: "js_stack j = x # zs @ ref # ys" using less.prems(2) xs by simp
    obtain r' where r': "BPendingGroup_ExecuteJob code r s = Some (r', s')" "br_rep r' (j\<lparr>js_stack := ws @ ref # ys\<rparr>)"
      using BPendingGroup_ExecuteJob_rep [OF less.prems(1) st, of code s] c ws(1) by auto
    have "BReactor_Synchronize code ref r s = BReactor_Synchronize code ref r' s'"
      using False peek xs \<open>x \<noteq> ref\<close> r'(1) by (subst BReactor_Synchronize.simps) simp
    moreover have "(mset (map rank ws), mset (map rank xs)) \<in> mult less_than"
      using mult_replace_smaller [OF ws(2)] xs by simp
    moreover have "U = js_live (j\<lparr>js_stack := ws @ ref # ys\<rparr>) - set (ref # ys)" using less.prems(3) by simp
    moreover have "\<forall>x\<in>U. \<forall>s. \<forall>c\<in>set (fst (code (js_handler (j\<lparr>js_stack := ws @ ref # ys\<rparr>) x) s)). ranked_call rank U x c"
      using less.prems(4) by simp
    ultimately show ?thesis
      using less.hyps [OF _ r'(2), of ws s'] by simp
  qed
qed

text \<open>
  C22: every sequence of calls on the job list that respects the preconditions (objects are
  initialised once and not used after they are freed) runs without following a null pointer,
  and the pointer structure it leaves represents the stack of pending jobs: the job that runs
  next is the one set last, the list is empty exactly when no job is pending, and
  \<^verbatim>\<open>BSmallPending_IsSet\<close>, which only looks at whether a node points to itself, is right for
  every live job.
\<close>

theorem BPending_refines_stack:
  assumes "run_opt bp_abs calls \<lparr>js_stack = [], js_live = {}, js_handler = pg_handler g\<rparr> = Some j"
  shows "\<exists>r. run_opt bp_do calls \<lparr>br_exiting = False, br_exit_code = 0, br_pending_jobs = BPendingGroup_Init g\<rparr> = Some r
    \<and> BPendingGroup_PeekJob (br_pending_jobs r) = hd_ptr (js_stack j) None
    \<and> (BPendingGroup_HasJobs (br_pending_jobs r) \<longleftrightarrow> js_stack j \<noteq> [])
    \<and> (\<forall>x\<in>js_live j. BSmallPending_IsSet x (br_pending_jobs r) \<longleftrightarrow> x \<in> set (js_stack j))"
proof -
  from br.run_rel_from [OF br_rep_Init assms]
  obtain r where "run_opt bp_do calls \<lparr>br_exiting = False, br_exit_code = 0, br_pending_jobs = BPendingGroup_Init g\<rparr> = Some r"
      "bp_rep (br_pending_jobs r) j" unfolding br_rep_def by blast
  then show ?thesis
    using BPendingGroup_PeekJob_rep BPendingGroup_HasJobs_rep BSmallPending_IsSet_rep by blast
qed

definition demo_group :: "nat BPendingGroup" where
  "demo_group = \<lparr>pg_jobs = SLinkedList_Init, pg_nodes = (\<lambda>_. \<lparr>ll_p = None, ll_n = None\<rparr>), pg_handler = (\<lambda>_. 0)\<rparr>"

definition demo_calls :: "nat bp_call list" where
  "demo_calls = [Call_Init 1 1, Call_Init 2 2, Call_Init 3 3, Call_Set 1, Call_Set 2, Call_Set 3]"

lemma demo_calls_run:
  "run_opt bp_abs demo_calls \<lparr>js_stack = [], js_live = {}, js_handler = pg_handler demo_group\<rparr>
     = Some \<lparr>js_stack = [3, 2, 1], js_live = {1, 2, 3}, js_handler = (\<lambda>_. 0)(1 := 1, 2 := 2, 3 := 3)\<rparr>"
  by (auto simp: demo_calls_def demo_group_def)

theorem BPending_refines_stack_witness:
  "\<exists>r. run_opt bp_do demo_calls \<lparr>br_exiting = False, br_exit_code = 0, br_pending_jobs = BPendingGroup_Init demo_group\<rparr> = Some r
     \<and> BPendingGroup_PeekJob (br_pending_jobs r) = Some 3 \<and> BSmallPending_IsSet 1 (br_pending_jobs r)"
  using BPending_refines_stack [OF demo_calls_run] by auto

text \<open>
  C21: \<^verbatim>\<open>BReactor_Synchronize\<close> returns, provided every job's handler sets only jobs of a
  smaller rank and leaves the reference job and the jobs below it alone. It then reports
  success with exactly the reference job and the jobs below it pending, in their old order,
  or it reports that the event loop was asked to exit. (A handler that sets its own job again
  and again would keep it from returning.)
\<close>

theorem BReactor_Synchronize_returns:
  assumes "br_rep r j" and "js_stack j = xs @ ref # ys" and "U = js_live j - set (ref # ys)"
    and "\<forall>x\<in>U. \<forall>s. \<forall>c\<in>set (fst (code (js_handler j x) s)). ranked_call rank U x c"
  shows "\<exists>b r' s' xs'. BReactor_Synchronize code ref r s = Some (b, r', s')
    \<and> br_rep r' (j\<lparr>js_stack := xs' @ ref # ys\<rparr>) \<and> (if b then xs' = [] else br_exiting r')"
  using Synchronize_run [OF assms] .

text \<open>In the example the handler of job 3 sets job 2 again, and no other handler does anything.\<close>

definition demo_code :: "nat \<Rightarrow> nat \<Rightarrow> nat bp_call list \<times> nat" where
  "demo_code f s = (if f = 3 then [Call_Set 2] else [], s + 1)"

theorem BReactor_Synchronize_returns_witness:
  "\<exists>r b r' s'. run_opt bp_do demo_calls \<lparr>br_exiting = False, br_exit_code = 0, br_pending_jobs = BPendingGroup_Init demo_group\<rparr> = Some r
     \<and> BReactor_Synchronize demo_code 1 r 0 = Some (b, r', s')
     \<and> (b \<longrightarrow> BPendingGroup_PeekJob (br_pending_jobs r') = Some 1)"
proof -
  from br.run_rel_from [OF br_rep_Init demo_calls_run]
  obtain r where r: "run_opt bp_do demo_calls \<lparr>br_exiting = False, br_exit_code = 0, br_pending_jobs = BPendingGroup_Init demo_group\<rparr> = Some r"
    and rep: "br_rep r \<lparr>js_stack = [3, 2, 1], js_live = {1, 2, 3}, js_handler = (\<lambda>_. 0)(1 := 1, 2 := 2, 3 := 3)\<rparr>" .
  from BReactor_Synchronize_returns [OF rep, of "[3, 2]" 1 "[]" "{2, 3}" demo_code "\<lambda>x. x" 0]
  obtain b r' s' xs' where "BReactor_Synchronize demo_code 1 r 0 = Some (b, r', s')"
      "br_rep r' \<lparr>js_stack = xs' @ [1], js_live = {1, 2, 3}, js_handler = (\<lambda>_. 0)(1 := 1, 2 := 2, 3 := 3)\<rparr>"
      "if b then xs' = [] else br_exiting r'" by (auto simp: demo_code_def ranked_call_def)
  with r show ?thesis by (auto simp: br_rep_def BPendingGroup_PeekJob_rep split: if_splits)
qed

end
