(* ===== verification/BAVLTree.thy ===== *)
theory BAVLTree
  imports BAVL
begin

text \<open>
  Rebalancing and the swap of two nodes of the AVL tree of \<^verbatim>\<open>structure/BAVL.h\<close>. Rebalancing
  runs up a context and ends with a balanced tree with the same order of nodes. The swap
  exchanges the two addresses everywhere in the links, so that the store afterwards represents
  the same tree with the two nodes renamed.
\<close>

section \<open>Balanced contexts\<close>

text \<open>The nodes on the path above a subtree of height \<open>h\<close> have the right balance factors.\<close>

fun ctx_ok :: "int \<Rightarrow> frame list \<Rightarrow> bool" where
  "ctx_ok h [] \<longleftrightarrow> True"
| "ctx_ok h ((d, x, b, s) # c) \<longleftrightarrow>
     BAVL_OPTNEG b d = ht s - h \<and> \<bar>b\<bar> \<le> 1 \<and> avl s \<and> ctx_ok (1 + max h (ht s)) c"

text \<open>The nodes before and after a subtree in the order of the whole tree.\<close>

fun cleft :: "frame list \<Rightarrow> nat list" where
  "cleft [] = []"
| "cleft ((d, x, b, s) # c) = cleft c @ (if d then inord s @ [x] else [])"

fun cright :: "frame list \<Rightarrow> nat list" where
  "cright [] = []"
| "cright ((d, x, b, s) # c) = (if d then [] else x # inord s) @ cright c"

lemma avl_fill: "avl (fill c T) \<longleftrightarrow> avl T \<and> ctx_ok (ht T) c"
proof (induction c T rule: fill.induct)
  case (2 d x b s c T)
  have "BAVL_OPTNEG b (\<not> d) = ht T - ht s \<longleftrightarrow> BAVL_OPTNEG b d = ht s - ht T"
    by (auto simp: BAVL_OPTNEG_def)
  with 2 show ?case by (auto simp: max.commute)
qed simp

lemma inord_fill: "inord (fill c T) = cleft c @ inord T @ cright c"
  by (induction c T rule: fill.induct) (auto simp: inord_mkn)

lemma fill_append: "fill (c @ c') T = fill c' (fill c T)"
  by (induction c T rule: fill.induct) auto

lemma inord_fill_cong: "inord T = inord T' \<Longrightarrow> inord (fill c T) = inord (fill c T')"
  by (simp add: inord_fill)

section \<open>Rebalancing\<close>

lemma BAVL_rebalance_node_rep:
  assumes z: "zrep t ((d, x, b, s) # c) T" and avl: "avl T"
    and ok: "BAVL_OPTNEG b d = ht s - h" "\<bar>b\<bar> \<le> 1" "avl s" and dc: "\<bar>ht T - h\<bar> \<le> 1"
  shows "\<exists>t' y T' delta. BAVL_rebalance_node t x d (ht T - h) = Some (t', y, delta) \<and> zrep t' c T'
    \<and> root_ptr T' = Some y \<and> avl T' \<and> inord T' = inord (mkn d s x b T)
    \<and> delta = ht T' - (1 + max h (ht s)) \<and> \<bar>delta\<bar> \<le> 1 \<and> same_order t t'"
proof -
  define nb where "nb = b - BAVL_OPTNEG (ht T - h) d"
  define t1 where "t1 = set_balance x nb t"
  define delta where "delta = max (ht T - h) (ht s - h) - max 0 (ht s - h)"
  have bx: "av_balance t x = b" using z by (simp add: zrep_def)
  have z1: "zrep t1 c (mkn d s x nb T)" using z by (auto simp: zrep_def t1_def)
  have nb: "BAVL_OPTNEG nb d = ht s - ht T" using ok(1) by (auto simp: nb_def BAVL_OPTNEG_def)
  have delta: "delta = max (ht T) (ht s) - max h (ht s)" unfolding delta_def by linarith
  have run: "BAVL_rebalance_node t x d (ht T - h)
      = (if nb = 2 \<or> nb = - 2 then BAVL_transform t1 x delta else Some (t1, x, delta))"
    by (simp add: BAVL_rebalance_node_def bx ok(1) nb_def [symmetric] t1_def delta_def)
  have so: "same_order t t1" by (simp add: same_order_def t1_def)
  show ?thesis
  proof (cases "nb = 2 \<or> nb = - 2")
    case False
    moreover have "\<bar>nb\<bar> \<le> 2" using nb ok(1,2) dc by (auto simp: nb_def BAVL_OPTNEG_def split: if_splits)
    ultimately have "\<bar>nb\<bar> \<le> 1" by linarith
    moreover have "BAVL_OPTNEG nb (\<not> d) = ht T - ht s" using nb by (auto simp: BAVL_OPTNEG_def split: if_splits)
    ultimately have "avl (mkn d s x nb T)" using avl ok(3) by simp
    moreover have "\<bar>delta\<bar> \<le> 1" using dc delta by linarith
    ultimately show ?thesis using run False z1 delta so
      by (intro exI [of _ t1] exI [of _ x] exI [of _ "mkn d s x nb T"] exI [of _ delta]) (auto simp: inord_mkn)
  next
    case True
    define e where "e = (nb = 2)"
    obtain L H where LH: "mkn d s x nb T = mkn e L x nb H" "ht H = ht L + 2" "avl L" "avl H"
        "d = e \<and> L = s \<and> H = T \<or> d \<noteq> e \<and> L = T \<and> H = s"
    proof (cases "d = e")
      case d: True
      have "ht T = ht s + 2" using nb True d by (auto simp: e_def BAVL_OPTNEG_def split: if_splits)
      with that [of s T] d avl ok(3) show thesis by simp
    next
      case d: False
      have "ht s = ht T + 2" using nb True d by (auto simp: e_def BAVL_OPTNEG_def split: if_splits)
      moreover have "mkn d s x nb T = mkn e T x nb s" using d by (auto simp: mkn_def)
      ultimately show thesis using that [of T s] d avl ok(3) by simp
    qed
    have "nb = (if e then 2 else - 2)" using True by (auto simp: e_def)
    from BAVL_transform_rep [OF z1 [unfolded LH(1)] this LH(2-4), of delta]
    obtain t' y T' k where t': "BAVL_transform t1 x delta = Some (t', y, delta - k)" "zrep t' c T'"
        "root_ptr T' = Some y" "avl T'" "inord T' = inord (mkn e L x nb H)" "ht T' = ht H + 1 - k" "k \<in> {0, 1}"
        "same_order t1 t'" by blast
    have "delta - k = ht T' - (1 + max h (ht s))" "\<bar>delta - k\<bar> \<le> 1"
      using t'(6,7) LH(2,5) delta dc ok(1,2) by (auto simp: BAVL_OPTNEG_def split: if_splits)
    moreover have "inord T' = inord (mkn d s x b T)"
      using t'(5) LH(1) by (metis inord_mkn)
    ultimately show ?thesis using run True t' same_order_trans [OF so t'(8)] by auto
  qed
qed

lemma BAVL_rebalance_rep:
  assumes "zrep t ((d, x, b, s) # c) T" "avl T" "ctx_ok h ((d, x, b, s) # c)" "\<bar>ht T - h\<bar> \<le> 1"
  shows "\<exists>t' T'. BAVL_rebalance t x d (ht T - h) = Some t' \<and> zrep t' [] T' \<and> avl T'
    \<and> inord T' = inord (fill ((d, x, b, s) # c) T) \<and> same_order t t'"
  using assms
proof (induction c arbitrary: t d x b s T h)
  case (Nil t d x b s T h)
  show ?case
  proof (cases "ht T = h")
    case True
    with Nil show ?thesis using avl_fill [of "[(d, x, b, s)]" T]
      by (subst BAVL_rebalance.simps) (auto simp: zrep_fill [of t "[(d, x, b, s)]"] simp del: zrep_Cons)
  next
    case False
    from BAVL_rebalance_node_rep [OF Nil(1,2) _ _ _ Nil(4)] Nil(3)
    obtain t' y T' delta where r: "BAVL_rebalance_node t x d (ht T - h) = Some (t', y, delta)" "zrep t' [] T'"
        "root_ptr T' = Some y" "avl T'" "inord T' = inord (mkn d s x b T)" "same_order t t'" by auto
    have "av_parent t' y = None" using r(2,3) by (cases T') (auto simp: zrep_def)
    with r False show ?thesis by (subst BAVL_rebalance.simps) auto
  qed
next
  case (Cons f c t d x b s T h)
  obtain d' x' b' s' where f: "f = (d', x', b', s')" by (cases f)
  show ?case
  proof (cases "ht T = h")
    case True
    with Cons.prems show ?thesis using avl_fill [of "(d, x, b, s) # f # c" T]
      by (subst BAVL_rebalance.simps) (auto simp: zrep_fill [of t "(d, x, b, s) # f # c"] simp del: zrep_Cons)
  next
    case False
    from BAVL_rebalance_node_rep [OF Cons.prems(1,2) _ _ _ Cons.prems(4)] Cons.prems(3)
    obtain t' y T' delta where r: "BAVL_rebalance_node t x d (ht T - h) = Some (t', y, delta)" "zrep t' (f # c) T'"
        "root_ptr T' = Some y" "avl T'" "inord T' = inord (mkn d s x b T)" "same_order t t'"
        "delta = ht T' - (1 + max h (ht s))" "\<bar>delta\<bar> \<le> 1" by auto
    have p: "av_parent t' y = Some x'"
      using r(2,3) unfolding f by (cases T') (auto simp: zrep_def simp del: zrep_Cons)
    have side: "(Some y = av_link t' x' True) = d'" using crep_side [OF r(2) [unfolded f] r(3)] by simp
    have "ctx_ok (1 + max h (ht s)) ((d', x', b', s') # c)" using Cons.prems(3) f by simp
    from Cons.IH [OF r(2) [unfolded f] r(4) this] r(7,8)
    obtain t2 T2 where t2: "BAVL_rebalance t' x' d' delta = Some t2" "zrep t2 [] T2" "avl T2"
        "inord T2 = inord (fill ((d', x', b', s') # c) T')" "same_order t' t2" by auto
    have "BAVL_rebalance t x d (ht T - h) = Some t2"
      using False r(1) p side t2(1) by (subst BAVL_rebalance.simps) simp
    moreover have "inord T2 = inord (fill ((d, x, b, s) # f # c) T)"
      using t2(4) inord_fill_cong [OF r(5), of "f # c"] f by simp
    ultimately show ?thesis using t2 same_order_trans [OF r(6) t2(5)] by blast
  qed
qed

section \<open>Swapping two nodes\<close>

text \<open>
  The links of a tree as the swap needs them: links and parent pointers agree, and a node
  hangs on one side of its parent only.
\<close>

definition linked :: "'v BAVL \<Rightarrow> nat set \<Rightarrow> bool" where
  "linked t N \<longleftrightarrow>
     (\<forall>x\<in>N. \<forall>d y. av_link t x d = Some y \<longrightarrow> y \<in> N \<and> av_parent t y = Some x)
     \<and> (\<forall>y\<in>N. \<forall>x. av_parent t y = Some x \<longrightarrow> x \<in> N \<and> (\<exists>d. av_link t x d = Some y))
     \<and> (\<forall>y\<in>N. av_parent t y = None \<longleftrightarrow> av_root t = Some y)
     \<and> (\<forall>x\<in>N. \<forall>y. \<not> (av_link t x False = Some y \<and> av_link t x True = Some y))
     \<and> (\<forall>x\<in>N. \<forall>y. av_parent t x = Some y \<longrightarrow> av_parent t y \<noteq> Some x)
     \<and> (\<forall>x\<in>N. av_parent t x \<noteq> Some x)"

text \<open>Exchanging two addresses.\<close>

definition xch :: "nat \<Rightarrow> nat \<Rightarrow> nat \<Rightarrow> nat" where
  "xch a b x = (if x = a then b else if x = b then a else x)"

primrec rename :: "(nat \<Rightarrow> nat) \<Rightarrow> atree \<Rightarrow> atree" where
  "rename f ALeaf = ALeaf"
| "rename f (ANode l x b r) = ANode (rename f l) (f x) b (rename f r)"

lemmas linked_parts = linked_def [THEN iffD1]

lemmas linked_child = linked_parts [THEN conjunct1, rule_format]

lemmas linked_parent = linked_parts [THEN conjunct2, THEN conjunct1, rule_format]

lemmas linked_root = linked_parts [THEN conjunct2, THEN conjunct2, THEN conjunct1, rule_format]

lemmas linked_one_side = linked_parts [THEN conjunct2, THEN conjunct2, THEN conjunct2, THEN conjunct1, rule_format]

lemmas linked_no_cycle =
  linked_parts [THEN conjunct2, THEN conjunct2, THEN conjunct2, THEN conjunct2, THEN conjunct1, rule_format]
  linked_parts [THEN conjunct2, THEN conjunct2, THEN conjunct2, THEN conjunct2, THEN conjunct2, rule_format]

lemma linked_unique:
  assumes "linked t N" "x \<in> N" "x' \<in> N" "av_link t x d = Some y" "av_link t x' d' = Some y"
  shows "x = x' \<and> d = d'"
proof -
  have "Some x = Some x'" using linked_child [OF assms(1,2,4)] linked_child [OF assms(1,3,5)] by simp
  then have "x = x'" by simp
  then show ?thesis using assms(4,5) linked_one_side [OF assms(1,2), of y] by (cases d; cases d') auto
qed

lemma linked_side:
  assumes "linked t N" "x \<in> N" "y \<in> N"
  shows "av_link t x d = Some y \<longleftrightarrow> av_parent t y = Some x \<and> d = (Some y = av_link t x True)"
proof
  assume "av_link t x d = Some y"
  then show "av_parent t y = Some x \<and> d = (Some y = av_link t x True)"
    using linked_child [OF assms(1,2), of d y] linked_one_side [OF assms(1,2), of y] by (cases d) auto
next
  assume p: "av_parent t y = Some x \<and> d = (Some y = av_link t x True)"
  then obtain e where "av_link t x e = Some y" using linked_parent [OF assms(1,3), of x] by blast
  with p show "av_link t x d = Some y" by (cases e; cases d) auto
qed

lemma linked_parent_iff:
  assumes "linked t N" "x \<in> N" "y \<in> N"
  shows "av_parent t y = Some x \<longleftrightarrow> av_link t x True = Some y \<or> av_link t x False = Some y"
  using linked_side [OF assms, of True] linked_side [OF assms, of False] by auto

lemma set_link_and_parent_simps [simp]:
  "av_link (set_link_and_parent n d c t) = (av_link t)(n := (av_link t n)(d := c))"
  "av_parent (set_link_and_parent n d c t) x = (if c = Some x then Some n else av_parent t x)"
  "av_root (set_link_and_parent n d c t) = av_root t"
  "av_balance (set_link_and_parent n d c t) = av_balance t"
  "av_comparator (set_link_and_parent n d c t) = av_comparator t"
  "av_value (set_link_and_parent n d c t) = av_value t"
  by (auto simp: set_link_and_parent_def Let_def split: option.splits)

lemma hang_link: "av_link (hang p x q t) y = (if p = Some y then (av_link t y)((Some x = av_link t y True) := q) else av_link t y)"
  by (auto simp: hang_def split: option.splits)

lemma hang_root: "av_root (hang p x q t) = (if p = None then q else av_root t)"
  by (auto simp: hang_def split: option.splits)

text \<open>The two cases of the swap, with the writes into the parents named.\<close>

lemma BAVL_swap_nodes_child:
  assumes "av_parent t b = Some a" "av_parent t a \<noteq> Some b" "(Some b = av_link t a True) = s"
  shows "BAVL_swap_nodes t a b =
    (let c = av_link t a (\<not> s);
         t = set_link_and_parent a False (av_link t b False) t;
         t = set_link_and_parent a True (av_link t b True) t;
         t = set_parent b (av_parent t a) t;
         t = hang (av_parent t b) a (Some b) t;
         t = set_link b s (Some a) t;
         t = set_parent a (Some b) t;
         t = set_link_and_parent b (\<not> s) c t;
         v = av_balance t a;
         t = set_balance a (av_balance t b) t
     in set_balance b v t)"
  using assms by (simp add: BAVL_swap_nodes_def hang_def Let_def)

lemma BAVL_swap_nodes_apart:
  assumes "av_parent t b \<noteq> Some a" "av_parent t a \<noteq> Some b"
  shows "BAVL_swap_nodes t a b =
    (let pa = av_parent t a;
         t = set_parent a (av_parent t b) t;
         t = hang (av_parent t a) b (Some a) t;
         t = set_parent b pa t;
         t = hang pa a (Some b) t;
         la = av_link t a False;
         t = set_link_and_parent a False (av_link t b False) t;
         t = set_link_and_parent b False la t;
         ra = av_link t a True;
         t = set_link_and_parent a True (av_link t b True) t;
         t = set_link_and_parent b True ra t;
         v = av_balance t a;
         t = set_balance a (av_balance t b) t
     in set_balance b v t)"
  using assms by (simp add: BAVL_swap_nodes_def hang_def Let_def)

text \<open>
  The swap exchanges the two addresses everywhere: the store it leaves is the old one read
  through the exchange.
\<close>

definition exchanged :: "nat \<Rightarrow> nat \<Rightarrow> nat set \<Rightarrow> 'v BAVL \<Rightarrow> 'v BAVL \<Rightarrow> bool" where
  "exchanged a b N t t' \<longleftrightarrow>
     (\<forall>x\<in>N. \<forall>d. av_link t' x d = map_option (xch a b) (av_link t (xch a b x) d))
     \<and> (\<forall>x\<in>N. av_parent t' x = map_option (xch a b) (av_parent t (xch a b x)))
     \<and> (\<forall>x\<in>N. av_balance t' x = av_balance t (xch a b x))
     \<and> av_root t' = map_option (xch a b) (av_root t) \<and> same_order t t'"

lemma BAVL_swap_child:
  assumes l: "linked t N" "a \<in> N" "av_link t a s = Some b"
  shows "exchanged a b N t (BAVL_swap_nodes t a b)"
proof -
  define pa la0 la1 where "pa = av_parent t a" and "la0 = av_link t b False" and "la1 = av_link t b True"
  have b: "b \<in> N" "av_parent t b = Some a" using linked_child [OF l] by auto
  have pa: "pa \<noteq> Some b" "pa \<noteq> Some a" "a \<noteq> b"
    using linked_no_cycle [OF l(1)] l(2) b unfolding pa_def by auto
  have s: "(Some b = av_link t a True) = s" using l(3) linked_one_side [OF l(1,2), of b] by (cases s) auto
  have lb: "av_link t b d \<noteq> Some a" "av_link t b d \<noteq> Some b" for d
    using linked_child [OF l(1) b(1), of d] pa b linked_no_cycle(2) [OF l(1) b(1)] by (auto simp: pa_def)
  have la: "av_link t a (\<not> s) \<noteq> Some a" "av_link t a (\<not> s) \<noteq> Some b"
    using linked_child [OF l(1,2), of "\<not> s"] pa linked_unique [OF l(1,2,2,3), of "\<not> s"] by (auto simp: pa_def)
  define t' where "t' = BAVL_swap_nodes t a b"
  note t' = t'_def [unfolded BAVL_swap_nodes_child [OF b(2) pa(1) [unfolded pa_def] s] Let_def]
  have P: "av_parent (set_link_and_parent a True (av_link t b True) (set_link_and_parent a False (av_link t b False) t)) a = pa"
    using lb by (simp add: pa_def)
  have link: "av_link t' x d = (if x = b then (if d = s then Some a else av_link t a d)
      else if x = a then av_link t b d
      else if pa = Some x \<and> d = (Some a = av_link t x True) then Some b else av_link t x d)" for x d
    unfolding t' using pa lb P by (auto simp: hang_link)
  have parent: "av_parent t' x = (if av_link t a (\<not> s) = Some x then Some b else if x = a then Some b
      else if x = b then pa else if av_link t b True = Some x \<or> av_link t b False = Some x then Some a
      else av_parent t x)" for x
    unfolding t' using pa lb P by auto
  have rest: "av_root t' = (if pa = None then Some b else av_root t)" "same_order t t'"
      "av_balance t' = (av_balance t)(a := av_balance t b, b := av_balance t a)"
    unfolding t' using P pa by (auto simp: hang_root same_order_def)
  show ?thesis unfolding exchanged_def t'_def [symmetric]
  proof (intro conjI ballI allI)
    fix x d assume x: "x \<in> N"
    show "av_link t' x d = map_option (xch a b) (av_link t (xch a b x) d)"
    proof (cases "x = a \<or> x = b")
      case True
      have m: "map_option (xch a b) p = p" if "p \<noteq> Some a" "p \<noteq> Some b" for p
        using that by (cases p) (auto simp: xch_def)
      show ?thesis
      proof (cases "x = a")
        case True
        then show ?thesis using m [OF lb] pa(3) by (simp add: link xch_def [of a b a])
      next
        case False
        then have "x = b" using \<open>x = a \<or> x = b\<close> by simp
        then show ?thesis using m [OF la] l(3) pa(3)
          by (cases "d = s") (auto simp: link xch_def [of a b b] xch_def [of a b a])
      qed
    next
      case False
      have "av_link t x d = Some b \<Longrightarrow> False" using linked_side [OF l(1) x b(1), of d] b(2) False by auto
      then show ?thesis using False linked_side [OF l(1) x l(2), of d]
        by (cases "av_link t x d") (auto simp: link xch_def pa_def)
    qed
  next
    fix x assume x: "x \<in> N"
    show "av_parent t' x = map_option (xch a b) (av_parent t (xch a b x))"
    proof (cases "x = a \<or> x = b")
      case True
      then show ?thesis using la pa b(2) by (cases pa) (auto simp: parent xch_def pa_def [symmetric])
    next
      case False
      have "av_parent t x = Some a \<longleftrightarrow> av_link t a (\<not> s) = Some x"
        using linked_parent_iff [OF l(1,2) x] l(3) False by (cases s) auto
      then show ?thesis using False linked_parent_iff [OF l(1) b(1) x]
        by (cases "av_parent t x") (auto simp: parent xch_def)
    qed
  next
    fix x assume "x \<in> N"
    show "av_balance t' x = av_balance t (xch a b x)" by (simp add: rest xch_def)
  next
    have "pa = None \<longleftrightarrow> av_root t = Some a" "av_root t \<noteq> Some b"
      using linked_root [OF l(1,2)] linked_root [OF l(1) b(1)] b(2) unfolding pa_def by auto
    then show "av_root t' = map_option (xch a b) (av_root t)" by (cases "av_root t") (auto simp: rest xch_def)
  next
    show "same_order t t'" by (rule rest)
  qed
qed

lemma map_xch_other: "p \<noteq> Some a \<Longrightarrow> p \<noteq> Some b \<Longrightarrow> map_option (xch a b) p = p"
  by (cases p) (auto simp: xch_def)

lemma BAVL_swap_apart:
  assumes l: "linked t N" "a \<in> N" "b \<in> N" "a \<noteq> b"
    and p: "av_parent t a \<noteq> Some b" "av_parent t b \<noteq> Some a" "av_parent t a \<noteq> av_parent t b"
  shows "exchanged a b N t (BAVL_swap_nodes t a b)"
proof -
  define pa pb where "pa = av_parent t a" and "pb = av_parent t b"
  have pp: "pa \<noteq> Some a" "pa \<noteq> Some b" "pb \<noteq> Some a" "pb \<noteq> Some b" "pa \<noteq> pb"
    using linked_no_cycle(2) [OF l(1,2)] linked_no_cycle(2) [OF l(1,3)] p by (auto simp: pa_def pb_def)
  have la: "av_link t a d \<noteq> Some a" "av_link t a d \<noteq> Some b" for d
    using linked_child [OF l(1,2), of d] pp by (auto simp: pa_def pb_def)
  have lb: "av_link t b d \<noteq> Some a" "av_link t b d \<noteq> Some b" for d
    using linked_child [OF l(1,3), of d] pp by (auto simp: pa_def pb_def)
  have ab: "av_link t a d \<noteq> av_link t b e \<or> av_link t a d = None" for d e
    using linked_unique [OF l(1-3), of d _ e] l(4) by (cases "av_link t a d") auto
  have one: "av_link t a True = Some x \<Longrightarrow> av_link t a False \<noteq> Some x"
      "av_link t b True = Some x \<Longrightarrow> av_link t b False \<noteq> Some x" for x
    using linked_one_side [OF l(1,2), of x] linked_one_side [OF l(1,3), of x] by auto
  define t' where "t' = BAVL_swap_nodes t a b"
  define t4 where "t4 = hang pa a (Some b) (set_parent b pa (hang pb b (Some a) (set_parent a pb t)))"
  have t4: "av_link t4 x = (if pa = Some x then (av_link t x)((Some a = av_link t x True) := Some b)
      else if pb = Some x then (av_link t x)((Some b = av_link t x True) := Some a) else av_link t x)"
      "av_parent t4 = (av_parent t)(a := pb, b := pa)" "av_balance t4 = av_balance t" "same_order t t4"
      "av_root t4 = (if pa = None then Some b else if pb = None then Some a else av_root t)" for x
    using pp l(4) by (auto simp: t4_def hang_link hang_root same_order_def)
  have t': "t' = set_balance b (av_balance t a) (set_balance a (av_balance t b)
      (set_link_and_parent b True (av_link t a True) (set_link_and_parent a True (av_link t b True)
        (set_link_and_parent b False (av_link t a False) (set_link_and_parent a False (av_link t b False) t4)))))"
    unfolding t'_def BAVL_swap_nodes_apart [OF p(2,1)] Let_def
    using pp l(4) t4 by (simp add: pa_def [symmetric] pb_def [symmetric] t4_def [symmetric])
  have link: "av_link t' x d = (if x = a then av_link t b d else if x = b then av_link t a d else av_link t4 x d)" for x d
    using l(4) by (cases d) (auto simp: t')
  have parent: "av_parent t' x = (if x = a then pb else if x = b then pa
      else if av_link t a True = Some x \<or> av_link t a False = Some x then Some b
      else if av_link t b True = Some x \<or> av_link t b False = Some x then Some a else av_parent t x)" for x
    using la lb ab [of True False] ab [of False True] ab [of True True] ab [of False False] one [of x] l(4)
    by (auto simp: t' t4(2))
  have rest: "av_root t' = av_root t4" "av_balance t' = (av_balance t)(a := av_balance t b, b := av_balance t a)"
      "same_order t t'" using t4(3,4) by (auto simp: t' same_order_def)
  show ?thesis unfolding exchanged_def t'_def [symmetric]
  proof (intro conjI ballI allI)
    fix x d assume x: "x \<in> N"
    show "av_link t' x d = map_option (xch a b) (av_link t (xch a b x) d)"
    proof (cases "x = a \<or> x = b")
      case True
      then show ?thesis using la lb l(4) by (auto simp: link xch_def [of a b a] xch_def [of a b b] map_xch_other)
    next
      case False
      then show ?thesis using linked_side [OF l(1) x l(2), of d] linked_side [OF l(1) x l(3), of d] pp
        by (cases "av_link t x d") (auto simp: link t4(1) xch_def pa_def pb_def)
    qed
  next
    fix x assume x: "x \<in> N"
    show "av_parent t' x = map_option (xch a b) (av_parent t (xch a b x))"
    proof (cases "x = a \<or> x = b")
      case True
      then show ?thesis using pp l(4)
        by (auto simp: parent xch_def [of a b a] xch_def [of a b b] map_xch_other pa_def [symmetric] pb_def [symmetric])
    next
      case False
      then show ?thesis using linked_parent_iff [OF l(1,2) x] linked_parent_iff [OF l(1,3) x]
        by (cases "av_parent t x") (auto simp: parent xch_def)
    qed
  next
    fix x assume "x \<in> N"
    show "av_balance t' x = av_balance t (xch a b x)" by (simp add: rest xch_def)
  next
    have "pa = None \<longleftrightarrow> av_root t = Some a" "pb = None \<longleftrightarrow> av_root t = Some b"
      using linked_root [OF l(1,2)] linked_root [OF l(1,3)] unfolding pa_def pb_def by auto
    then show "av_root t' = map_option (xch a b) (av_root t)"
      using l(4) by (cases "av_root t") (auto simp: rest t4(5) xch_def)
  next
    show "same_order t t'" by (rule rest)
  qed
qed

text \<open>The links of a represented tree agree with each other.\<close>

lemma trep_children:
  assumes "trep t par T q" "x \<in> set (inord T)" "av_link t x d = Some y"
  shows "y \<in> set (inord T) \<and> av_parent t y = Some x"
  using assms
proof (induction T arbitrary: par q)
  case (ANode l z b r)
  consider "x = z" | "x \<in> set (inord l)" | "x \<in> set (inord r)" using ANode.prems(2) by auto
  then show ?case
  proof cases
    case 1
    define T' where "T' = (if d then r else l)"
    have "trep t (Some z) T' (Some y)" using ANode.prems 1 by (cases d) (auto simp: T'_def)
    then have "y \<in> set (inord T')" "av_parent t y = Some z" by (cases T'; simp)+
    then show ?thesis using 1 by (auto simp: T'_def split: if_splits)
  qed (use ANode in auto)
qed simp

lemma trep_parents:
  assumes "trep t par T q" "y \<in> set (inord T)"
  shows "(q = Some y \<and> av_parent t y = par)
    \<or> (\<exists>x d. x \<in> set (inord T) \<and> av_parent t y = Some x \<and> av_link t x d = Some y)"
  using assms
proof (induction T arbitrary: par q)
  case (ANode l z b r)
  consider "y = z" | "y \<in> set (inord l)" | "y \<in> set (inord r)" using ANode.prems(2) by auto
  then show ?case
  proof cases
    case 2
    with ANode.IH(1) [of "Some z" "av_link t z False"] ANode.prems(1) show ?thesis by fastforce
  next
    case 3
    with ANode.IH(2) [of "Some z" "av_link t z True"] ANode.prems(1) show ?thesis by fastforce
  qed (use ANode.prems in simp)
qed simp

lemma trep_one_side:
  assumes "trep t par T q" "distinct (inord T)" "x \<in> set (inord T)"
  shows "\<not> (av_link t x False = Some y \<and> av_link t x True = Some y)"
  using assms
proof (induction T arbitrary: par q)
  case (ANode l z b r)
  consider "x = z" | "x \<in> set (inord l)" | "x \<in> set (inord r)" using ANode.prems(3) by auto
  then show ?case
  proof cases
    case 1
    have "av_link t z False = root_ptr l" "av_link t z True = root_ptr r"
      using ANode.prems(1) trep_root by auto
    then show ?thesis using 1 ANode.prems(2) root_ptr_mem [of l y] root_ptr_mem [of r y] by auto
  qed (use ANode in auto)
qed simp

lemma trep_acyclic:
  assumes "trep t par T q" "distinct (inord T)" "x \<in> set (inord T)" "par \<notin> Some ` set (inord T)"
  shows "av_parent t x \<noteq> Some x \<and> (\<forall>y. av_parent t x = Some y \<longrightarrow> y \<in> set (inord T) \<longrightarrow> av_parent t y \<noteq> Some x)"
  using assms
proof (induction T arbitrary: par q)
  case (ANode l z b r)
  note sub = ANode.prems(1,2,4)
  consider "x = z" | "x \<in> set (inord l)" | "x \<in> set (inord r)" using ANode.prems(3) by auto
  then show ?case
  proof cases
    case 1
    with sub show ?thesis by auto
  next
    case 2
    have p: "av_parent t x = Some z \<or> (\<exists>y\<in>set (inord l). av_parent t x = Some y)"
      using trep_parents [of t "Some z" l _ x] sub 2 by auto
    with ANode.IH(1) [of "Some z" "av_link t z False"] sub 2 show ?thesis by auto
  next
    case 3
    have p: "av_parent t x = Some z \<or> (\<exists>y\<in>set (inord r). av_parent t x = Some y)"
      using trep_parents [of t "Some z" r _ x] sub 3 by auto
    with ANode.IH(2) [of "Some z" "av_link t z True"] sub 3 show ?thesis by auto
  qed
qed simp

lemma zrep_linked:
  assumes "zrep t [] T"
  shows "linked t (set (inord T))"
proof -
  have t: "trep t None T (root_ptr T)" "distinct (inord T)" "av_root t = root_ptr T"
    using assms by (auto simp: zrep_def)
  have cyc: "av_parent t x \<noteq> Some x \<and> (\<forall>y. av_parent t x = Some y \<longrightarrow> y \<in> set (inord T) \<longrightarrow> av_parent t y \<noteq> Some x)"
    if "x \<in> set (inord T)" for x using trep_acyclic [OF t(1,2) that] by auto
  have par: "(av_root t = Some y \<and> av_parent t y = None)
      \<or> (\<exists>x d. x \<in> set (inord T) \<and> av_parent t y = Some x \<and> av_link t x d = Some y)"
    if "y \<in> set (inord T)" for y using trep_parents [OF t(1) that] t(3) by simp
  have root: "av_root t = Some y \<Longrightarrow> av_parent t y = None" for y using t(1,3) by (cases T) auto
  show ?thesis unfolding linked_def
  proof (intro conjI ballI allI impI)
    fix x d y assume "x \<in> set (inord T)" "av_link t x d = Some y"
    then show "y \<in> set (inord T)" "av_parent t y = Some x" using trep_children [OF t(1)] by blast+
  next
    fix x y assume "y \<in> set (inord T)" "av_parent t y = Some x"
    then show "x \<in> set (inord T)" "\<exists>d. av_link t x d = Some y" using par [of y] by auto
  next
    fix y assume "y \<in> set (inord T)"
    then show "av_parent t y = None \<longleftrightarrow> av_root t = Some y" using par [of y] root [of y] by auto
  next
    fix x y assume "x \<in> set (inord T)"
    then show "\<not> (av_link t x False = Some y \<and> av_link t x True = Some y)" by (rule trep_one_side [OF t(1,2)])
  next
    fix x y assume x: "x \<in> set (inord T)" "av_parent t x = Some y"
    then have "y \<in> set (inord T)" using par [of x] by auto
    with x show "av_parent t y \<noteq> Some x" using cyc by blast
  next
    fix x assume "x \<in> set (inord T)"
    then show "av_parent t x \<noteq> Some x" using cyc by blast
  qed
qed

text \<open>After an exchange of two nodes the store represents the tree with the two exchanged.\<close>

lemma xch_xch [simp]: "xch a b (xch a b x) = x"
  by (simp add: xch_def)

lemma inj_xch: "inj (xch a b)"
  by (metis injI xch_xch)

lemma inord_rename [simp]: "inord (rename f T) = map f (inord T)"
  by (induction T) auto

lemma ht_rename [simp]: "ht (rename f T) = ht T"
  by (induction T) auto

lemma avl_rename [simp]: "avl (rename f T) = avl T"
  by (induction T) auto

lemma rename_id: "(\<And>x. x \<in> set (inord T) \<Longrightarrow> f x = x) \<Longrightarrow> rename f T = T"
  by (induction T) auto

lemma root_rename: "root_ptr (rename f T) = map_option f (root_ptr T)"
  by (cases T) auto

lemma trep_exchanged:
  assumes "exchanged a b N t t'" "a \<in> N" "b \<in> N"
  shows "trep t par T q \<Longrightarrow> set (inord T) \<subseteq> N \<Longrightarrow>
    trep t' (map_option (xch a b) par) (rename (xch a b) T) (map_option (xch a b) q)"
proof (induction T arbitrary: par q)
  case (ANode l x w r)
  have N: "xch a b x \<in> N" using ANode.prems(2) assms(2,3) by (auto simp: xch_def)
  have "av_link t' (xch a b x) d = map_option (xch a b) (av_link t x d)"
      "av_parent t' (xch a b x) = map_option (xch a b) (av_parent t x)"
      "av_balance t' (xch a b x) = av_balance t x" for d
    using assms(1) N unfolding exchanged_def by simp_all
  with ANode.prems ANode.IH(1) [of "Some x" "av_link t x False"] ANode.IH(2) [of "Some x" "av_link t x True"]
  show ?case by auto
qed simp

lemma zrep_exchanged:
  assumes "exchanged a b (set (inord T)) t t'" "a \<in> set (inord T)" "b \<in> set (inord T)" "zrep t [] T"
  shows "zrep t' [] (rename (xch a b) T)"
proof -
  have "trep t' None (rename (xch a b) T) (root_ptr (rename (xch a b) T))"
    using trep_exchanged [OF assms(1-3), of None T "root_ptr T"] assms(4) by (simp add: zrep_def root_rename)
  moreover have "av_root t' = map_option (xch a b) (av_root t)" using assms(1) by (simp add: exchanged_def)
  moreover have "distinct (map (xch a b) (inord T))"
    using assms(4) inj_on_subset [OF inj_xch subset_UNIV] by (simp add: zrep_def distinct_map)
  ultimately show ?thesis using assms(4) by (simp add: zrep_def root_rename)
qed

text \<open>Renaming inside of a context.\<close>

definition rename_frame :: "(nat \<Rightarrow> nat) \<Rightarrow> frame \<Rightarrow> frame" where
  "rename_frame f = (\<lambda>(d, x, b, s). (d, f x, b, rename f s))"

lemma rename_fill: "rename f (fill c T) = fill (map (rename_frame f) c) (rename f T)"
  by (induction c T rule: fill.induct) (auto simp: rename_frame_def mkn_def)

lemma rename_ctx_id: "(\<And>x. x \<in> set (cnodes c) \<Longrightarrow> f x = x) \<Longrightarrow> map (rename_frame f) c = c"
  by (induction c rule: cnodes.induct) (auto simp: rename_frame_def rename_id)

lemma set_inord_fill: "set (inord (fill c T)) = set (inord T) \<union> set (cnodes c)"
  by (induction c T rule: fill.induct) auto

text \<open>Every node of a tree has a context.\<close>

lemma zipper_at: "x \<in> set (inord T) \<Longrightarrow> \<exists>c l b r. T = fill c (ANode l x b r)"
proof (induction T)
  case (ANode l z w r)
  consider "x = z" | "x \<in> set (inord l)" | "x \<in> set (inord r)" using ANode.prems by auto
  then show ?case
  proof cases
    case 1
    then show ?thesis by (intro exI [of _ "[]"]) auto
  next
    case 2
    with ANode.IH(1) obtain c l' b r' where "l = fill c (ANode l' x b r')" by blast
    then have "ANode l z w r = fill (c @ [(False, z, w, r)]) (ANode l' x b r')" by (simp add: fill_append mkn_def)
    then show ?thesis by blast
  next
    case 3
    with ANode.IH(2) obtain c l' b r' where "r = fill c (ANode l' x b r')" by blast
    then have "ANode l z w r = fill (c @ [(True, z, w, l)]) (ANode l' x b r')" by (simp add: fill_append mkn_def)
    then show ?thesis by blast
  qed
qed simp

end
