(* ===== verification/BAVLOps.thy ===== *)
theory BAVLOps
  imports BAVLTree Simulation
begin

text \<open>
  Insertion, removal, lookup and iteration of the AVL tree of \<^verbatim>\<open>structure/BAVL.h\<close>. A
  comparator that is a total order up to equal values, as the header demands of it, is the
  interface to the objects in the tree. Insertion and removal are shown to keep the tree
  balanced, sorted and correctly linked; the tree implements a sorted list of nodes.
\<close>

section \<open>Walking down\<close>

text \<open>The way along one side ends at the extreme node of the tree, which has no child on that side.\<close>

definition along :: "bool \<Rightarrow> frame list \<Rightarrow> bool" where
  "along d c \<longleftrightarrow> (\<forall>(e, x, b, s)\<in>set c. e = d)"

lemma BAVL_run_down_rep:
  assumes "trep t par T (Some q)"
  shows "\<exists>c l m b. T = fill c (mkn d l m b ALeaf) \<and> along d c \<and> BAVL_run_down t d q = Some m"
  using assms
proof (induction T arbitrary: par q)
  case (ANode l x b r)
  define s K where "s = (if d then l else r)" and "K = (if d then r else l)"
  have T: "ANode l x b r = mkn d s x b K" by (simp add: mkn_def s_def K_def)
  have K: "trep t (Some x) K (av_link t x d)" and q: "q = x" using ANode.prems by (auto simp: K_def)
  show ?case
  proof (cases "av_link t x d")
    case None
    then have "K = ALeaf" using trep_root [OF K] by (cases K) auto
    with None T q show ?thesis
      by (intro exI [of _ "[]"] exI [of _ s] exI [of _ x] exI [of _ b])
         (subst BAVL_run_down.simps, simp add: along_def)
  next
    case (Some y)
    have "\<exists>c l m b. K = fill c (mkn d l m b ALeaf) \<and> along d c \<and> BAVL_run_down t d y = Some m"
      using ANode.IH K Some by (cases d) (auto simp: K_def)
    then obtain c l' m b' where r: "K = fill c (mkn d l' m b' ALeaf)" "along d c" "BAVL_run_down t d y = Some m"
      by blast
    have "ANode l x b r = fill (c @ [(d, x, b, s)]) (mkn d l' m b' ALeaf)" using T r(1) by (simp add: fill_append)
    moreover have "along d (c @ [(d, x, b, s)])" using r(2) by (auto simp: along_def)
    moreover have "BAVL_run_down t d q = Some m" using Some r(3) q by (subst BAVL_run_down.simps) simp
    ultimately show ?thesis by blast
  qed
qed simp

lemma cright_along: "along True c \<Longrightarrow> cright c = []"
  by (induction c rule: cright.induct) (auto simp: along_def)

lemma cleft_along: "along False c \<Longrightarrow> cleft c = []"
  by (induction c rule: cleft.induct) (auto simp: along_def)

lemma ctx_append:
  "cleft (c @ c') = cleft c' @ cleft c" "cright (c @ c') = cright c @ cright c'" "cnodes (c @ c') = cnodes c @ cnodes c'"
  by (induction c rule: cleft.induct) auto

lemma ctx_par_mem: "ctx_par c = Some p \<Longrightarrow> p \<in> set (cnodes c)"
  by (cases c rule: cnodes.cases) auto

section \<open>Replacing a node by its only child\<close>

lemma BAVL_replace_subtree_hang:
  "BAVL_replace_subtree t dest n =
     (let t = hang (av_parent t dest) dest n t in case n of Some c \<Rightarrow> set_parent c (av_parent t dest) t | None \<Rightarrow> t)"
  by (simp add: BAVL_replace_subtree_def hang_def)

lemma BAVL_replace_subtree_rep:
  assumes z: "zrep t c (mkn d K x b ALeaf)"
  shows "zrep (BAVL_replace_subtree t x (root_ptr K)) c K \<and> same_order t (BAVL_replace_subtree t x (root_ptr K))"
proof -
  have t: "trep t (Some x) K (root_ptr K)" "av_parent t x = ctx_par c" "crep t c (Some x)"
      "distinct (inord K @ cnodes c)" "x \<notin> set (cnodes c)" "x \<notin> set (inord K)"
    using z trep_root [of t "Some x" K] by (auto simp: zrep_def)
  define h where "h = hang (ctx_par c) x (root_ptr K) t"
  have h: "crep h c (root_ptr K)" "trep h (Some x) K (root_ptr K)"
    unfolding h_def using crep_hang [OF t(3)] trep_hang [of K c x "root_ptr K" t] t by auto
  have r: "BAVL_replace_subtree t x (root_ptr K) = (case root_ptr K of Some y \<Rightarrow> set_parent y (ctx_par c) h | None \<Rightarrow> h)"
  proof -
    have "av_parent h x = ctx_par c" by (simp add: h_def t(2))
    then show ?thesis by (simp add: BAVL_replace_subtree_hang t(2) h_def [symmetric] split: option.splits)
  qed
  have so: "same_order t h" by (simp add: same_order_def h_def)
  show ?thesis
  proof (cases "root_ptr K")
    case None
    then have "K = ALeaf" by simp
    with r h t(4) so show ?thesis by (simp add: zrep_def)
  next
    case (Some y)
    then have "y \<notin> set (cnodes c)" using root_ptr_mem [OF Some] t(4) by auto
    then show ?thesis using r h t(4) so Some trep_set_parent [OF h(2) _ Some, of "ctx_par c"]
      by (auto simp: zrep_def same_order_def)
  qed
qed

section \<open>Removal\<close>

text \<open>A node with at most one child is unlinked and the path above it rebalanced.\<close>

definition BAVL_unlink :: "'v BAVL \<Rightarrow> nat \<Rightarrow> 'v BAVL option" where
  "BAVL_unlink t node =
     (let child = (case av_link t node False of Some l \<Rightarrow> Some l | None \<Rightarrow> av_link t node True) in
      case av_parent t node of
        Some parent \<Rightarrow>
          let side = (Some node = av_link t parent True);
              t = BAVL_replace_subtree t node child
          in BAVL_rebalance t parent side (- 1)
      | None \<Rightarrow> Some (BAVL_replace_subtree t node child))"

lemma BAVL_Remove_unlink:
  "BAVL_Remove t node = do {
     t \<leftarrow> (case (av_link t node False, av_link t node True) of
             (Some l, Some r) \<Rightarrow> do { m \<leftarrow> BAVL_subtree_max t l; Some (BAVL_swap_nodes t node m) }
           | _ \<Rightarrow> Some t);
     BAVL_unlink t node }"
  by (simp add: BAVL_Remove_def BAVL_unlink_def Let_def)

lemma BAVL_unlink_rep:
  assumes z: "zrep t c (mkn d K x b ALeaf)" and avl: "avl (fill c (mkn d K x b ALeaf))"
  shows "\<exists>t' T'. BAVL_unlink t x = Some t' \<and> zrep t' [] T' \<and> avl T' \<and> inord T' = cleft c @ inord K @ cright c
    \<and> same_order t t'"
proof -
  let ?t = "BAVL_replace_subtree t x (root_ptr K)"
  have l: "av_link t x (\<not> d) = root_ptr K" "av_link t x d = None" "av_parent t x = ctx_par c"
    using z by (auto simp: zrep_def dest: trep_root)
  have child: "(case av_link t x False of Some l \<Rightarrow> Some l | None \<Rightarrow> av_link t x True) = root_ptr K"
    using l by (cases d) (auto split: option.splits)
  have r: "zrep ?t c K" "same_order t ?t" using BAVL_replace_subtree_rep [OF z] by auto
  have ok: "avl K" "ctx_ok (1 + ht K) c" using avl ht_nonneg [of K] by (auto simp: avl_fill)
  show ?thesis
  proof (cases c)
    case Nil
    with l child r ok show ?thesis by (auto simp: BAVL_unlink_def)
  next
    case (Cons f c')
    obtain e p w s where f: "f = (e, p, w, s)" by (cases f)
    have side: "(Some x = av_link t p True) = e"
      using crep_side [of t e p w s c' "mkn d K x b ALeaf" x] z Cons f by simp
    have "BAVL_unlink t x = BAVL_rebalance ?t p e (ht K - (1 + ht K))"
      using l Cons f child side by (simp add: BAVL_unlink_def Let_def)
    moreover from BAVL_rebalance_rep [of ?t e p w s c' K "1 + ht K"] r ok Cons f
    obtain t' T' where "BAVL_rebalance ?t p e (ht K - (1 + ht K)) = Some t'" "zrep t' [] T'" "avl T'"
        "inord T' = inord (fill c K)" "same_order ?t t'" by auto
    ultimately show ?thesis using same_order_trans [OF r(2)] by (auto simp: inord_fill)
  qed
qed

lemma mkn_leaf_cases:
  assumes "l = ALeaf \<or> r = ALeaf"
  obtains d K where "ANode l x b r = mkn d K x b ALeaf" "inord K = inord l @ inord r"
  using assms that [of True l] that [of False r] by (auto simp: mkn_def)

lemma BAVL_Remove_rep:
  assumes z: "zrep t [] T" "avl T" and x: "x \<in> set (inord T)"
  shows "\<exists>t' T'. BAVL_Remove t x = Some t' \<and> zrep t' [] T' \<and> avl T' \<and> inord T' = remove1 x (inord T) \<and> same_order t t'"
proof -
  from zipper_at [OF x] obtain c l b r where T: "T = fill c (ANode l x b r)" by blast
  have zc: "zrep t c (ANode l x b r)" using z(1) T zrep_fill by metis
  have d: "distinct (cleft c @ inord (ANode l x b r) @ cright c)"
    using z(1) by (simp add: zrep_def T inord_fill del: inord.simps)
  have rm: "remove1 x (inord T) = cleft c @ inord l @ inord r @ cright c"
    using d by (simp add: T inord_fill remove1_append)
  have lk: "av_link t x False = root_ptr l" "av_link t x True = root_ptr r"
    using zc by (auto simp: zrep_def dest: trep_root)
  show ?thesis
  proof (cases "l = ALeaf \<or> r = ALeaf")
    case True
    then obtain e K where K: "ANode l x b r = mkn e K x b ALeaf" "inord K = inord l @ inord r" by (rule mkn_leaf_cases)
    have "BAVL_Remove t x = BAVL_unlink t x"
      using True lk by (auto simp: BAVL_Remove_unlink split: option.splits)
    with BAVL_unlink_rep [of t c e K x b] zc z(2) K rm show ?thesis by (auto simp: T)
  next
    case False
    obtain ql qr where q: "root_ptr l = Some ql" "root_ptr r = Some qr" using False by (cases l; cases r) auto
    have "trep t (Some x) l (Some ql)" using zc q by (auto simp: zrep_def lk)
    from BAVL_run_down_rep [OF this, of True] obtain cm k m w where
        m: "l = fill cm (mkn True k m w ALeaf)" "along True cm" "BAVL_run_down t True ql = Some m" by blast
    define t1 where "t1 = BAVL_swap_nodes t x m"
    define c1 where "c1 = cm @ (False, m, b, r) # c"
    have il: "inord l = cleft cm @ inord k @ [m]" using m by (simp add: inord_fill mkn_def cright_along)
    have mT: "m \<in> set (inord T)" "m \<noteq> x" using d T il by (auto simp: inord_fill)
    define c0 where "c0 = cm @ (False, x, b, r) # c"
    have T0: "T = fill c0 (mkn True k m w ALeaf)" using m(1) T by (simp add: c0_def fill_append mkn_def)
    have z0: "zrep t c0 (mkn True k m w ALeaf)" using z(1) T0 zrep_fill by metis
    have d0: "distinct (inord (mkn True k m w ALeaf) @ cnodes c0)" using z0 by (simp add: zrep_def)
    have ex: "exchanged x m (set (inord T)) t t1"
    proof (cases "cm = []")
      case True
      then have "av_link t x False = Some m" using m(1) lk by simp
      then show ?thesis unfolding t1_def by (rule BAVL_swap_child [OF zrep_linked [OF z(1)] x])
    next
      case False
      then obtain p where p: "ctx_par cm = Some p" "ctx_par c0 = Some p"
        by (cases cm rule: cnodes.cases) (auto simp: c0_def)
      have "av_parent t m = Some p" using z0 p(2) by (simp add: zrep_def)
      moreover have "av_parent t x = ctx_par c" using zc by (simp add: zrep_def)
      moreover have "p \<noteq> x" "ctx_par c \<noteq> Some m" "ctx_par c \<noteq> Some p"
        using d0 ctx_par_mem [OF p(1)] ctx_par_mem [of c] by (auto simp: c0_def ctx_append)
      ultimately show ?thesis unfolding t1_def
        by (intro BAVL_swap_apart [OF zrep_linked [OF z(1)] x mT(1)]) (use mT(2) in auto)
    qed
    have "rename (xch x m) T = fill c1 (mkn True k x w ALeaf)"
    proof -
      have "map (rename_frame (xch x m)) cm = cm" "map (rename_frame (xch x m)) c = c"
          "rename (xch x m) r = r" "rename (xch x m) k = k"
        using d0 by (intro rename_ctx_id rename_id; force simp: c0_def ctx_append xch_def)+
      then show ?thesis
        by (simp add: T0 c0_def c1_def rename_fill) (simp add: rename_frame_def mkn_def xch_def)
    qed
    then have z1: "zrep t1 c1 (mkn True k x w ALeaf)" "avl (fill c1 (mkn True k x w ALeaf))"
      using zrep_exchanged [OF ex x mT(1) z(1)] z(2) avl_rename [of "xch x m" T] zrep_fill by metis+
    have "BAVL_Remove t x = BAVL_unlink t1 x"
      using lk q m(3) by (simp add: BAVL_Remove_unlink BAVL_subtree_max_def t1_def)
    moreover have "cleft c1 @ inord k @ cright c1 = remove1 x (inord T)"
      using m(2) by (simp add: c1_def ctx_append rm il cright_along)
    moreover have "same_order t t1" using ex by (simp add: exchanged_def)
    ultimately show ?thesis using BAVL_unlink_rep [OF z1] same_order_trans by metis
  qed
qed

section \<open>The order of the tree\<close>

text \<open>What \<^verbatim>\<open>BAVL.h\<close> demands of a comparator.\<close>

locale total_comparator =
  fixes cmp :: "'v \<Rightarrow> 'v \<Rightarrow> int"
  assumes cmp_range: "cmp x y \<in> {- 1, 0, 1}"
    and cmp_swap: "cmp y x = - cmp x y"
    and cmp_trans: "cmp x y = - 1 \<Longrightarrow> cmp y z = - 1 \<Longrightarrow> cmp x z = - 1"
    and cmp_eq: "cmp x y = 0 \<Longrightarrow> cmp x z = cmp y z"
begin

lemma cmp_less_iff: "cmp x y = 1 \<longleftrightarrow> cmp y x = - 1"
  using cmp_swap [of x y] by auto

lemma cmp_cases: "cmp x y = 0 \<or> cmp x y = 1 \<or> cmp x y = - 1"
  using cmp_range [of x y] by auto

lemma cmp_refl [simp]: "cmp x x = 0"
  using cmp_swap [of x x] by simp

end

definition below :: "'v BAVL \<Rightarrow> nat \<Rightarrow> nat \<Rightarrow> bool" where
  "below t x y \<longleftrightarrow> BAVL_compare_nodes t x y = - 1"

definition ordered :: "'v BAVL \<Rightarrow> nat list \<Rightarrow> bool" where
  "ordered t xs \<longleftrightarrow> sorted_wrt (below t) xs"

lemma same_order_below: "same_order t t' \<Longrightarrow> below t' = below t"
  by (simp add: fun_eq_iff below_def BAVL_compare_nodes_def same_order_def)

lemma same_order_ordered: "same_order t t' \<Longrightarrow> ordered t' = ordered t"
  by (simp add: fun_eq_iff ordered_def same_order_below)

text \<open>Inserting into a sorted list, and the node of a given value.\<close>

definition insert_sorted :: "'v BAVL \<Rightarrow> nat \<Rightarrow> nat list \<Rightarrow> nat list" where
  "insert_sorted t n xs = takeWhile (\<lambda>y. below t y n) xs @ n # dropWhile (\<lambda>y. below t y n) xs"

definition node_of :: "'v BAVL \<Rightarrow> 'v \<Rightarrow> nat list \<Rightarrow> ptr" where
  "node_of t v xs = find (\<lambda>y. av_comparator t v (av_value t y) = 0) xs"

lemma insert_sorted_split:
  assumes "\<forall>y\<in>set l. below t y n" "\<forall>y\<in>set r. \<not> below t y n"
  shows "insert_sorted t n (l @ r) = l @ n # r"
proof -
  have "takeWhile (\<lambda>y. below t y n) r = []" "dropWhile (\<lambda>y. below t y n) r = r"
    using assms(2) by (cases r; simp)+
  then show ?thesis using assms(1) by (simp add: insert_sorted_def takeWhile_append2 dropWhile_append2)
qed

context total_comparator
begin

lemma compare_above: "av_comparator t = cmp \<Longrightarrow> BAVL_compare_nodes t x y = 1 \<longleftrightarrow> below t y x"
  by (simp add: below_def BAVL_compare_nodes_def cmp_less_iff)

lemma below_trans: "av_comparator t = cmp \<Longrightarrow> below t x y \<Longrightarrow> below t y z \<Longrightarrow> below t x z"
  unfolding below_def BAVL_compare_nodes_def using cmp_trans by blast

lemma below_asym: "av_comparator t = cmp \<Longrightarrow> below t x y \<Longrightarrow> \<not> below t y x"
  using cmp_swap [of "av_value t x" "av_value t y"] by (simp add: below_def BAVL_compare_nodes_def)

lemma below_cases: "av_comparator t = cmp \<Longrightarrow> BAVL_compare_nodes t x y = 0 \<or> below t x y \<or> below t y x"
  using cmp_cases [of "av_value t x" "av_value t y"] compare_above [of t x y]
  by (auto simp: below_def BAVL_compare_nodes_def)

text \<open>The search for the place of a new node ends at a node of equal value or at a free place.\<close>

lemma BAVL_insert_pos_rep:
  assumes c: "av_comparator t = cmp"
    and z: "zrep t c T" "root_ptr T = Some q" "ordered t (inord (fill c T))"
    and lr: "\<forall>y\<in>set (cleft c). below t y n" "\<forall>y\<in>set (cright c). below t n y"
  shows "(\<exists>y\<in>set (inord T). BAVL_insert_pos t n q = Some (y, None) \<and> BAVL_compare_nodes t n y = 0)
    \<or> (\<exists>x d b s c'. BAVL_insert_pos t n q = Some (x, Some d) \<and> fill ((d, x, b, s) # c') ALeaf = fill c T
         \<and> (\<forall>y\<in>set (cleft ((d, x, b, s) # c')). below t y n) \<and> (\<forall>y\<in>set (cright ((d, x, b, s) # c')). below t n y))"
  using z lr
proof (induction T arbitrary: c q)
  case (ANode l x b r)
  have q: "q = x" using ANode.prems(2) by simp
  have lk: "av_link t x False = root_ptr l" "av_link t x True = root_ptr r"
    using ANode.prems(1) by (auto simp: zrep_def dest: trep_root)
  have so: "\<forall>y\<in>set (inord l). below t y x" "\<forall>y\<in>set (inord r). below t x y"
    using ANode.prems(3) by (auto simp: ordered_def inord_fill sorted_wrt_append)
  show ?case
  proof (cases "BAVL_compare_nodes t n x = 0")
    case True
    then show ?thesis using q by (intro disjI1) (subst BAVL_insert_pos.simps, simp)
  next
    case ne: False
    define d where "d = (BAVL_compare_nodes t n x = 1)"
    define s K where "s = (if d then l else r)" and "K = (if d then r else l)"
    have T: "fill c (ANode l x b r) = fill ((d, x, b, s) # c) K" by (simp add: s_def K_def mkn_def)
    have lk': "av_link t x d = root_ptr K" using lk by (cases d) (auto simp: K_def)
    have nx: "if d then below t x n else below t n x"
      using ne compare_above [OF c] below_cases [OF c, of n x] by (auto simp: d_def)
    have lr': "\<forall>y\<in>set (cleft ((d, x, b, s) # c)). below t y n" "\<forall>y\<in>set (cright ((d, x, b, s) # c)). below t n y"
    proof -
      have "\<forall>y\<in>set (inord l). below t y n" if d
        using so(1) nx that below_trans [OF c, of _ x n] by simp
      moreover have "\<forall>y\<in>set (inord r). below t n y" if "\<not> d"
        using so(2) nx that below_trans [OF c, of n x] by simp
      ultimately show "\<forall>y\<in>set (cleft ((d, x, b, s) # c)). below t y n" "\<forall>y\<in>set (cright ((d, x, b, s) # c)). below t n y"
        using nx ANode.prems(4,5) by (cases d; simp add: s_def; blast)+
    qed
    show ?thesis
    proof (cases "root_ptr K")
      case None
      then have "K = ALeaf" by simp
      moreover have "BAVL_insert_pos t n q = Some (x, Some d)"
        using None ne lk' q by (subst BAVL_insert_pos.simps) (simp add: Let_def d_def [symmetric])
      ultimately show ?thesis using T lr' by (intro disjI2) metis
    next
      case (Some y)
      have step: "BAVL_insert_pos t n q = BAVL_insert_pos t n y"
        using Some ne lk' q by (subst BAVL_insert_pos.simps) (simp add: Let_def d_def [symmetric])
      have "zrep t ((d, x, b, s) # c) K" using ANode.prems(1) T by (simp add: s_def K_def mkn_def)
      moreover have "ordered t (inord (fill ((d, x, b, s) # c) K))" using ANode.prems(3) T by simp
      ultimately have "(\<exists>y'\<in>set (inord K). BAVL_insert_pos t n y = Some (y', None) \<and> BAVL_compare_nodes t n y' = 0)
        \<or> (\<exists>x' d' b' s' c'. BAVL_insert_pos t n y = Some (x', Some d') \<and> fill ((d', x', b', s') # c') ALeaf = fill ((d, x, b, s) # c) K
         \<and> (\<forall>y\<in>set (cleft ((d', x', b', s') # c')). below t y n) \<and> (\<forall>y\<in>set (cright ((d', x', b', s') # c')). below t n y))"
        using ANode.IH(1) [of "(d, x, b, s) # c" y] ANode.IH(2) [of "(d, x, b, s) # c" y] Some lr'
        by (cases d) (simp_all add: K_def)
      moreover have "set (inord K) \<subseteq> set (inord (ANode l x b r))" by (auto simp: K_def)
      ultimately show ?thesis unfolding step T by blast
    qed
  qed
qed simp

lemma ordered_insert:
  assumes c: "av_comparator t = cmp" and o: "ordered t (l @ r)"
    and "\<forall>y\<in>set l. below t y n" "\<forall>y\<in>set r. below t n y"
  shows "ordered t (l @ n # r)" "insert_sorted t n (l @ r) = l @ n # r"
    "\<forall>y\<in>set (l @ r). BAVL_compare_nodes t n y \<noteq> 0"
proof -
  show "ordered t (l @ n # r)" using assms by (auto simp: ordered_def sorted_wrt_append)
  show "insert_sorted t n (l @ r) = l @ n # r"
    using assms below_asym [OF c] by (intro insert_sorted_split) auto
  have "BAVL_compare_nodes t n y \<noteq> 0" if "below t y n" for y
    using that compare_above [OF c, of n y] by simp
  with assms show "\<forall>y\<in>set (l @ r). BAVL_compare_nodes t n y \<noteq> 0" by (auto simp: below_def)
qed

lemma BAVL_Insert_rep:
  assumes c: "av_comparator t = cmp"
    and z: "zrep t [] T" "avl T" "ordered t (inord T)" and n: "n \<notin> set (inord T)"
  shows "if \<exists>y\<in>set (inord T). BAVL_compare_nodes t n y = 0
    then \<exists>y\<in>set (inord T). BAVL_compare_nodes t n y = 0 \<and> BAVL_Insert t n = Some (False, t, Some y)
    else \<exists>t' ref T'. BAVL_Insert t n = Some (True, t', ref) \<and> zrep t' [] T' \<and> avl T'
      \<and> inord T' = insert_sorted t n (inord T) \<and> ordered t (inord T') \<and> same_order t t'"
proof (cases "av_root t")
  case None
  then have "T = ALeaf" using z(1) root_ptr_None [of T] by (auto simp: zrep_def)
  define t1 where "t1 = set_balance n 0 (set_link n True None (set_link n False None
      (set_parent n None (t\<lparr>av_root := Some n\<rparr>))))"
  have "BAVL_Insert t n = Some (True, t1, None)" using None by (simp add: BAVL_Insert_def t1_def)
  moreover have "zrep t1 [] (ANode ALeaf n 0 ALeaf)" by (simp add: zrep_def t1_def)
  moreover have "same_order t t1" by (simp add: same_order_def t1_def)
  ultimately show ?thesis using \<open>T = ALeaf\<close>
    by (auto simp: insert_sorted_def ordered_def intro!: exI [of _ "ANode ALeaf n 0 ALeaf"])
next
  case (Some q)
  then have q: "root_ptr T = Some q" using z(1) by (simp add: zrep_def)
  from BAVL_insert_pos_rep [OF c z(1) q, of n] z(3)
  consider y where "y \<in> set (inord T)" "BAVL_insert_pos t n q = Some (y, None)" "BAVL_compare_nodes t n y = 0"
    | x d b s c' where "BAVL_insert_pos t n q = Some (x, Some d)" "fill ((d, x, b, s) # c') ALeaf = T"
        "\<forall>y\<in>set (cleft ((d, x, b, s) # c')). below t y n" "\<forall>y\<in>set (cright ((d, x, b, s) # c')). below t n y"
    by fastforce
  then show ?thesis
  proof cases
    case 1
    then show ?thesis using Some by (auto simp: BAVL_Insert_def)
  next
    case (2 x d b s c')
    let ?c = "(d, x, b, s) # c'" and ?N = "ANode ALeaf n 0 ALeaf"
    have T: "inord T = cleft ?c @ cright ?c" using 2(2) inord_fill [of ?c ALeaf] by simp
    have o: "ordered t (cleft ?c @ n # cright ?c)" "insert_sorted t n (inord T) = cleft ?c @ n # cright ?c"
        "\<forall>y\<in>set (inord T). BAVL_compare_nodes t n y \<noteq> 0"
      using ordered_insert [OF c z(3) [unfolded T] 2(3,4)] unfolding T by auto
    define t1 where "t1 = set_balance n 0 (set_link n True None (set_link n False None
        (set_parent n (Some x) (set_link x d (Some n) t))))"
    have z0: "zrep t ?c ALeaf" using z(1) 2(2) zrep_fill by metis
    have n0: "n \<notin> set (cnodes ?c)" using n set_inord_fill [of ?c ALeaf] 2(2) by simp
    have z1: "zrep t1 ?c ?N" using z0 n0 unfolding zrep_def t1_def by auto
    have "ctx_ok 0 ?c" using z(2) avl_fill [of ?c ALeaf] 2(2) by simp
    from BAVL_rebalance_rep [OF z1 _ this]
    obtain t' T' where r: "BAVL_rebalance t1 x d 1 = Some t'" "zrep t' [] T'" "avl T'"
        "inord T' = inord (fill ?c ?N)" "same_order t1 t'" by auto
    have "inord T' = cleft ?c @ n # cright ?c" using r(4) inord_fill [of ?c ?N] by simp
    moreover have "BAVL_Insert t n = Some (True, t', Some x)"
      using Some 2(1) r(1) by (simp add: BAVL_Insert_def t1_def)
    moreover have "same_order t t'" using r(5) by (simp add: same_order_def t1_def)
    ultimately show ?thesis using r(2,3) o by auto
  qed
qed

text \<open>The lookup of a value finds the node with that value, if there is one.\<close>

lemma lookup_side:
  assumes "av_comparator t = cmp" "below t y x"
  shows "cmp v (av_value t x) = 1 \<Longrightarrow> cmp v (av_value t y) \<noteq> 0"
    and "cmp v (av_value t y) = - 1 \<Longrightarrow> cmp v (av_value t x) \<noteq> 0"
proof -
  have yx: "cmp (av_value t y) (av_value t x) = - 1" using assms by (simp add: below_def BAVL_compare_nodes_def)
  show "cmp v (av_value t x) = 1 \<Longrightarrow> cmp v (av_value t y) \<noteq> 0"
    using yx cmp_eq [of v "av_value t y" "av_value t x"] by auto
  show "cmp v (av_value t y) = - 1 \<Longrightarrow> cmp v (av_value t x) \<noteq> 0"
    using yx cmp_trans [of v "av_value t y" "av_value t x"] by auto
qed

lemma node_of_none: "\<forall>y\<in>set xs. av_comparator t v (av_value t y) \<noteq> 0 \<Longrightarrow> node_of t v xs = None"
  by (simp add: node_of_def find_None_iff)

lemma node_of_append: "node_of t v (xs @ ys) = (case node_of t v xs of None \<Rightarrow> node_of t v ys | Some y \<Rightarrow> Some y)"
  by (induction xs) (auto simp: node_of_def)

lemma BAVL_lookup_exact_loop_rep:
  assumes c: "av_comparator t = cmp"
  shows "trep t par T (Some q) \<Longrightarrow> ordered t (inord T) \<Longrightarrow> BAVL_lookup_exact_loop t v q = Some (node_of t v (inord T))"
proof (induction T arbitrary: par q)
  case (ANode l x b r)
  have q: "q = x" and lk: "av_link t x False = root_ptr l" "av_link t x True = root_ptr r"
    and sub: "trep t (Some x) l (root_ptr l)" "trep t (Some x) r (root_ptr r)"
    using ANode.prems(1) trep_root [of t "Some x" l] trep_root [of t "Some x" r] by auto
  have so: "\<forall>y\<in>set (inord l). below t y x" "\<forall>y\<in>set (inord r). below t x y" "ordered t (inord l)" "ordered t (inord r)"
    using ANode.prems(2) by (auto simp: ordered_def sorted_wrt_append)
  consider "cmp v (av_value t x) = 0" | "cmp v (av_value t x) = 1" | "cmp v (av_value t x) = - 1"
    using cmp_cases by blast
  then show ?case
  proof cases
    case 1
    have "\<forall>y\<in>set (inord l). av_comparator t v (av_value t y) \<noteq> 0"
      using so(1) 1 cmp_eq [of v "av_value t x"] c by (auto simp: below_def BAVL_compare_nodes_def)
         (metis cmp_swap minus_zero one_neq_zero neg_equal_0_iff_equal)
    then show ?thesis using 1 q c
      by (subst BAVL_lookup_exact_loop.simps, simp add: node_of_append node_of_none, simp add: node_of_def)
  next
    case 2
    have "\<forall>y\<in>set (inord l). av_comparator t v (av_value t y) \<noteq> 0" using so(1) 2 lookup_side(1) [OF c] c by auto
    then have "node_of t v (inord (ANode l x b r)) = node_of t v (inord r)"
      using 2 c by (simp add: node_of_append node_of_none) (simp add: node_of_def)
    moreover have "BAVL_lookup_exact_loop t v q =
        (case root_ptr r of None \<Rightarrow> Some None | Some y \<Rightarrow> BAVL_lookup_exact_loop t v y)"
      using 2 q c lk by (subst BAVL_lookup_exact_loop.simps) simp
    ultimately show ?thesis using ANode.IH(2) [of "Some x"] sub so
      by (cases "root_ptr r") (auto simp: node_of_def)
  next
    case 3
    have "\<forall>y\<in>set (inord r). av_comparator t v (av_value t y) \<noteq> 0" using so(2) 3 lookup_side(2) [OF c] c by auto
    then have "node_of t v (inord (ANode l x b r)) = node_of t v (inord l)"
      using 3 c by (simp add: node_of_append node_of_none [of "inord r"] split: option.splits)
         (auto simp: node_of_def find_None_iff)
    moreover have "BAVL_lookup_exact_loop t v q =
        (case root_ptr l of None \<Rightarrow> Some None | Some y \<Rightarrow> BAVL_lookup_exact_loop t v y)"
      using 3 q c lk by (subst BAVL_lookup_exact_loop.simps) simp
    ultimately show ?thesis using ANode.IH(1) [of "Some x"] sub so
      by (cases "root_ptr l") (auto simp: node_of_def)
  qed
qed simp

lemma BAVL_LookupExact_rep:
  assumes "av_comparator t = cmp" "zrep t [] T" "ordered t (inord T)"
  shows "BAVL_LookupExact t v = Some (node_of t v (inord T))"
proof (cases T)
  case ALeaf
  then show ?thesis using assms(2) by (simp add: BAVL_LookupExact_def zrep_def node_of_def)
next
  case (ANode l x b r)
  then have "trep t None T (Some x)" "av_root t = Some x" using assms(2) by (simp_all add: zrep_def)
  with BAVL_lookup_exact_loop_rep [OF assms(1) _ assms(3)] show ?thesis by (simp add: BAVL_LookupExact_def)
qed

end

section \<open>Iteration\<close>

text \<open>The next ancestor that is not reached from side \<open>d\<close>.\<close>

fun cnext :: "bool \<Rightarrow> frame list \<Rightarrow> ptr" where
  "cnext d [] = None"
| "cnext d ((e, x, b, s) # c) = (if e = d then cnext d c else Some x)"

lemma cnext_sides: "cnext True c = hd_ptr (cright c) None" "cnext False c = last_ptr None (cleft c)"
  by (induction c rule: cright.induct) auto

lemma BAVL_climb_rep:
  "zrep t c T \<Longrightarrow> root_ptr T = Some x \<Longrightarrow> \<exists>y. BAVL_climb t d x = Some y \<and> av_parent t y = cnext d c"
proof (induction c arbitrary: T x)
  case Nil
  then have "av_parent t x = None" by (cases T) (auto simp: zrep_def)
  then show ?case by (subst BAVL_climb.simps) simp
next
  case (Cons f c)
  obtain e p b s where f: "f = (e, p, b, s)" by (cases f)
  have px: "av_parent t x = Some p" using Cons.prems f by (cases T) (auto simp: zrep_def simp del: zrep_Cons)
  have lk: "av_link t p e = Some x" "av_link t p (\<not> e) = root_ptr s" "x \<notin> set (inord s)"
    using Cons.prems f root_ptr_mem [of T x] by (auto simp: zrep_def dest: trep_root simp del: zrep_Cons)
  have side: "Some x = av_link t p d \<longleftrightarrow> e = d"
    using lk root_ptr_mem [of s x] by (cases e; cases d) auto
  show ?case
  proof (cases "e = d")
    case True
    have "zrep t c (mkn e s p b T)" using Cons.prems(1) f by simp
    from Cons.IH [OF this] obtain y where "BAVL_climb t d p = Some y" "av_parent t y = cnext d c" by auto
    with True px side f show ?thesis by (subst BAVL_climb.simps) simp
  next
    case False
    with px side f show ?thesis by (subst BAVL_climb.simps) simp
  qed
qed

lemma BAVL_run_down_ends:
  assumes "trep t par T (Some q)"
  shows "\<exists>m. BAVL_run_down t False q = Some m \<and> hd_ptr (inord T) p = Some m"
    and "\<exists>m. BAVL_run_down t True q = Some m \<and> last_ptr p (inord T) = Some m"
proof -
  from BAVL_run_down_rep [OF assms, of False] obtain c l m b where
      r: "T = fill c (mkn False l m b ALeaf)" "along False c" "BAVL_run_down t False q = Some m" by blast
  then show "\<exists>m. BAVL_run_down t False q = Some m \<and> hd_ptr (inord T) p = Some m"
    by (simp add: inord_fill inord_mkn cleft_along)
  from BAVL_run_down_rep [OF assms, of True] obtain c l m b where
      "T = fill c (mkn True l m b ALeaf)" "along True c" "BAVL_run_down t True q = Some m" by blast
  then show "\<exists>m. BAVL_run_down t True q = Some m \<and> last_ptr p (inord T) = Some m"
    by (simp add: inord_fill inord_mkn cright_along)
qed

lemma split_unique:
  "distinct (as @ x # bs) \<Longrightarrow> as @ x # bs = as' @ x # bs' \<Longrightarrow> as = as' \<and> bs = bs'"
  by (subst (asm) append_Cons_eq_iff) auto

lemma BAVL_GetNext_Prev_rep:
  assumes z: "zrep t [] T" and i: "inord T = as @ x # bs"
  shows "BAVL_GetNext t x = Some (hd_ptr bs None)" "BAVL_GetPrev t x = Some (last_ptr None as)"
proof -
  from zipper_at [of x T] i obtain c l b r where T: "T = fill c (ANode l x b r)" by auto
  have zc: "zrep t c (ANode l x b r)" using z T zrep_fill by metis
  have "distinct (inord T)" using z by (simp add: zrep_def)
  then have ab: "as = cleft c @ inord l" "bs = inord r @ cright c"
    using split_unique [of "cleft c @ inord l" x "inord r @ cright c" as bs] i T by (simp_all add: inord_fill)
  have sub: "trep t (Some x) l (av_link t x False)" "trep t (Some x) r (av_link t x True)"
    using zc by (auto simp: zrep_def)
  show "BAVL_GetNext t x = Some (hd_ptr bs None)"
  proof (cases "av_link t x True")
    case None
    then have "r = ALeaf" using trep_root [OF sub(2)] root_ptr_None [of r] by simp
    with BAVL_climb_rep [OF zc, of x True] None ab show ?thesis by (auto simp: BAVL_GetNext_def cnext_sides)
  next
    case (Some y)
    with BAVL_run_down_ends(1) [of t "Some x" r y "hd_ptr (cright c) None"] sub(2) ab show ?thesis by (auto simp: BAVL_GetNext_def)
  qed
  show "BAVL_GetPrev t x = Some (last_ptr None as)"
  proof (cases "av_link t x False")
    case None
    then have "l = ALeaf" using trep_root [OF sub(1)] root_ptr_None [of l] by simp
    with BAVL_climb_rep [OF zc, of x False] None ab show ?thesis by (auto simp: BAVL_GetPrev_def cnext_sides)
  next
    case (Some y)
    with BAVL_run_down_ends(2) [of t "Some x" l y "last_ptr None (cleft c)"] sub(1) ab show ?thesis by (auto simp: BAVL_GetPrev_def)
  qed
qed

lemma BAVL_GetFirst_Last_rep:
  assumes "zrep t [] T"
  shows "BAVL_GetFirst t = Some (hd_ptr (inord T) None)" "BAVL_GetLast t = Some (last_ptr None (inord T))"
proof -
  show "BAVL_GetFirst t = Some (hd_ptr (inord T) None)"
    using assms BAVL_run_down_ends(1) [of t None T _ None] by (cases T) (auto simp: BAVL_GetFirst_def zrep_def)
  show "BAVL_GetLast t = Some (last_ptr None (inord T))"
    using assms BAVL_run_down_ends(2) [of t None T _ None] by (cases T) (auto simp: BAVL_GetLast_def zrep_def)
qed

text \<open>The loops over a tree: at most \<open>k\<close> nodes, from a start in steps.\<close>

fun avl_walk :: "nat \<Rightarrow> (nat \<Rightarrow> ptr option) \<Rightarrow> ptr option \<Rightarrow> nat list option" where
  "avl_walk k nx None = None"
| "avl_walk k nx (Some None) = Some []"
| "avl_walk 0 nx (Some (Some x)) = Some []"
| "avl_walk (Suc k) nx (Some (Some x)) = do { xs \<leftarrow> avl_walk k nx (nx x); Some (x # xs) }"

lemma avl_walk_next:
  assumes "zrep t [] T"
  shows "inord T = as @ bs \<Longrightarrow> length bs \<le> k \<Longrightarrow> avl_walk k (BAVL_GetNext t) (Some (hd_ptr bs None)) = Some bs"
proof (induction bs arbitrary: as k)
  case (Cons b bs)
  then obtain k' where "k = Suc k'" by (cases k) auto
  with Cons.IH [of "as @ [b]" k'] Cons.prems BAVL_GetNext_Prev_rep(1) [OF assms, of as b bs] show ?case by simp
qed simp

lemma avl_walk_prev:
  assumes "zrep t [] T"
  shows "inord T = as @ bs \<Longrightarrow> length as \<le> k \<Longrightarrow> avl_walk k (BAVL_GetPrev t) (Some (last_ptr None as)) = Some (rev as)"
proof (induction as arbitrary: bs k rule: rev_induct)
  case (snoc a as)
  then obtain k' where "k = Suc k'" by (cases k) auto
  with snoc.IH [of "a # bs" k'] snoc.prems BAVL_GetNext_Prev_rep(2) [OF assms, of as a bs] show ?case by simp
qed simp

section \<open>Lookup of a neighbour, and the consistency check\<close>

lemma ball_around: "\<forall>u\<in>set (xs @ [x]). P u \<Longrightarrow> \<forall>u\<in>set ys. P u \<Longrightarrow> \<forall>u\<in>set (xs @ x # ys). P u"
  and ball_around': "\<forall>u\<in>set (x # ys). P u \<Longrightarrow> \<forall>u\<in>set xs. P u \<Longrightarrow> \<forall>u\<in>set (xs @ x # ys). P u"
  by auto

context total_comparator
begin

lemma BAVL_lookup_loop_rep:
  assumes c: "av_comparator t = cmp"
  shows "trep t par T (Some q) \<Longrightarrow> ordered t (inord T) \<Longrightarrow>
    \<exists>y as bs. BAVL_lookup_loop t v q = Some y \<and> inord T = as @ y # bs
      \<and> (cmp v (av_value t y) = 1 \<longrightarrow> (\<forall>z\<in>set bs. cmp v (av_value t z) = - 1))
      \<and> (cmp v (av_value t y) = - 1 \<longrightarrow> (\<forall>z\<in>set as. cmp v (av_value t z) = 1))"
proof (induction T arbitrary: par q)
  case (ANode l x b r)
  have q: "q = x" and lk: "av_link t x False = root_ptr l" "av_link t x True = root_ptr r"
    and sub: "trep t (Some x) l (root_ptr l)" "trep t (Some x) r (root_ptr r)"
    using ANode.prems(1) trep_root [of t "Some x" l] trep_root [of t "Some x" r] by auto
  have so: "\<forall>y\<in>set (inord l). cmp (av_value t y) (av_value t x) = - 1"
      "\<forall>y\<in>set (inord r). cmp (av_value t x) (av_value t y) = - 1" "ordered t (inord l)" "ordered t (inord r)"
    using ANode.prems(2) c by (auto simp: ordered_def sorted_wrt_append below_def BAVL_compare_nodes_def)
  consider "cmp v (av_value t x) = 0" | "cmp v (av_value t x) = 1" | "cmp v (av_value t x) = - 1"
    using cmp_cases by blast
  then show ?case
  proof cases
    case 1
    then have "BAVL_lookup_loop t v q = Some x" using q c by (subst BAVL_lookup_loop.simps) simp
    with 1 show ?thesis by (intro exI [of _ x] exI [of _ "inord l"] exI [of _ "inord r"]) simp
  next
    case 2
    have l: "\<forall>y\<in>set (inord l @ [x]). cmp v (av_value t y) = 1"
      using so(1) 2 cmp_trans [of _ "av_value t x" v] by (auto simp: cmp_less_iff)
    have step: "BAVL_lookup_loop t v q = (case root_ptr r of None \<Rightarrow> Some x | Some y \<Rightarrow> BAVL_lookup_loop t v y)"
      using 2 c lk unfolding q by (subst BAVL_lookup_loop.simps) simp
    show ?thesis
    proof (cases "root_ptr r")
      case None
      then show ?thesis using step 2 by (intro exI [of _ x] exI [of _ "inord l"] exI [of _ "[]"]) simp
    next
      case (Some y)
      with ANode.IH(2) [of "Some x" y] sub(2) so(4) obtain z as bs where z:
        "BAVL_lookup_loop t v y = Some z" "inord r = as @ z # bs"
        "cmp v (av_value t z) = 1 \<longrightarrow> (\<forall>z\<in>set bs. cmp v (av_value t z) = - 1)"
        "cmp v (av_value t z) = - 1 \<longrightarrow> (\<forall>z\<in>set as. cmp v (av_value t z) = 1)" by auto
      have "BAVL_lookup_loop t v q = Some z" "inord (ANode l x b r) = (inord l @ x # as) @ z # bs"
        by (simp_all add: step Some z(1,2))
      then show ?thesis using z(3,4) ball_around [OF l] by blast
    qed
  next
    case 3
    have r: "\<forall>y\<in>set (x # inord r). cmp v (av_value t y) = - 1"
      using so(2) 3 cmp_trans [of v "av_value t x"] by auto
    have step: "BAVL_lookup_loop t v q = (case root_ptr l of None \<Rightarrow> Some x | Some y \<Rightarrow> BAVL_lookup_loop t v y)"
      using 3 c lk unfolding q by (subst BAVL_lookup_loop.simps) simp
    show ?thesis
    proof (cases "root_ptr l")
      case None
      then have "inord l = []" by simp
      then show ?thesis using step 3 None by (intro exI [of _ x] exI [of _ "[]"] exI [of _ "inord r"]) simp
    next
      case (Some y)
      with ANode.IH(1) [of "Some x" y] sub(1) so(3) obtain z as bs where z:
        "BAVL_lookup_loop t v y = Some z" "inord l = as @ z # bs"
        "cmp v (av_value t z) = 1 \<longrightarrow> (\<forall>z\<in>set bs. cmp v (av_value t z) = - 1)"
        "cmp v (av_value t z) = - 1 \<longrightarrow> (\<forall>z\<in>set as. cmp v (av_value t z) = 1)" by auto
      have "BAVL_lookup_loop t v q = Some z" "inord (ANode l x b r) = as @ z # (bs @ x # inord r)"
        by (simp_all add: step Some z(1,2))
      then show ?thesis using z(3,4) ball_around' [OF r] by blast
    qed
  qed
qed simp

lemma BAVL_assert_recurser_rep:
  assumes c: "av_comparator t = cmp"
  shows "trep t par T (Some q) \<Longrightarrow> avl T \<Longrightarrow> ordered t (inord T) \<Longrightarrow> BAVL_assert_recurser t q = Some (ht T)"
proof (induction T arbitrary: par q)
  case (ANode l x b r)
  have q: "q = x" and lk: "av_link t x False = root_ptr l" "av_link t x True = root_ptr r"
    and sub: "trep t (Some x) l (root_ptr l)" "trep t (Some x) r (root_ptr r)" and b: "av_balance t x = b"
    using ANode.prems(1) trep_root [of t "Some x" l] trep_root [of t "Some x" r] by auto
  have so: "\<forall>y\<in>set (inord l). below t y x" "\<forall>y\<in>set (inord r). below t x y" "ordered t (inord l)" "ordered t (inord r)"
    using ANode.prems(3) by (auto simp: ordered_def sorted_wrt_append)
  have avl: "avl l" "avl r" using ANode.prems(2) by auto
  have L: "(case root_ptr l of None \<Rightarrow> Some 0
      | Some l \<Rightarrow> if av_parent t l = Some x \<and> BAVL_compare_nodes t l x = - 1 then BAVL_assert_recurser t l else None) = Some (ht l)"
  proof (cases l)
    case (ANode l1 y b1 r1)
    moreover from this have "below t y x" using so(1) by simp
    moreover have "trep t (Some x) l (Some y)" using sub(1) ANode by simp
    then have "BAVL_assert_recurser t y = Some (ht l)" using avl(1) so(3) by (rule ANode.IH(1))
    ultimately show ?thesis using sub(1) by (simp add: below_def)
  qed simp
  have R: "(case root_ptr r of None \<Rightarrow> Some 0
      | Some l \<Rightarrow> if av_parent t l = Some x \<and> BAVL_compare_nodes t l x = 1 then BAVL_assert_recurser t l else None) = Some (ht r)"
  proof (cases r)
    case (ANode l1 y b1 r1)
    moreover from this have "BAVL_compare_nodes t y x = 1" using so(2) compare_above [OF c] by simp
    moreover have "trep t (Some x) r (Some y)" using sub(2) ANode by simp
    then have "BAVL_assert_recurser t y = Some (ht r)" using avl(2) so(4) by (rule ANode.IH(2))
    ultimately show ?thesis using sub(2) by simp
  qed simp
  show ?case using q ANode.prems(2) b L R lk by (subst BAVL_assert_recurser.simps) auto
qed simp

end

text \<open>A balanced tree is flat.\<close>

lemma avl_height: "avl T \<Longrightarrow> 2 ^ (nat (ht T) div 2) \<le> length (inord T) + 1"
proof (induction T)
  case (ANode l x b r)
  define n where "n = nat (min (ht l) (ht r))"
  have h: "nat (ht (ANode l x b r)) div 2 \<le> Suc (n div 2)" "n \<le> nat (ht l)" "n \<le> nat (ht r)"
    using ANode.prems ht_nonneg [of l] ht_nonneg [of r] by (auto simp: n_def)
  have "(2::nat) ^ (n div 2) \<le> 2 ^ (nat (ht l) div 2)" "(2::nat) ^ (n div 2) \<le> 2 ^ (nat (ht r) div 2)"
    using h(2,3) by (auto intro!: power_increasing div_le_mono)
  from order.trans [OF this(1) ANode.IH(1)] order.trans [OF this(2) ANode.IH(2)] ANode.prems
  have "2 ^ (n div 2) \<le> length (inord l) + 1" "2 ^ (n div 2) \<le> length (inord r) + 1" by simp_all
  moreover have "2 ^ (nat (ht (ANode l x b r)) div 2) \<le> (2::nat) ^ Suc (n div 2)"
    using h(1) by (intro power_increasing) auto
  ultimately show ?case by simp
qed simp

end
