(* ===== verification/BAVLSpec.thy ===== *)
theory BAVLSpec
  imports BAVLOps ByteOrder
begin

text \<open>
  The AVL tree of \<^verbatim>\<open>structure/BAVL.h\<close> as a sorted list. The abstract state is the values of the
  nodes and the sorted list of the nodes in the tree; the value of a node in the tree may change
  to one that compares equal to it only. Every sequence of operations on the pointer structure simulates the one on
  lists, for every comparator that is a total order; the results of lookup, iteration and the
  consistency check follow.
\<close>

section \<open>The sorted list\<close>

type_synonym 'v avl_state = "(nat \<Rightarrow> 'v) \<times> nat list"

datatype 'v avl_op = AV_SetValue nat 'v | AV_Insert nat | AV_Remove nat

definition insert_by :: "('v \<Rightarrow> 'v \<Rightarrow> int) \<Rightarrow> (nat \<Rightarrow> 'v) \<Rightarrow> nat \<Rightarrow> nat list \<Rightarrow> nat list" where
  "insert_by cmp val n xs =
     takeWhile (\<lambda>y. cmp (val y) (val n) = - 1) xs @ n # dropWhile (\<lambda>y. cmp (val y) (val n) = - 1) xs"

text \<open>\<^term>\<open>None\<close> where the caller breaks a precondition.\<close>

primrec avl_abs :: "('v \<Rightarrow> 'v \<Rightarrow> int) \<Rightarrow> 'v avl_op \<Rightarrow> 'v avl_state \<Rightarrow> 'v avl_state option" where
  "avl_abs cmp (AV_SetValue n v) s =
     (case s of (val, xs) \<Rightarrow>
        if n \<in> set xs \<and> cmp (val n) v \<noteq> 0 then None else Some (val(n := v), xs))"
| "avl_abs cmp (AV_Insert n) s =
     (case s of (val, xs) \<Rightarrow>
        if n \<in> set xs then None
        else if \<exists>y\<in>set xs. cmp (val n) (val y) = 0 then Some s
        else Some (val, insert_by cmp val n xs))"
| "avl_abs cmp (AV_Remove n) s =
     (case s of (val, xs) \<Rightarrow> if n \<in> set xs then Some (val, remove1 n xs) else None)"

primrec avl_do :: "'v avl_op \<Rightarrow> 'v BAVL \<Rightarrow> 'v BAVL option" where
  "avl_do (AV_SetValue n v) t = Some (t\<lparr>av_value := (av_value t)(n := v)\<rparr>)"
| "avl_do (AV_Insert n) t = do { (ok, t, ref) \<leftarrow> BAVL_Insert t n; Some t }"
| "avl_do (AV_Remove n) t = BAVL_Remove t n"

definition avl_rel :: "('v \<Rightarrow> 'v \<Rightarrow> int) \<Rightarrow> 'v BAVL \<Rightarrow> 'v avl_state \<Rightarrow> bool" where
  "avl_rel cmp t s \<longleftrightarrow> (\<exists>T. av_comparator t = cmp \<and> av_value t = fst s \<and> inord T = snd s
     \<and> zrep t [] T \<and> avl T \<and> ordered t (snd s))"

lemma zrep_value [simp]: "zrep (t\<lparr>av_value := w\<rparr>) c T = zrep t c T"
proof -
  have "trep (t\<lparr>av_value := w\<rparr>) p K q = trep t p K q" for p K q by (induction K arbitrary: p q) auto
  moreover have "crep (t\<lparr>av_value := w\<rparr>) c q = crep t c q" for q
    by (induction c arbitrary: q rule: cnodes.induct) (auto simp: calculation)
  ultimately show ?thesis by (simp add: zrep_def)
qed

lemma ordered_by: "ordered t xs \<longleftrightarrow> sorted_wrt (\<lambda>x y. av_comparator t (av_value t x) (av_value t y) = - 1) xs"
  by (simp add: ordered_def below_def [abs_def] BAVL_compare_nodes_def)

lemma ordered_value: "n \<notin> set xs \<Longrightarrow> ordered (t\<lparr>av_value := (av_value t)(n := v)\<rparr>) xs = ordered t xs"
  by (induction xs) (auto simp: ordered_by)

lemma sorted_wrt_remove1: "distinct xs \<Longrightarrow> sorted_wrt P xs \<Longrightarrow> sorted_wrt P (remove1 x xs)"
  by (simp add: distinct_remove1_removeAll removeAll_filter_not_eq sorted_wrt_filter)

lemma insert_sorted_by: "insert_sorted t n xs = insert_by (av_comparator t) (av_value t) n xs"
  by (simp add: insert_sorted_def insert_by_def below_def BAVL_compare_nodes_def)

context total_comparator
begin

lemma cmp_eq_swap: "cmp x y = 0 \<Longrightarrow> cmp z x = cmp z y"
  using cmp_eq [of x y z] cmp_swap [of x z] cmp_swap [of y z] by simp

lemma ordered_value_eq:
  assumes "av_comparator t = cmp" "cmp (av_value t n) v = 0"
  shows "ordered (t\<lparr>av_value := (av_value t)(n := v)\<rparr>) xs = ordered t xs"
proof -
  have "cmp (((av_value t)(n := v)) x) (((av_value t)(n := v)) y) = cmp (av_value t x) (av_value t y)" for x y
    using cmp_eq [OF assms(2)] cmp_eq_swap [OF assms(2)] by simp
  then show ?thesis using assms(1) by (simp add: ordered_by del: fun_upd_apply)
qed

lemma avl_sim:
  assumes "avl_rel cmp t s" "avl_abs cmp x s = Some s'"
  shows "\<exists>t'. avl_do x t = Some t' \<and> avl_rel cmp t' s'"
proof -
  obtain val xs where s: "s = (val, xs)" by (cases s)
  from assms(1) s obtain T where T: "av_comparator t = cmp" "av_value t = val" "inord T = xs" "zrep t [] T" "avl T"
      "ordered t (inord T)" by (auto simp: avl_rel_def)
  show ?thesis
  proof (cases x)
    case (AV_SetValue n v)
    with assms(2) s have "n \<notin> set xs \<or> cmp (val n) v = 0" "s' = (val(n := v), xs)" by (auto split: if_splits)
    with T AV_SetValue show ?thesis
      by (auto simp: avl_rel_def ordered_value ordered_value_eq intro!: exI [of _ T])
  next
    case (AV_Remove n)
    with assms(2) s have "n \<in> set xs" "s' = (val, remove1 n xs)" by (auto split: if_splits)
    with BAVL_Remove_rep [OF T(4,5), of n] T(3) obtain t' T' where
        r: "BAVL_Remove t n = Some t'" "zrep t' [] T'" "avl T'" "inord T' = remove1 n xs" "same_order t t'" by auto
    moreover have "ordered t' (remove1 n xs)"
      using T(3,4,6) same_order_ordered [OF r(5)] by (simp add: ordered_def sorted_wrt_remove1 zrep_def)
    ultimately show ?thesis using AV_Remove \<open>s' = _\<close> T(1,2) by (auto simp: avl_rel_def same_order_def)
  next
    case (AV_Insert n)
    with assms(2) s have n: "n \<notin> set (inord T)" using T(3) by (auto split: if_splits)
    have eq: "BAVL_compare_nodes t n y = cmp (val n) (val y)" for y by (simp add: BAVL_compare_nodes_def T)
    show ?thesis
    proof (cases "\<exists>y\<in>set xs. cmp (val n) (val y) = 0")
      case True
      with BAVL_Insert_rep [OF T(1,4,5,6) n] T(3) obtain y where "BAVL_Insert t n = Some (False, t, Some y)"
        by (auto simp: eq)
      moreover have "s' = s" using AV_Insert assms(2) s True by (auto split: if_splits)
      ultimately show ?thesis using AV_Insert assms(1) by simp
    next
      case False
      with BAVL_Insert_rep [OF T(1,4,5,6) n] T(3) obtain t' ref T' where
          "BAVL_Insert t n = Some (True, t', ref)" "zrep t' [] T'" "avl T'" "inord T' = insert_sorted t n xs"
          "ordered t (inord T')" "same_order t t'"
        by (auto simp: eq)
      moreover have "s' = (val, insert_by cmp val n xs)"
        using AV_Insert assms(2) s False by (auto split: if_splits)
      ultimately show ?thesis using AV_Insert T(1,2) same_order_ordered [of t t']
        by (auto simp: avl_rel_def same_order_def insert_sorted_by)
    qed
  qed
qed

end

sublocale total_comparator \<subseteq> avl: simulation "avl_rel cmp" avl_do "avl_abs cmp"
  by unfold_locales (rule avl_sim)

lemma avl_rel_Init: "avl_rel cmp (BAVL_Init cmp t) (av_value t, [])"
  by (auto simp: avl_rel_def BAVL_Init_def zrep_def ordered_def intro!: exI [of _ ALeaf])

context total_comparator
begin

lemma avl_observe:
  assumes "avl_rel cmp t (val, xs)"
  shows "sorted_wrt (\<lambda>x y. cmp (val x) (val y) = - 1) xs" "distinct xs"
    and "BAVL_LookupExact t v = Some (find (\<lambda>y. cmp v (val y) = 0) xs)"
    and "length xs \<le> k \<Longrightarrow> avl_walk k (BAVL_GetNext t) (BAVL_GetFirst t) = Some xs"
    and "length xs \<le> k \<Longrightarrow> avl_walk k (BAVL_GetPrev t) (BAVL_GetLast t) = Some (rev xs)"
    and "BAVL_IsEmpty t \<longleftrightarrow> xs = []"
proof -
  from assms obtain T where T: "av_comparator t = cmp" "av_value t = val" "inord T = xs" "zrep t [] T" "avl T"
      "ordered t (inord T)" by (auto simp: avl_rel_def)
  show "sorted_wrt (\<lambda>x y. cmp (val x) (val y) = - 1) xs" using T by (simp add: ordered_by)
  show "distinct xs" using T by (auto simp: zrep_def)
  show "BAVL_LookupExact t v = Some (find (\<lambda>y. cmp v (val y) = 0) xs)"
    using BAVL_LookupExact_rep [OF T(1,4,6)] T by (simp add: node_of_def)
  show "length xs \<le> k \<Longrightarrow> avl_walk k (BAVL_GetNext t) (BAVL_GetFirst t) = Some xs"
    using avl_walk_next [OF T(4), of "[]"] T(3) by (simp add: BAVL_GetFirst_Last_rep(1) [OF T(4)])
  show "length xs \<le> k \<Longrightarrow> avl_walk k (BAVL_GetPrev t) (BAVL_GetLast t) = Some (rev xs)"
    using avl_walk_prev [OF T(4), of _ "[]"] T(3) by (simp add: BAVL_GetFirst_Last_rep(2) [OF T(4)])
  show "BAVL_IsEmpty t \<longleftrightarrow> xs = []" using T(3,4) by (cases T) (auto simp: BAVL_IsEmpty_def zrep_def)
qed

lemma avl_balanced:
  assumes "avl_rel cmp t (val, xs)"
  shows "BAVL_Verify t"
    and "av_root t = Some r \<Longrightarrow> \<exists>h. BAVL_assert_recurser t r = Some h \<and> 2 ^ (nat h div 2) \<le> length xs + 1"
proof -
  from assms obtain T where T: "av_comparator t = cmp" "inord T = xs" "zrep t [] T" "avl T"
      "ordered t (inord T)" by (auto simp: avl_rel_def)
  have *: "av_parent t r = None \<and> BAVL_assert_recurser t r = Some (ht T)" if "av_root t = Some r" for r
    using BAVL_assert_recurser_rep [OF T(1) _ T(4,5), of None r] T(3) that by (cases T) (auto simp: zrep_def)
  then show "BAVL_Verify t" by (auto simp: BAVL_Verify_def split: option.split)
  show "av_root t = Some r \<Longrightarrow> \<exists>h. BAVL_assert_recurser t r = Some h \<and> 2 ^ (nat h div 2) \<le> length xs + 1"
    using * avl_height [OF T(4)] T(2) by auto
qed

lemma avl_neighbour:
  assumes "avl_rel cmp t (val, xs)" "xs \<noteq> []"
  shows "\<exists>y as bs. BAVL_Lookup t v = Some (Some y) \<and> xs = as @ y # bs
      \<and> (cmp v (val y) = 1 \<longrightarrow> (\<forall>z\<in>set bs. cmp v (val z) = - 1))
      \<and> (cmp v (val y) = - 1 \<longrightarrow> (\<forall>z\<in>set as. cmp v (val z) = 1))"
proof -
  from assms(1) obtain T where T: "av_comparator t = cmp" "av_value t = val" "inord T = xs" "zrep t [] T"
      "ordered t (inord T)" by (auto simp: avl_rel_def)
  from assms(2) T(3,4) obtain q where q: "av_root t = Some q" "trep t None T (Some q)"
    by (cases T) (auto simp: zrep_def)
  from BAVL_lookup_loop_rep [OF T(1) q(2) T(5), of v] obtain y as bs where
    "BAVL_lookup_loop t v q = Some y" "xs = as @ y # bs"
    "(cmp v (val y) = 1 \<longrightarrow> (\<forall>z\<in>set bs. cmp v (val z) = - 1)) \<and> (cmp v (val y) = - 1 \<longrightarrow> (\<forall>z\<in>set as. cmp v (val z) = 1))"
    unfolding T(2,3) by auto
  moreover from this(1) q(1) have "BAVL_Lookup t v = Some (Some y)" by (simp add: BAVL_Lookup_def)
  ultimately show ?thesis by (intro exI conjI) blast+
qed

lemmas avl_run = avl.run_rel_from [OF avl_rel_Init]

end

text \<open>The comparator macro that the comparators of the program are built from.\<close>

interpretation bcmp: total_comparator "B_COMPARE :: 'a::linorder \<Rightarrow> 'a \<Rightarrow> int"
  by unfold_locales (auto simp: B_COMPARE_def of_bool_def split: if_splits)

section \<open>What the tree promises\<close>

text \<open>A tree of four numbers, two of them equal, for the examples below.\<close>

definition avl_empty :: "int BAVL" where
  "avl_empty = \<lparr>av_comparator = B_COMPARE, av_value = \<lambda>_. 0, av_root = None, av_parent = \<lambda>_. None,
     av_link = \<lambda>_ _. None, av_balance = \<lambda>_. 0\<rparr>"

definition avl_example :: "int avl_op list" where
  "avl_example = [AV_SetValue 0 30, AV_SetValue 1 10, AV_SetValue 2 20, AV_SetValue 3 20,
     AV_Insert 0, AV_Insert 1, AV_Insert 2, AV_Insert 3, AV_Remove 1]"

lemma avl_example_run:
  "run_opt (avl_abs B_COMPARE) avl_example (av_value avl_empty, []) =
     Some ((\<lambda>_. 0)(0 := 30, 1 := 10, 2 := 20, 3 := 20), [2, 0])"
  by (simp add: avl_example_def avl_empty_def insert_by_def B_COMPARE_def of_bool_def)

text \<open>
  C25: with a comparator that is a total order, every sequence of insertions, removals and changes
  of values that keep the order runs to its end without following a null pointer, and leaves a
  tree that is the sorted list of its nodes: looking up a value finds the node with an equal value
  or reports that there is none, and iterating forward and backward visits the nodes in their
  order. Inserting a node with a value that is already there changes nothing.
\<close>

theorem BAVL_refines_sorted_list:
  assumes "total_comparator cmp" and "run_opt (avl_abs cmp) ops (av_value t0, []) = Some (val, xs)"
    and "length xs \<le> k"
  shows "\<exists>t. run_opt avl_do ops (BAVL_Init cmp t0) = Some t
    \<and> sorted_wrt (\<lambda>x y. cmp (val x) (val y) = - 1) xs
    \<and> BAVL_LookupExact t v = Some (find (\<lambda>y. cmp v (val y) = 0) xs)
    \<and> avl_walk k (BAVL_GetNext t) (BAVL_GetFirst t) = Some xs
    \<and> avl_walk k (BAVL_GetPrev t) (BAVL_GetLast t) = Some (rev xs)
    \<and> (BAVL_IsEmpty t \<longleftrightarrow> xs = [])"
  using total_comparator.avl_run [OF assms(1,2)] total_comparator.avl_observe [OF assms(1)] assms(3) by metis

theorem BAVL_refines_sorted_list_witness:
  "\<exists>t. run_opt avl_do avl_example (BAVL_Init B_COMPARE avl_empty) = Some t
    \<and> BAVL_LookupExact t 20 = Some (Some 2) \<and> BAVL_LookupExact t 10 = Some None
    \<and> avl_walk 5 (BAVL_GetNext t) (BAVL_GetFirst t) = Some [2, 0]"
proof -
  note th = BAVL_refines_sorted_list [OF bcmp.total_comparator_axioms avl_example_run, of 5]
  from th [of 20] th [of 10] show ?thesis by (auto simp: B_COMPARE_def of_bool_def)
qed



end
