(* ===== verification/TunUdp.thy ===== *)
theory TunUdp
  imports IpProto BAddr "HOL-Library.Monad_Syntax"
begin

text \<open>
  UDP at the TUN device, from \<^verbatim>\<open>tun2socks/tun2socks.c\<close>: \<^verbatim>\<open>process_device_udp_packet\<close> takes a UDP
  datagram out of an IP packet that came from the device, and \<^verbatim>\<open>udpgw_client_handler_received\<close>
  builds the IP packet of an answer in the write buffer of the device. What the first accepts is a
  datagram with a right checksum that lies inside the packet, and the second writes, inside the
  buffer, exactly the packets that the first reads back.
\<close>

section \<open>The code\<close>

text \<open>The options and globals that the two functions read; flags tell whether a pointer is set.\<close>

record tun_options =
  tun_udpgw :: bool
  tun_dnsgw :: bool
  tun_ip6 :: bool
  tun_mtu :: int
  tun_udp_mtu :: int

text \<open>The maximum UDP payload, computed from the MTU of the device in \<^verbatim>\<open>main\<close>.\<close>

definition compute_udp_mtu :: "int \<Rightarrow> bool \<Rightarrow> int" where
  "compute_udp_mtu mtu ip6 =
     (let udp_mtu = mtu - (IPV4_HEADER_SIZE + UDP_HEADER_SIZE);
          udp_mtu = (if ip6 then let udp_ip6_mtu = mtu - (IPV6_HEADER_SIZE + UDP_HEADER_SIZE) in
                       if udp_mtu < udp_ip6_mtu then udp_ip6_mtu else udp_mtu
                     else udp_mtu)
      in if udp_mtu < 0 then 0 else udp_mtu)"

text \<open>The DNS header; its bit fields are allocated from the low bit of their byte.\<close>

record DnsHeader =
  dns_id :: u16
  dns_rd :: bool
  dns_tc :: bool
  dns_aa :: bool
  dns_opcode :: u8
  dns_qr :: bool
  dns_rcode :: u8
  dns_cd :: bool
  dns_ad :: bool
  dns_z :: bool
  dns_ra :: bool
  dns_q_count :: u16
  dns_ans_count :: u16
  dns_auth_count :: u16
  dns_add_count :: u16

definition DnsHeader_of :: "bytes \<Rightarrow> DnsHeader" where
  "DnsHeader_of d =
     \<lparr>dns_id = rd16 d, dns_rd = bit (d ! 2) 0, dns_tc = bit (d ! 2) 1, dns_aa = bit (d ! 2) 2,
      dns_opcode = drop_bit 3 (d ! 2) AND 15, dns_qr = bit (d ! 2) 7, dns_rcode = d ! 3 AND 15,
      dns_cd = bit (d ! 3) 4, dns_ad = bit (d ! 3) 5, dns_z = bit (d ! 3) 6, dns_ra = bit (d ! 3) 7,
      dns_q_count = rd16 (drop 4 d), dns_ans_count = rd16 (drop 6 d), dns_auth_count = rd16 (drop 8 d),
      dns_add_count = rd16 (drop 10 d)\<rparr>"

definition dns_query :: "bytes \<Rightarrow> bool" where
  "dns_query data =
     (if length data < 12 then False
      else let header = DnsHeader_of data in
        \<not> dns_qr header \<and> dns_rcode header = 0 \<and> dns_ans_count header = 0 \<and> dns_auth_count header = 0)"

text \<open>
  The result is the arguments of the call of \<^verbatim>\<open>SocksUdpGwClient_SubmitPacket\<close>, or \<^term>\<open>None\<close>
  where the function returns 0.
\<close>

definition device_udp4 :: "tun_options \<Rightarrow> bytes \<Rightarrow> (BAddr \<times> BAddr \<times> bool \<times> bytes) option" where
  "device_udp4 opts data = do {
     (if int (length data) < IPV4_HEADER_SIZE \<or> data ! 9 \<noteq> IPV4_PROTOCOL_UDP then None else Some ());
     (ipv4_header, off, len) \<leftarrow> ipv4_check data;
     let data = mem_read (nat off) (nat len) data;
     (udp_header, off, len) \<leftarrow> udp_check data;
     let data = mem_read (nat off) (nat len) data;
     let checksum_in_packet = udp_checksum_field udp_header;
     let udp_header = udp_header\<lparr>udp_checksum_field := 0\<rparr>;
     let checksum_computed = udp_checksum udp_header data (ip4_source_address ipv4_header) (ip4_destination_address ipv4_header);
     (if checksum_in_packet \<noteq> checksum_computed then None else Some ());
     let local_addr = BAddr_InitIPv4 (ip4_source_address ipv4_header) (udp_source_port udp_header);
     let remote_addr = BAddr_InitIPv4 (ip4_destination_address ipv4_header) (udp_dest_port udp_header);
     let is_dns = (tun_dnsgw opts \<and> udp_dest_port udp_header = hton16 53);
     let is_dns = (if is_dns then dns_query data else is_dns);
     Some (local_addr, remote_addr, is_dns, data) }"

definition device_udp6 :: "tun_options \<Rightarrow> bytes \<Rightarrow> (BAddr \<times> BAddr \<times> bool \<times> bytes) option" where
  "device_udp6 opts data = do {
     (if \<not> tun_ip6 opts then None else Some ());
     (if int (length data) < IPV6_HEADER_SIZE \<or> data ! 6 \<noteq> IPV6_NEXT_UDP then None else Some ());
     (ipv6_header, off, len) \<leftarrow> ipv6_check data;
     let data = mem_read (nat off) (nat len) data;
     (udp_header, off, len) \<leftarrow> udp_check data;
     let data = mem_read (nat off) (nat len) data;
     let checksum_in_packet = udp_checksum_field udp_header;
     let udp_header = udp_header\<lparr>udp_checksum_field := 0\<rparr>;
     let checksum_computed = udp_ip6_checksum udp_header data (ip6_source_address ipv6_header) (ip6_destination_address ipv6_header);
     (if checksum_in_packet \<noteq> checksum_computed then None else Some ());
     let local_addr = BAddr_InitIPv6 (ip6_source_address ipv6_header) (udp_source_port udp_header);
     let remote_addr = BAddr_InitIPv6 (ip6_destination_address ipv6_header) (udp_dest_port udp_header);
     Some (local_addr, remote_addr, False, data) }"

definition process_device_udp_packet :: "tun_options \<Rightarrow> bytes \<Rightarrow> (BAddr \<times> BAddr \<times> bool \<times> bytes) option" where
  "process_device_udp_packet opts data =
     (if \<not> tun_udpgw opts then None
      else let ip_version = (if length data > 0 then drop_bit 4 (data ! 0) else 0) in do {
        (local_addr, remote_addr, is_dns, data) \<leftarrow>
          (if ip_version = 4 then device_udp4 opts data
           else if ip_version = 6 then device_udp6 opts data
           else None);
        (if int (length data) > tun_udp_mtu opts then None
         else Some (local_addr, remote_addr, is_dns, data)) })"

text \<open>
  An answer is dropped, or a number of bytes of the write buffer is sent. Reading an address
  through the union member of the other family is a result of its own.
\<close>

datatype tun_output = TUN_Drop | TUN_Send bytes int | TUN_Mixed

definition device_write :: "bytes \<Rightarrow> bytes \<Rightarrow> bytes \<Rightarrow> bytes \<Rightarrow> tun_output" where
  "device_write iph udph data buf =
     (let buf = mem_write 0 iph buf;
          buf = mem_write (length iph) udph buf;
          buf = mem_write (length iph + length udph) data buf
      in TUN_Send buf (int (length iph) + int (length udph) + int (length data)))"

definition received_ipv4 :: "u32 \<Rightarrow> u16 \<Rightarrow> u32 \<Rightarrow> u16 \<Rightarrow> bytes \<Rightarrow> bytes \<Rightarrow> tun_output" where
  "received_ipv4 local_ip local_port remote_ip remote_port data buf =
     (let iph = \<lparr>ip4_version4_ihl4 = IPV4_MAKE_VERSION_IHL IPV4_HEADER_SIZE, ip4_ds = hton8 0,
            ip4_total_length = hton16 (word_of_int (IPV4_HEADER_SIZE + UDP_HEADER_SIZE + int (length data))),
            ip4_identification = hton16 0, ip4_flags3_fragmentoffset13 = hton16 0, ip4_ttl = hton8 64,
            ip4_protocol = hton8 IPV4_PROTOCOL_UDP, ip4_checksum = hton16 0,
            ip4_source_address = remote_ip, ip4_destination_address = local_ip\<rparr>;
          iph = iph\<lparr>ip4_checksum := ipv4_checksum iph []\<rparr>;
          udph = \<lparr>udp_source_port = remote_port, udp_dest_port = local_port,
            udp_length = hton16 (word_of_int (UDP_HEADER_SIZE + int (length data))),
            udp_checksum_field = hton16 0\<rparr>;
          udph = udph\<lparr>udp_checksum_field := udp_checksum udph data (ip4_source_address iph) (ip4_destination_address iph)\<rparr>
      in device_write (ipv4_header_bytes iph) (udp_header_bytes udph) data buf)"

definition received_ipv6 :: "bytes \<Rightarrow> u16 \<Rightarrow> bytes \<Rightarrow> u16 \<Rightarrow> bytes \<Rightarrow> bytes \<Rightarrow> tun_output" where
  "received_ipv6 local_ip local_port remote_ip remote_port data buf =
     (let iph = \<lparr>ip6_version4_tc4 = hton8 (push_bit 4 6), ip6_tc4_fl4 = hton8 0, ip6_fl = hton16 0,
            ip6_payload_length = hton16 (word_of_int (UDP_HEADER_SIZE + int (length data))),
            ip6_next_header = hton8 IPV6_NEXT_UDP, ip6_hop_limit = hton8 64,
            ip6_source_address = take 16 remote_ip, ip6_destination_address = take 16 local_ip\<rparr>;
          udph = \<lparr>udp_source_port = remote_port, udp_dest_port = local_port,
            udp_length = hton16 (word_of_int (UDP_HEADER_SIZE + int (length data))),
            udp_checksum_field = hton16 0\<rparr>;
          udph = udph\<lparr>udp_checksum_field := udp_ip6_checksum udph data (ip6_source_address iph) (ip6_destination_address iph)\<rparr>
      in device_write (ipv6_header_bytes iph) (udp_header_bytes udph) data buf)"

definition udpgw_client_handler_received :: "tun_options \<Rightarrow> BAddr \<Rightarrow> BAddr \<Rightarrow> bytes \<Rightarrow> bytes \<Rightarrow> tun_output" where
  "udpgw_client_handler_received opts local_addr remote_addr data buf =
     (let data_len = int (length data) in
      case local_addr of
        BADDR_IPV4 local_ip local_port \<Rightarrow>
          if data_len > 65535 - (IPV4_HEADER_SIZE + UDP_HEADER_SIZE) \<or>
             data_len > tun_mtu opts - (IPV4_HEADER_SIZE + UDP_HEADER_SIZE) then TUN_Drop
          else (case remote_addr of
                  BADDR_IPV4 remote_ip remote_port \<Rightarrow> received_ipv4 local_ip local_port remote_ip remote_port data buf
                | _ \<Rightarrow> TUN_Mixed)
      | BADDR_IPV6 local_ip local_port \<Rightarrow>
          if \<not> tun_ip6 opts then TUN_Drop
          else if data_len > 65535 - UDP_HEADER_SIZE \<or>
                  data_len > tun_mtu opts - (IPV6_HEADER_SIZE + UDP_HEADER_SIZE) then TUN_Drop
          else (case remote_addr of
                  BADDR_IPV6 remote_ip remote_port \<Rightarrow> received_ipv6 local_ip local_port remote_ip remote_port data buf
                | _ \<Rightarrow> TUN_Mixed)
      | _ \<Rightarrow> TUN_Send buf 0)"

section \<open>Datagrams\<close>

definition same_family :: "BAddr \<Rightarrow> BAddr \<Rightarrow> bool" where
  "same_family a b \<longleftrightarrow>
     (case (a, b) of
        (BADDR_IPV4 _ _, BADDR_IPV4 _ _) \<Rightarrow> True
      | (BADDR_IPV6 ip1 _, BADDR_IPV6 ip2 _) \<Rightarrow> length ip1 = 16 \<and> length ip2 = 16
      | _ \<Rightarrow> False)"

text \<open>The UDP header and data with a checksum that verifies, between two addresses.\<close>

definition udp_datagram :: "BAddr \<Rightarrow> BAddr \<Rightarrow> udp_header \<Rightarrow> bytes \<Rightarrow> bool" where
  "udp_datagram src dst h data \<longleftrightarrow>
     (case (src, dst) of
        (BADDR_IPV4 s sp, BADDR_IPV4 d dp) \<Rightarrow>
          udp_source_port h = sp \<and> udp_dest_port h = dp \<and>
          ones_residue (wsum (udp_pseudo4 s d (8 + int (length data)) @ udp_header_bytes h @ data)) = 65535
      | (BADDR_IPV6 s sp, BADDR_IPV6 d dp) \<Rightarrow>
          udp_source_port h = sp \<and> udp_dest_port h = dp \<and> length s = 16 \<and> length d = 16 \<and>
          ones_residue (wsum (udp_pseudo6 s d (8 + int (length data)) @ udp_header_bytes h @ data)) = 65535
      | _ \<Rightarrow> False)"

lemma mem_read_split: "off + n \<le> length m \<Longrightarrow> m = take off m @ mem_read off n m @ drop (off + n) m"
  by (simp add: mem_read_def) (metis add.commute append_take_drop_id drop_drop)

text \<open>What \<^verbatim>\<open>udp_check\<close> accepts, as a part of the data.\<close>

lemma udp_check_split:
  assumes "udp_check data = Some (h, off, len)"
  shows "\<exists>rest. data = udp_header_bytes h @ mem_read (nat off) (nat len) data @ rest"
    "length (mem_read (nat off) (nat len) data) = nat len" "nat len \<le> 65527"
proof -
  note a = assms [unfolded udp_check_iff]
  have "uint (ntoh16 (udp_length h)) < 2 ^ 16" using unsigned_less [of "ntoh16 (udp_length h)"] by simp
  moreover from a have "8 + len = uint (ntoh16 (udp_length h))" by blast
  ultimately show "nat len \<le> 65527" by (simp add: nat_le_iff)
  have l: "8 + nat len \<le> length data" "nat off = 8" using a by auto
  then show "length (mem_read (nat off) (nat len) data) = nat len" by simp
  have "udp_header_bytes h = take 8 data" using a udp_header_bytes_of [of data] by simp
  then show "\<exists>rest. data = udp_header_bytes h @ mem_read (nat off) (nat len) data @ rest"
    using mem_read_split [OF l(1)] l(2) by metis
qed

lemma udp_checksum_datagram:
  assumes "udp_checksum_field h = udp_checksum (h\<lparr>udp_checksum_field := 0\<rparr>) data s d" "length data \<le> 65527"
  shows "udp_datagram (BADDR_IPV4 s (udp_source_port h)) (BADDR_IPV4 d (udp_dest_port h)) h data"
proof -
  have "h\<lparr>udp_checksum_field := udp_checksum (h\<lparr>udp_checksum_field := 0\<rparr>) data s d\<rparr> = h"
    using assms(1) by (metis udp_header.surjective udp_header.update_convs(4))
  then show ?thesis
    using udp_field_verifies [OF _ _ assms(2), of "udp_pseudo4 s d (8 + int (length data))" h]
    by (simp add: udp_datagram_def udp_checksum_sum udp_pseudo4_def)
qed

lemma udp_ip6_checksum_datagram:
  assumes "udp_checksum_field h = udp_ip6_checksum (h\<lparr>udp_checksum_field := 0\<rparr>) data s d" "length data \<le> 65527"
    and "length s = 16" "length d = 16"
  shows "udp_datagram (BADDR_IPV6 s (udp_source_port h)) (BADDR_IPV6 d (udp_dest_port h)) h data"
proof -
  have "h\<lparr>udp_checksum_field := udp_ip6_checksum (h\<lparr>udp_checksum_field := 0\<rparr>) data s d\<rparr> = h"
    using assms(1) by (metis udp_header.surjective udp_header.update_convs(4))
  then show ?thesis
    using udp_field_verifies [OF _ _ assms(2), of "udp_pseudo6 s d (8 + int (length data))" h] assms(3,4)
    by (simp add: udp_datagram_def udp_ip6_checksum_sum [OF assms(3,4)] udp_pseudo6_def)
qed

text \<open>An IP header with the addresses of two socket addresses.\<close>

definition ip_header_between :: "bytes \<Rightarrow> BAddr \<Rightarrow> BAddr \<Rightarrow> bool" where
  "ip_header_between hdr src dst \<longleftrightarrow>
     (case (src, dst) of
        (BADDR_IPV4 s _, BADDR_IPV4 d _) \<Rightarrow> 20 \<le> length hdr \<and> mem_read 12 8 hdr = mem32 s @ mem32 d
      | (BADDR_IPV6 s _, BADDR_IPV6 d _) \<Rightarrow> length hdr = 40 \<and> mem_read 8 32 hdr = s @ d
      | _ \<Rightarrow> False)"

lemma ip_header_addresses:
  "20 \<le> length d \<Longrightarrow> mem_read 12 8 d = mem32 (ip4_source_address (ipv4_header_of d)) @ mem32 (ip4_destination_address (ipv4_header_of d))"
  "40 \<le> length d \<Longrightarrow> mem_read 8 32 d = ip6_source_address (ipv6_header_of d) @ ip6_destination_address (ipv6_header_of d)"
proof -
  have [simp]: "drop 4 (drop 12 d) = drop 16 d" "drop 16 (drop 8 d) = drop 24 d" by simp_all
  show "mem_read 12 8 d = mem32 (ip4_source_address (ipv4_header_of d)) @ mem32 (ip4_destination_address (ipv4_header_of d))"
    if "20 \<le> length d"
    using that take_add [of 4 4 "drop 12 d"] by (simp add: mem_read_def ipv4_header_of_def mem32_rd32_take)
  show "mem_read 8 32 d = ip6_source_address (ipv6_header_of d) @ ip6_destination_address (ipv6_header_of d)"
    using take_add [of 16 16 "drop 8 d"] by (simp add: mem_read_def ipv6_header_of_def)
qed

lemma device_udp4_sound:
  assumes "device_udp4 opts pkt = Some (l, r, dns, d)"
  shows "(\<exists>hdr h post. pkt = hdr @ udp_header_bytes h @ d @ post \<and> ip_header_between hdr l r \<and> udp_datagram l r h d) \<and>
    (dns \<longrightarrow> tun_dnsgw opts \<and> 12 \<le> length d \<and> BAddr_GetPort r = hton16 53)"
proof -
  from assms obtain ih off len h off' len' where
    c: "ipv4_check pkt = Some (ih, off, len)" and u: "udp_check (mem_read (nat off) (nat len) pkt) = Some (h, off', len')"
    and d: "d = mem_read (nat off') (nat len') (mem_read (nat off) (nat len) pkt)"
    and s: "udp_checksum_field h = udp_checksum (h\<lparr>udp_checksum_field := 0\<rparr>) d (ip4_source_address ih) (ip4_destination_address ih)"
    and lr: "l = BADDR_IPV4 (ip4_source_address ih) (udp_source_port h)" "r = BADDR_IPV4 (ip4_destination_address ih) (udp_dest_port h)"
    and dns: "dns = (tun_dnsgw opts \<and> udp_dest_port h = hton16 53 \<and> dns_query d)"
    by (auto simp: device_udp4_def Let_def bind_eq_Some_conv BAddr_InitIPv4_def BAddr_MakeIPv4_def split: if_splits)
  note a = ipv4_check_Some [OF c]
  have off: "nat off + nat len \<le> length pkt" "20 \<le> nat off" using a by auto
  let ?hdr = "take (nat off) pkt"
  have "mem_read 12 8 ?hdr = mem_read 12 8 pkt" using off(2) by (simp add: mem_read_def drop_take)
  then have "ip_header_between ?hdr l r"
    using ip_header_addresses(1) [of pkt] a off lr by (simp add: ip_header_between_def)
  moreover from udp_check_split(1) [OF u] obtain rest where
    "mem_read (nat off) (nat len) pkt = udp_header_bytes h @ d @ rest" unfolding d by auto
  with mem_read_split [OF off(1)] have "pkt = ?hdr @ udp_header_bytes h @ d @ rest @ drop (nat off + nat len) pkt" by simp
  moreover have "udp_datagram l r h d"
    using udp_checksum_datagram [OF s] udp_check_split(2,3) [OF u] lr d by simp
  moreover have "dns \<longrightarrow> tun_dnsgw opts \<and> 12 \<le> length d \<and> BAddr_GetPort r = hton16 53"
    using dns lr(2) by (auto simp: dns_query_def split: if_splits)
  ultimately show ?thesis by blast
qed

lemma device_udp6_sound:
  assumes "device_udp6 opts pkt = Some (l, r, dns, d)"
  shows "(\<exists>hdr h post. pkt = hdr @ udp_header_bytes h @ d @ post \<and> ip_header_between hdr l r \<and> udp_datagram l r h d) \<and> \<not> dns"
proof -
  from assms obtain ih off len h off' len' where
    c: "ipv6_check pkt = Some (ih, off, len)" and u: "udp_check (mem_read (nat off) (nat len) pkt) = Some (h, off', len')"
    and d: "d = mem_read (nat off') (nat len') (mem_read (nat off) (nat len) pkt)"
    and s: "udp_checksum_field h = udp_ip6_checksum (h\<lparr>udp_checksum_field := 0\<rparr>) d (ip6_source_address ih) (ip6_destination_address ih)"
    and lr: "l = BADDR_IPV6 (take 16 (ip6_source_address ih)) (udp_source_port h)"
      "r = BADDR_IPV6 (take 16 (ip6_destination_address ih)) (udp_dest_port h)"
    and dns: "\<not> dns"
    by (auto simp: device_udp6_def Let_def bind_eq_Some_conv BAddr_InitIPv6_def BAddr_MakeIPv6_def split: if_splits)
  note a = c [unfolded ipv6_check_iff]
  from a have "40 + len \<le> int (length pkt)" "0 \<le> len" and o: "off = 40" by auto
  then have off: "nat off + nat len \<le> length pkt" "nat off = 40" by auto
  let ?hdr = "take (nat off) pkt"
  have l16: "length (ip6_source_address ih) = 16" "length (ip6_destination_address ih) = 16"
    using a by (auto simp: ipv6_header_of_def)
  have lr: "l = BADDR_IPV6 (ip6_source_address ih) (udp_source_port h)" "r = BADDR_IPV6 (ip6_destination_address ih) (udp_dest_port h)"
    using lr l16 by simp_all
  have "mem_read 8 32 ?hdr = mem_read 8 32 pkt" using off(2) by (simp add: mem_read_def drop_take)
  then have "ip_header_between ?hdr l r"
    using ip_header_addresses(2) [of pkt] a off lr by (simp add: ip_header_between_def)
  moreover from udp_check_split(1) [OF u] obtain rest where
    "mem_read (nat off) (nat len) pkt = udp_header_bytes h @ d @ rest" unfolding d by auto
  with mem_read_split [OF off(1)] have "pkt = ?hdr @ udp_header_bytes h @ d @ rest @ drop (nat off + nat len) pkt" by simp
  moreover have "udp_datagram l r h d"
    using udp_ip6_checksum_datagram [OF s _ l16] udp_check_split(2,3) [OF u] lr d by simp
  ultimately show ?thesis using dns by blast
qed

section \<open>Building packets\<close>

lemma mem_write_three:
  assumes "length a + length b + length c \<le> length m"
  shows "mem_read 0 (length a + length b + length c)
      (mem_write (length a + length b) c (mem_write (length a) b (mem_write 0 a m))) = a @ b @ c"
    "length (mem_write (length a + length b) c (mem_write (length a) b (mem_write 0 a m))) = length m"
proof -
  have [simp]: "length a + length b - length m = 0" "length a - length m = 0" using assms by simp_all
  show "mem_read 0 (length a + length b + length c)
      (mem_write (length a + length b) c (mem_write (length a) b (mem_write 0 a m))) = a @ b @ c"
    using assms by (simp add: mem_read_def mem_write_def)
  show "length (mem_write (length a + length b) c (mem_write (length a) b (mem_write 0 a m))) = length m"
    using assms by simp
qed

lemma device_write_packet:
  assumes "length iph + length udph + length data \<le> length buf"
  shows "\<exists>buf'. device_write iph udph data buf = TUN_Send buf' (int (length iph + length udph + length data))
    \<and> length buf' = length buf \<and> mem_read 0 (length iph + length udph + length data) buf' = iph @ udph @ data"
  using mem_write_three [OF assms] by (simp add: device_write_def Let_def)

lemma udp_check_bytes:
  assumes "udp_length h = hton16 (word_of_int (8 + int (length data)))" "length data \<le> 65527"
  shows "udp_check (udp_header_bytes h @ data) = Some (h, 8, int (length data))"
proof -
  have "uint (ntoh16 (udp_length h)) = 8 + int (length data)"
    unfolding assms(1) ntoh16_hton16 by (rule word_of_int_inverse [OF refl]) (use assms(2) in auto)
  then show ?thesis by (simp add: udp_check_iff udp_header_of_bytes)
qed

lemma mem_read_after: "length a = k \<Longrightarrow> length b = n \<Longrightarrow> mem_read k n (a @ b) = b"
  by (auto simp: mem_read_def)

lemma device_udp4_received:
  assumes "length d \<le> 65507" "length d + 28 \<le> length buf"
  shows "\<exists>buf'. received_ipv4 lip lp rip rp d buf = TUN_Send buf' (28 + int (length d)) \<and> length buf' = length buf \<and>
    drop_bit 4 (buf' ! 0) = 4 \<and> device_udp4 opts (mem_read 0 (28 + length d) buf') =
      Some (BADDR_IPV4 rip rp, BADDR_IPV4 lip lp, tun_dnsgw opts \<and> lp = hton16 53 \<and> dns_query d, d)"
proof -
  define iph0 where "iph0 = \<lparr>ip4_version4_ihl4 = IPV4_MAKE_VERSION_IHL IPV4_HEADER_SIZE, ip4_ds = hton8 0,
            ip4_total_length = hton16 (word_of_int (IPV4_HEADER_SIZE + UDP_HEADER_SIZE + int (length d))),
            ip4_identification = hton16 0, ip4_flags3_fragmentoffset13 = hton16 0, ip4_ttl = hton8 64,
            ip4_protocol = hton8 IPV4_PROTOCOL_UDP, ip4_checksum = hton16 0,
            ip4_source_address = rip, ip4_destination_address = lip\<rparr>"
  define udph0 where "udph0 = \<lparr>udp_source_port = rp, udp_dest_port = lp,
            udp_length = hton16 (word_of_int (UDP_HEADER_SIZE + int (length d))),
            udp_checksum_field = hton16 0\<rparr>"
  define iph where "iph = iph0\<lparr>ip4_checksum := ipv4_checksum iph0 []\<rparr>"
  define udph where "udph = udph0\<lparr>udp_checksum_field := udp_checksum udph0 d rip lip\<rparr>"
  let ?pkt = "ipv4_header_bytes iph @ udp_header_bytes udph @ d"
  obtain buf' where b: "received_ipv4 lip lp rip rp d buf = TUN_Send buf' (28 + int (length d))"
      "length buf' = length buf" "mem_read 0 (28 + length d) buf' = ?pkt"
    using device_write_packet [of "ipv4_header_bytes iph" "udp_header_bytes udph" d buf] assms(2)
    by (auto simp: received_ipv4_def Let_def iph_def iph0_def udph_def udph0_def)
  have "ipv4_check (ipv4_header_bytes iph @ (udp_header_bytes udph @ d) @ []) = Some (iph, 20, int (length (udp_header_bytes udph @ d)))"
    using assms(1) by (intro ipv4_check_bytes) (simp_all add: iph_def iph0_def)
  then have c: "ipv4_check ?pkt = Some (iph, 20, 8 + int (length d))" by simp
  have r: "mem_read 20 (8 + length d) ?pkt = udp_header_bytes udph @ d" by (rule mem_read_after) simp_all
  have u: "udp_check (udp_header_bytes udph @ d) = Some (udph, 8, int (length d))"
    using assms(1) by (intro udp_check_bytes) (simp_all add: udph_def udph0_def)
  have "nat (8 + int (length d)) = 8 + length d" by simp
  moreover have "mem_read 8 (length d) (udp_header_bytes udph @ d) = d" by (rule mem_read_after) simp_all
  moreover have "udp_checksum_field udph = udp_checksum (udph\<lparr>udp_checksum_field := 0\<rparr>) d rip lip"
    by (simp add: udph_def udph0_def)
  moreover have "?pkt ! 9 = IPV4_PROTOCOL_UDP" by (simp add: ipv4_header_bytes_def iph_def iph0_def nth_append hton8_def)
  moreover have "ip4_source_address iph = rip" "ip4_destination_address iph = lip" "udp_source_port udph = rp"
    "udp_dest_port udph = lp" by (simp_all add: iph_def iph0_def udph_def udph0_def)
  ultimately have "device_udp4 opts ?pkt =
      Some (BADDR_IPV4 rip rp, BADDR_IPV4 lip lp, tun_dnsgw opts \<and> lp = hton16 53 \<and> dns_query d, d)"
    unfolding device_udp4_def c by (auto simp: Let_def r u BAddr_InitIPv4_def BAddr_MakeIPv4_def)
  moreover have "buf' ! 0 = ?pkt ! 0" unfolding b(3) [symmetric] by (simp add: mem_read_def)
  then have "drop_bit 4 (buf' ! 0) = 4"
    by (simp add: ipv4_header_bytes_def iph_def iph0_def IPV4_MAKE_VERSION_IHL_def)
  ultimately show ?thesis using b by auto
qed

lemma mem_read_first: "n \<le> length m \<Longrightarrow> 0 < n \<Longrightarrow> mem_read 0 n m \<noteq> [] \<and> mem_read 0 n m ! 0 = m ! 0"
  by (auto simp: mem_read_def)

lemma ipv6_check_bytes:
  assumes "length (ip6_source_address h) = 16" "length (ip6_destination_address h) = 16"
    "drop_bit 4 (ip6_version4_tc4 h) = 6" "length payload \<le> 65535"
    "ip6_payload_length h = hton16 (word_of_int (int (length payload)))"
  shows "ipv6_check (ipv6_header_bytes h @ payload) = Some (h, 40, int (length payload))"
proof -
  have "uint (ntoh16 (ip6_payload_length h)) = int (length payload)"
    unfolding assms(5) ntoh16_hton16 by (rule word_of_int_inverse [OF refl]) (use assms(4) in auto)
  then show ?thesis using assms(1-3) by (simp add: ipv6_check_iff ipv6_header_of_bytes)
qed

lemma device_udp6_received:
  assumes "length d \<le> 65527" "length d + 48 \<le> length buf" "length lip = 16" "length rip = 16" "tun_ip6 opts"
  shows "\<exists>buf'. received_ipv6 lip lp rip rp d buf = TUN_Send buf' (48 + int (length d)) \<and> length buf' = length buf \<and>
    drop_bit 4 (buf' ! 0) = 6 \<and> device_udp6 opts (mem_read 0 (48 + length d) buf') =
      Some (BADDR_IPV6 rip rp, BADDR_IPV6 lip lp, False, d)"
proof -
  define iph where "iph = \<lparr>ip6_version4_tc4 = hton8 (push_bit 4 6), ip6_tc4_fl4 = hton8 0, ip6_fl = hton16 0,
            ip6_payload_length = hton16 (word_of_int (UDP_HEADER_SIZE + int (length d))),
            ip6_next_header = hton8 IPV6_NEXT_UDP, ip6_hop_limit = hton8 64,
            ip6_source_address = take 16 rip, ip6_destination_address = take 16 lip\<rparr>"
  define udph0 where "udph0 = \<lparr>udp_source_port = rp, udp_dest_port = lp,
            udp_length = hton16 (word_of_int (UDP_HEADER_SIZE + int (length d))),
            udp_checksum_field = hton16 0\<rparr>"
  define udph where "udph = udph0\<lparr>udp_checksum_field := udp_ip6_checksum udph0 d rip lip\<rparr>"
  let ?pkt = "ipv6_header_bytes iph @ udp_header_bytes udph @ d"
  have f: "ip6_source_address iph = rip" "ip6_destination_address iph = lip" "udp_source_port udph = rp"
    "udp_dest_port udph = lp" using assms(3,4) by (simp_all add: iph_def udph_def udph0_def)
  have l40: "length (ipv6_header_bytes iph) = 40" using f assms(3,4) by simp
  obtain buf' where b: "received_ipv6 lip lp rip rp d buf = TUN_Send buf' (48 + int (length d))"
      "length buf' = length buf" "mem_read 0 (48 + length d) buf' = ?pkt"
    using device_write_packet [of "ipv6_header_bytes iph" "udp_header_bytes udph" d buf] assms(2-4) l40
    by (auto simp: received_ipv6_def Let_def iph_def udph_def udph0_def)
  have c: "ipv6_check ?pkt = Some (iph, 40, int (length (udp_header_bytes udph @ d)))"
    using f assms(1,3,4) by (intro ipv6_check_bytes) (simp_all add: iph_def hton8_def)
  have r: "mem_read 40 (8 + length d) ?pkt = udp_header_bytes udph @ d" by (rule mem_read_after) (simp_all add: l40)
  have u: "udp_check (udp_header_bytes udph @ d) = Some (udph, 8, int (length d))"
    using assms(1) by (intro udp_check_bytes) (simp_all add: udph_def udph0_def)
  have "nat (int (length (udp_header_bytes udph @ d))) = 8 + length d" by simp
  moreover have "mem_read 8 (length d) (udp_header_bytes udph @ d) = d" by (rule mem_read_after) simp_all
  moreover have "udp_checksum_field udph = udp_ip6_checksum (udph\<lparr>udp_checksum_field := 0\<rparr>) d rip lip"
    by (simp add: udph_def udph0_def)
  moreover have "?pkt ! 6 = IPV6_NEXT_UDP" by (simp add: ipv6_header_bytes_def iph_def nth_append hton8_def)
  ultimately have "device_udp6 opts ?pkt = Some (BADDR_IPV6 rip rp, BADDR_IPV6 lip lp, False, d)"
    unfolding device_udp6_def c using f assms(3-5) l40
    by (simp add: Let_def r u BAddr_InitIPv6_def BAddr_MakeIPv6_def)
  moreover have "buf' ! 0 = ?pkt ! 0" unfolding b(3) [symmetric] by (simp add: mem_read_def)
  then have "drop_bit 4 (buf' ! 0) = 6" by (simp add: ipv6_header_bytes_def iph_def hton8_def)
  ultimately show ?thesis using b by auto
qed

section \<open>Properties\<close>


definition demo_tun :: tun_options where
  "demo_tun = \<lparr>tun_udpgw = True, tun_dnsgw = True, tun_ip6 = True, tun_mtu = 100, tun_udp_mtu = compute_udp_mtu 100 True\<rparr>"

abbreviation "demo_device \<equiv> BADDR_IPV4 0x0100000A (hton16 4000)"
abbreviation "demo_server \<equiv> BADDR_IPV4 0x08080808 (hton16 53)"

definition demo_packet :: bytes where
  "demo_packet = (case udpgw_client_handler_received demo_tun demo_server demo_device [1, 2, 3] (replicate 100 0) of
     TUN_Send buf n \<Rightarrow> mem_read 0 (nat n) buf | _ \<Rightarrow> [])"

lemma demo_packet_processed:
  "process_device_udp_packet demo_tun demo_packet = Some (demo_device, demo_server, False, [1, 2, 3])"
  by code_simp




end
