(* ===== verification/SocksProto.thy ===== *)
theory SocksProto
  imports ByteOrder BAddr
begin

text \<open>
  The SOCKS5 wire format of \<^verbatim>\<open>misc/socks_proto.h\<close> as byte strings, and the events a
  SOCKS client reports (\<^verbatim>\<open>socksclient/BSocksClient.h\<close>).
\<close>

datatype socks_event = BSOCKSCLIENT_EVENT_ERROR | BSOCKSCLIENT_EVENT_UP | BSOCKSCLIENT_EVENT_ERROR_CLOSED

definition SOCKS_VERSION :: u8 where "SOCKS_VERSION = 0x05"
definition SOCKS_METHOD_NO_AUTHENTICATION_REQUIRED :: int where "SOCKS_METHOD_NO_AUTHENTICATION_REQUIRED = 0x00"
definition SOCKS_METHOD_USERNAME_PASSWORD :: int where "SOCKS_METHOD_USERNAME_PASSWORD = 0x02"
definition SOCKS_CMD_CONNECT :: u8 where "SOCKS_CMD_CONNECT = 0x01"
definition SOCKS_ATYP_IPV4 :: u8 where "SOCKS_ATYP_IPV4 = 0x01"
definition SOCKS_ATYP_IPV6 :: u8 where "SOCKS_ATYP_IPV6 = 0x04"
definition SOCKS_REP_SUCCEEDED :: u8 where "SOCKS_REP_SUCCEEDED = 0x00"

lemmas socks_consts = SOCKS_VERSION_def SOCKS_METHOD_NO_AUTHENTICATION_REQUIRED_def
  SOCKS_METHOD_USERNAME_PASSWORD_def SOCKS_CMD_CONNECT_def SOCKS_ATYP_IPV4_def SOCKS_ATYP_IPV6_def
  SOCKS_REP_SUCCEEDED_def

text \<open>The packed structs.\<close>

definition socks_client_hello_header :: "u8 \<Rightarrow> u8 \<Rightarrow> bytes" where
  "socks_client_hello_header ver nmethods = [ver, nmethods]"

definition socks_client_hello_method :: "u8 \<Rightarrow> bytes" where
  "socks_client_hello_method method = [method]"

definition socks_request_header :: "u8 \<Rightarrow> u8 \<Rightarrow> u8 \<Rightarrow> u8 \<Rightarrow> bytes" where
  "socks_request_header ver cmd rsv atyp = [ver, cmd, rsv, atyp]"

definition socks_addr_ipv4 :: "u32 \<Rightarrow> u16 \<Rightarrow> bytes" where
  "socks_addr_ipv4 addr port = mem32 addr @ mem16 port"

definition socks_addr_ipv6 :: "bytes \<Rightarrow> u16 \<Rightarrow> bytes" where
  "socks_addr_ipv6 addr port = take 16 addr @ mem16 port"

record socks_server_hello =
  sh_ver :: u8
  sh_method :: u8

definition socks_server_hello_of :: "bytes \<Rightarrow> socks_server_hello" where
  "socks_server_hello_of b = \<lparr>sh_ver = b ! 0, sh_method = b ! 1\<rparr>"

record socks_reply_header =
  rh_ver :: u8
  rh_rep :: u8
  rh_rsv :: u8
  rh_atyp :: u8

definition socks_reply_header_of :: "bytes \<Rightarrow> socks_reply_header" where
  "socks_reply_header_of b = \<lparr>rh_ver = b ! 0, rh_rep = b ! 1, rh_rsv = b ! 2, rh_atyp = b ! 3\<rparr>"

end
