(* ===== verification/SocksClient.thy ===== *)
theory SocksClient
  imports SocksProto FlowInterface Alloc "HOL-Library.Sublist"
begin

text \<open>
  The SOCKS5 client of \<^verbatim>\<open>socksclient/BSocksClient.c\<close>: the handshake over a TCP connection
  until the connection is handed to its owner.

  A client record is \<^verbatim>\<open>BSocksClient\<close> with the two control interfaces embedded and flags for
  the parts that are initialised; \<open>bs_events\<close> lists the calls of the user's handler.
  Pointers into the buffer are offsets. The results of \<^verbatim>\<open>BConnection_Init\<close> and
  \<^verbatim>\<open>realloc\<close> are parameters; \<^verbatim>\<open>size_t\<close> has 64 bits.
\<close>

section \<open>Data\<close>

type_synonym size_t = "64 word"

datatype bs_state =
    STATE_CONNECTING | STATE_SENDING_HELLO | STATE_SENT_HELLO | STATE_SENDING_REQUEST | STATE_SENT_REQUEST
  | STATE_RECEIVED_REPLY_HEADER | STATE_UP | STATE_SENDING_PASSWORD | STATE_SENT_PASSWORD

record BSocksClient_auth_info =
  ai_auth_type :: int
  ai_username :: bytes
  ai_password :: bytes

record BSocksClient =
  bs_auth_info :: "BSocksClient_auth_info list"
  bs_dest_addr :: BAddr
  bs_state :: bs_state
  bs_buffer :: "bytes option"
  bs_connector :: bool
  bs_con :: bool
  bs_control :: bool
  bs_up_io :: bool
  bs_send_if :: "int PacketPassInterface"
  bs_recv_if :: "int StreamRecvInterface"
  bs_recv_dest :: int
  bs_recv_len :: int
  bs_recv_total :: int
  bs_events :: "socks_event list"

type_synonym bs_realloc = "bytes option \<Rightarrow> size_t \<Rightarrow> bytes option option"

section \<open>Helpers\<close>

definition BSocksClient_report_error :: "BSocksClient \<Rightarrow> socks_event \<Rightarrow> BSocksClient" where
  "BSocksClient_report_error c error = c\<lparr>bs_events := bs_events c @ [error]\<rparr>"

definition BSocksClient_init_control_io :: "BSocksClient \<Rightarrow> BSocksClient" where
  "BSocksClient_init_control_io c =
     c\<lparr>bs_recv_if := StreamRecvInterface_Receiver_Init (StreamRecvInterface_Init 0),
       bs_send_if := PacketPassInterface_Sender_Init (PacketPassInterface_Init 0 INT_MAX),
       bs_control := True\<rparr>"

definition BSocksClient_free_control_io :: "BSocksClient \<Rightarrow> BSocksClient" where
  "BSocksClient_free_control_io c =
     c\<lparr>bs_send_if := PacketPassInterface_Free (bs_send_if c),
       bs_recv_if := StreamRecvInterface_Free (bs_recv_if c),
       bs_control := False\<rparr>"

definition BSocksClient_init_up_io :: "BSocksClient \<Rightarrow> BSocksClient" where
  "BSocksClient_init_up_io c = c\<lparr>bs_up_io := True\<rparr>"

definition BSocksClient_free_up_io :: "BSocksClient \<Rightarrow> BSocksClient" where
  "BSocksClient_free_up_io c = c\<lparr>bs_up_io := False\<rparr>"

definition BSocksClient_reserve_buffer ::
    "bs_realloc \<Rightarrow> BSocksClient \<Rightarrow> size_t bsize_t \<Rightarrow> BSocksClient option" where
  "BSocksClient_reserve_buffer realloc c sz =
     (if is_overflow sz then None
      else case BRealloc realloc (bs_buffer c) (bsize_value sz) of
        None \<Rightarrow> None
      | Some buffer \<Rightarrow> Some (c\<lparr>bs_buffer := buffer\<rparr>))"

definition BSocksClient_do_receive :: "BSocksClient \<Rightarrow> BSocksClient" where
  "BSocksClient_do_receive c =
     c\<lparr>bs_recv_if := StreamRecvInterface_Receiver_Recv (bs_recv_if c)
         (bs_recv_dest c + bs_recv_len c) (bs_recv_total c - bs_recv_len c)\<rparr>"

definition BSocksClient_start_receive :: "BSocksClient \<Rightarrow> int \<Rightarrow> int \<Rightarrow> BSocksClient" where
  "BSocksClient_start_receive c dest tot =
     BSocksClient_do_receive (c\<lparr>bs_recv_dest := dest, bs_recv_len := 0, bs_recv_total := tot\<rparr>)"

text \<open>\<^verbatim>\<open>memcpy\<close> into the buffer.\<close>

definition bs_write :: "int \<Rightarrow> bytes \<Rightarrow> BSocksClient \<Rightarrow> BSocksClient" where
  "bs_write off x c = c\<lparr>bs_buffer := map_option (mem_write (nat off) x) (bs_buffer c)\<rparr>"

definition bs_send :: "BSocksClient \<Rightarrow> size_t bsize_t \<Rightarrow> BSocksClient" where
  "bs_send c sz = c\<lparr>bs_send_if := PacketPassInterface_Sender_Send (bs_send_if c) 0 (c_int (uint (bsize_value sz)))\<rparr>"

section \<open>Handlers\<close>

text \<open>The loop that writes the offered methods behind the hello header.\<close>

definition bs_write_methods :: "BSocksClient \<Rightarrow> BSocksClient" where
  "bs_write_methods c =
     fold (\<lambda>i c. bs_write (2 + int i * 1)
             (socks_client_hello_method (hton8 (word_of_int (ai_auth_type (bs_auth_info c ! i))))) c)
       [0..<length (bs_auth_info c)] c"

definition BSocksClient_connector_handler :: "bs_realloc \<Rightarrow> bool \<Rightarrow> BSocksClient \<Rightarrow> bool \<Rightarrow> BSocksClient" where
  "BSocksClient_connector_handler realloc con_init_ok c is_error =
     (if is_error then BSocksClient_report_error c BSOCKSCLIENT_EVENT_ERROR
      else if \<not> con_init_ok then BSocksClient_report_error c BSOCKSCLIENT_EVENT_ERROR
      else let c = c\<lparr>bs_con := True\<rparr>;
               c = BSocksClient_init_control_io c;
               fail1 = (\<lambda>c. BSocksClient_report_error ((BSocksClient_free_control_io c)\<lparr>bs_con := False\<rparr>)
                              BSOCKSCLIENT_EVENT_ERROR);
               num_auth_info = length (bs_auth_info c) in
      if num_auth_info = 0 \<or> num_auth_info > 255 then fail1 c
      else let sz = bsize_add (bsize_fromsize 2) (bsize_mul (bsize_fromsize (of_nat num_auth_info)) (bsize_fromsize 1)) in
      case BSocksClient_reserve_buffer realloc c sz of
        None \<Rightarrow> fail1 c
      | Some c \<Rightarrow>
          let c = bs_write 0 (socks_client_hello_header (hton8 SOCKS_VERSION) (hton8 (of_nat num_auth_info))) c;
              c = bs_write_methods c;
              c = bs_send c sz
          in c\<lparr>bs_state := STATE_SENDING_HELLO\<rparr>)"

datatype bcon_event = BCONNECTION_EVENT_ERROR | BCONNECTION_EVENT_RECVCLOSED

definition BSocksClient_connection_handler :: "BSocksClient \<Rightarrow> bcon_event \<Rightarrow> BSocksClient" where
  "BSocksClient_connection_handler c event =
     (if bs_state c = STATE_UP \<and> event = BCONNECTION_EVENT_RECVCLOSED
      then BSocksClient_report_error c BSOCKSCLIENT_EVENT_ERROR_CLOSED
      else BSocksClient_report_error c BSOCKSCLIENT_EVENT_ERROR)"

definition BSocksClient_auth_finished :: "bs_realloc \<Rightarrow> BSocksClient \<Rightarrow> BSocksClient" where
  "BSocksClient_auth_finished realloc c =
     (let sz = bsize_fromsize 4;
          sz = (case bs_dest_addr c of
                  BADDR_IPV4 _ _ \<Rightarrow> bsize_add sz (bsize_fromsize 6)
                | BADDR_IPV6 _ _ \<Rightarrow> bsize_add sz (bsize_fromsize 18)
                | _ \<Rightarrow> sz) in
      case BSocksClient_reserve_buffer realloc c sz of
        None \<Rightarrow> BSocksClient_report_error c BSOCKSCLIENT_EVENT_ERROR
      | Some c \<Rightarrow>
          let (c, atyp) = (case bs_dest_addr c of
                 BADDR_IPV4 ip port \<Rightarrow> (bs_write 4 (socks_addr_ipv4 ip port) c, hton8 SOCKS_ATYP_IPV4)
               | BADDR_IPV6 ip port \<Rightarrow> (bs_write 4 (socks_addr_ipv6 ip port) c, hton8 SOCKS_ATYP_IPV6)
               | _ \<Rightarrow> (c, 0));
              c = bs_write 0 (socks_request_header (hton8 SOCKS_VERSION) (hton8 SOCKS_CMD_CONNECT) (hton8 0) atyp) c;
              c = bs_send c sz
          in c\<lparr>bs_state := STATE_SENDING_REQUEST\<rparr>)"

text \<open>The three stages of \<^verbatim>\<open>recv_handler_done\<close> that decide what comes next.\<close>

definition bs_received_hello :: "bs_realloc \<Rightarrow> BSocksClient \<Rightarrow> BSocksClient" where
  "bs_received_hello realloc c =
     (let imsg = socks_server_hello_of (the (bs_buffer c));
          fail = BSocksClient_report_error c BSOCKSCLIENT_EVENT_ERROR in
      if ntoh8 (sh_ver imsg) \<noteq> SOCKS_VERSION then fail
      else case find (\<lambda>ai. ai_auth_type ai = uint (ntoh8 (sh_method imsg))) (bs_auth_info c) of
        None \<Rightarrow> fail
      | Some ai \<Rightarrow>
          if ai_auth_type ai = SOCKS_METHOD_NO_AUTHENTICATION_REQUIRED then BSocksClient_auth_finished realloc c
          else if ai_auth_type ai = SOCKS_METHOD_USERNAME_PASSWORD
          then let ulen = length (ai_username ai); plen = length (ai_password ai) in
            if ulen = 0 \<or> ulen > 255 \<or> plen = 0 \<or> plen > 255 then fail
            else let sz = bsize_fromsize (of_nat (1 + 1 + ulen + 1 + plen)) in
              (case BSocksClient_reserve_buffer realloc c sz of
                 None \<Rightarrow> fail
               | Some c \<Rightarrow>
                   let c = bs_write 0 [1] c;
                       c = bs_write 1 [of_nat ulen] c;
                       c = bs_write 2 (ai_username ai) c;
                       c = bs_write (2 + int ulen) [of_nat plen] c;
                       c = bs_write (3 + int ulen) (ai_password ai) c;
                       c = bs_send c sz
                   in c\<lparr>bs_state := STATE_SENDING_PASSWORD\<rparr>)
          else c)"

definition bs_received_reply_header :: "BSocksClient \<Rightarrow> BSocksClient" where
  "bs_received_reply_header c =
     (let imsg = socks_reply_header_of (the (bs_buffer c));
          fail = BSocksClient_report_error c BSOCKSCLIENT_EVENT_ERROR in
      if ntoh8 (rh_ver imsg) \<noteq> SOCKS_VERSION then fail
      else if ntoh8 (rh_rep imsg) \<noteq> SOCKS_REP_SUCCEEDED then fail
      else if ntoh8 (rh_atyp imsg) = SOCKS_ATYP_IPV4
      then (BSocksClient_start_receive c 4 6)\<lparr>bs_state := STATE_RECEIVED_REPLY_HEADER\<rparr>
      else if ntoh8 (rh_atyp imsg) = SOCKS_ATYP_IPV6
      then (BSocksClient_start_receive c 4 18)\<lparr>bs_state := STATE_RECEIVED_REPLY_HEADER\<rparr>
      else fail)"

definition bs_received_password_reply :: "bs_realloc \<Rightarrow> BSocksClient \<Rightarrow> BSocksClient" where
  "bs_received_password_reply realloc c =
     (if the (bs_buffer c) ! 0 \<noteq> 1 then BSocksClient_report_error c BSOCKSCLIENT_EVENT_ERROR
      else if the (bs_buffer c) ! 1 \<noteq> 0 then BSocksClient_report_error c BSOCKSCLIENT_EVENT_ERROR
      else BSocksClient_auth_finished realloc c)"

definition bs_received_reply_rest :: "BSocksClient \<Rightarrow> BSocksClient" where
  "bs_received_reply_rest c =
     (let c = c\<lparr>bs_buffer := None\<rparr>;
          c = BSocksClient_free_control_io c;
          c = BSocksClient_init_up_io c;
          c = c\<lparr>bs_state := STATE_UP\<rparr>
      in c\<lparr>bs_events := bs_events c @ [BSOCKSCLIENT_EVENT_UP]\<rparr>)"

definition BSocksClient_recv_handler_done :: "bs_realloc \<Rightarrow> BSocksClient \<Rightarrow> int \<Rightarrow> BSocksClient" where
  "BSocksClient_recv_handler_done realloc c data_len =
     (let c = c\<lparr>bs_recv_len := bs_recv_len c + data_len\<rparr> in
      if bs_recv_len c < bs_recv_total c then BSocksClient_do_receive c
      else case bs_state c of
        STATE_SENT_HELLO \<Rightarrow> bs_received_hello realloc c
      | STATE_SENT_REQUEST \<Rightarrow> bs_received_reply_header c
      | STATE_SENT_PASSWORD \<Rightarrow> bs_received_password_reply realloc c
      | STATE_RECEIVED_REPLY_HEADER \<Rightarrow> bs_received_reply_rest c
      | _ \<Rightarrow> c)"

definition BSocksClient_send_handler_done :: "bs_realloc \<Rightarrow> BSocksClient \<Rightarrow> BSocksClient" where
  "BSocksClient_send_handler_done realloc c =
     (let fail = BSocksClient_report_error c BSOCKSCLIENT_EVENT_ERROR in
      case bs_state c of
        STATE_SENDING_HELLO \<Rightarrow>
          (case BSocksClient_reserve_buffer realloc c (bsize_fromsize 2) of
             None \<Rightarrow> fail
           | Some c \<Rightarrow> (BSocksClient_start_receive c 0 2)\<lparr>bs_state := STATE_SENT_HELLO\<rparr>)
      | STATE_SENDING_REQUEST \<Rightarrow>
          (case BSocksClient_reserve_buffer realloc c
                  (bsize_add (bsize_fromsize 4) (bsize_max (bsize_fromsize 6) (bsize_fromsize 18))) of
             None \<Rightarrow> fail
           | Some c \<Rightarrow> (BSocksClient_start_receive c 0 4)\<lparr>bs_state := STATE_SENT_REQUEST\<rparr>)
      | STATE_SENDING_PASSWORD \<Rightarrow>
          (case BSocksClient_reserve_buffer realloc c (bsize_fromsize 2) of
             None \<Rightarrow> fail
           | Some c \<Rightarrow> (BSocksClient_start_receive c 0 2)\<lparr>bs_state := STATE_SENT_PASSWORD\<rparr>)
      | _ \<Rightarrow> c)"

definition BSocksClient_auth_none :: BSocksClient_auth_info where
  "BSocksClient_auth_none =
     \<lparr>ai_auth_type = SOCKS_METHOD_NO_AUTHENTICATION_REQUIRED, ai_username = [], ai_password = []\<rparr>"

definition BSocksClient_auth_password :: "bytes \<Rightarrow> bytes \<Rightarrow> BSocksClient_auth_info" where
  "BSocksClient_auth_password username password =
     \<lparr>ai_auth_type = SOCKS_METHOD_USERNAME_PASSWORD, ai_username = username, ai_password = password\<rparr>"

definition BSocksClient_Init ::
    "bool \<Rightarrow> BSocksClient_auth_info list \<Rightarrow> BAddr \<Rightarrow> BSocksClient option" where
  "BSocksClient_Init connector_init_ok auth_info dest_addr =
     (if \<not> connector_init_ok then None
      else Some \<lparr>bs_auth_info = auth_info, bs_dest_addr = dest_addr, bs_state = STATE_CONNECTING, bs_buffer = None,
         bs_connector = True, bs_con = False, bs_control = False, bs_up_io = False,
         bs_send_if = PacketPassInterface_Init 0 0, bs_recv_if = StreamRecvInterface_Init 0,
         bs_recv_dest = 0, bs_recv_len = 0, bs_recv_total = 0, bs_events = []\<rparr>)"

definition BSocksClient_Free :: "BSocksClient \<Rightarrow> BSocksClient" where
  "BSocksClient_Free c =
     (let c = (if bs_state c \<noteq> STATE_CONNECTING
               then (if bs_state c = STATE_UP then BSocksClient_free_up_io c else BSocksClient_free_control_io c)
                      \<lparr>bs_con := False\<rparr>
               else c);
          c = c\<lparr>bs_connector := False\<rparr>
      in case bs_buffer c of None \<Rightarrow> c | Some _ \<Rightarrow> c\<lparr>bs_buffer := None\<rparr>)"

section \<open>What the client should say and hear\<close>

definition socks_hello :: "BSocksClient_auth_info list \<Rightarrow> bytes" where
  "socks_hello auth = [SOCKS_VERSION, of_nat (length auth)] @ map (\<lambda>ai. word_of_int (ai_auth_type ai)) auth"

definition socks_password :: "BSocksClient_auth_info \<Rightarrow> bytes" where
  "socks_password ai = [1, of_nat (length (ai_username ai))] @ ai_username ai @
     [of_nat (length (ai_password ai))] @ ai_password ai"

fun socks_request :: "BAddr \<Rightarrow> bytes" where
  "socks_request (BADDR_IPV4 ip port) = [SOCKS_VERSION, SOCKS_CMD_CONNECT, 0, SOCKS_ATYP_IPV4] @ socks_addr_ipv4 ip port"
| "socks_request (BADDR_IPV6 ip port) = [SOCKS_VERSION, SOCKS_CMD_CONNECT, 0, SOCKS_ATYP_IPV6] @ socks_addr_ipv6 ip port"
| "socks_request _ = []"

definition auth_usable :: "BSocksClient_auth_info \<Rightarrow> bool" where
  "auth_usable ai \<longleftrightarrow> 0 < length (ai_username ai) \<and> length (ai_username ai) \<le> 255 \<and>
     0 < length (ai_password ai) \<and> length (ai_password ai) \<le> 255"

definition auth_chosen :: "BSocksClient_auth_info list \<Rightarrow> int \<Rightarrow> BSocksClient_auth_info \<Rightarrow> bool" where
  "auth_chosen auth m ai \<longleftrightarrow> find (\<lambda>ai. ai_auth_type ai = m) auth = Some ai"

text \<open>The packets sent and the bytes heard when the authentication is over.\<close>

definition socks_auth_done :: "BSocksClient_auth_info list \<Rightarrow> bytes list \<Rightarrow> bytes \<Rightarrow> bool" where
  "socks_auth_done auth ss r \<longleftrightarrow>
     (\<exists>ai. auth_chosen auth 0 ai \<and> ss = [socks_hello auth] \<and> r = [SOCKS_VERSION, 0]) \<or>
     (\<exists>ai. auth_chosen auth 2 ai \<and> auth_usable ai \<and> ss = [socks_hello auth, socks_password ai] \<and>
        r = [SOCKS_VERSION, 2, 1, 0])"

fun socks_addr_len :: "u8 \<Rightarrow> int" where
  "socks_addr_len atyp = (if atyp = SOCKS_ATYP_IPV4 then 6 else 18)"

text \<open>The whole successful handshake.\<close>

definition socks_established ::
    "BSocksClient_auth_info list \<Rightarrow> BAddr \<Rightarrow> bytes list \<Rightarrow> bytes \<Rightarrow> bool" where
  "socks_established auth dest ss r \<longleftrightarrow>
     (\<exists>s0 r0 rsv atyp addr. socks_auth_done auth s0 r0 \<and> ss = s0 @ [socks_request dest] \<and>
        r = r0 @ [SOCKS_VERSION, SOCKS_REP_SUCCEEDED, rsv, atyp] @ addr \<and>
        (atyp = SOCKS_ATYP_IPV4 \<or> atyp = SOCKS_ATYP_IPV6) \<and> int (length addr) = socks_addr_len atyp)"

section \<open>The client between its connection and its owner\<close>

text \<open>
  A state is the client with the packets its connection has sent and the bytes it has
  received. The connection may complete a send or part of a receive whenever it is busy,
  and may report an event; after an error the owner frees the client.
\<close>

type_synonym bs_run = "BSocksClient \<times> bytes list \<times> bytes"

definition bs_live :: "BSocksClient \<Rightarrow> bool" where
  "bs_live c \<longleftrightarrow> (\<forall>e\<in>set (bs_events c). e = BSOCKSCLIENT_EVENT_UP)"

inductive bs_step :: "bs_realloc \<Rightarrow> bs_run \<Rightarrow> bs_run \<Rightarrow> bool" for realloc where
  connector: "bs_live c \<Longrightarrow> bs_state c = STATE_CONNECTING \<Longrightarrow>
    bs_step realloc (c, ss, r) (BSocksClient_connector_handler realloc ok c is_error, ss, r)"
| connection: "bs_live c \<Longrightarrow> bs_state c \<noteq> STATE_CONNECTING \<Longrightarrow>
    bs_step realloc (c, ss, r) (BSocksClient_connection_handler c event, ss, r)"
| bs_send_operation: "bs_live c \<Longrightarrow> ppi_job_operation (bs_send_if c) \<Longrightarrow>
    bs_step realloc (c, ss, r) (c\<lparr>bs_send_if := PacketPassInterface_job_operation (bs_send_if c)\<rparr>, ss, r)"
| bs_send_done: "bs_live c \<Longrightarrow> bs_control c \<Longrightarrow> PacketPassInterface_Done_pre (bs_send_if c) \<Longrightarrow>
    bs_step realloc (c, ss, r) (c\<lparr>bs_send_if := PacketPassInterface_Done (bs_send_if c)\<rparr>,
      ss @ [mem_read (nat (ppi_job_operation_data (bs_send_if c))) (nat (ppi_job_operation_len (bs_send_if c)))
             (the (bs_buffer c))], r)"
| bs_send_job_done: "bs_live c \<Longrightarrow> ppi_job_done (bs_send_if c) \<Longrightarrow>
    bs_step realloc (c, ss, r) (BSocksClient_send_handler_done realloc
      (c\<lparr>bs_send_if := PacketPassInterface_job_done (bs_send_if c)\<rparr>), ss, r)"
| bs_recv_operation: "bs_live c \<Longrightarrow> si_job_operation (bs_recv_if c) \<Longrightarrow>
    bs_step realloc (c, ss, r) (c\<lparr>bs_recv_if := StreamRecvInterface_job_operation (bs_recv_if c)\<rparr>, ss, r)"
| bs_recv_done: "bs_live c \<Longrightarrow> bs_control c \<Longrightarrow> StreamRecvInterface_Done_pre (bs_recv_if c) (int (length x)) \<Longrightarrow>
    bs_step realloc (c, ss, r)
      ((bs_write (si_job_operation_data (bs_recv_if c)) x c)
         \<lparr>bs_recv_if := StreamRecvInterface_Done (bs_recv_if c) (int (length x))\<rparr>, ss, r @ x)"
| bs_recv_job_done: "bs_live c \<Longrightarrow> si_job_done (bs_recv_if c) \<Longrightarrow>
    bs_step realloc (c, ss, r) (BSocksClient_recv_handler_done realloc
      (c\<lparr>bs_recv_if := StreamRecvInterface_job_done (bs_recv_if c)\<rparr>) (si_job_done_len (bs_recv_if c)), ss, r)"

section \<open>Invariant\<close>

definition bs_idle_send :: "BSocksClient \<Rightarrow> bool" where
  "bs_idle_send c \<longleftrightarrow> ppi_wf (bs_send_if c) \<and> ppi_state (bs_send_if c) = STATE_NONE \<and>
     ppi_handler_done (bs_send_if c) \<and> ppi_mtu (bs_send_if c) = INT_MAX"

definition bs_idle_recv :: "BSocksClient \<Rightarrow> bool" where
  "bs_idle_recv c \<longleftrightarrow> si_wf (bs_recv_if c) \<and> si_state (bs_recv_if c) = STATE_NONE \<and> si_handler_done (bs_recv_if c)"

definition bs_sending :: "BSocksClient \<Rightarrow> bytes \<Rightarrow> bool" where
  "bs_sending c pkt \<longleftrightarrow>
     bs_buffer c = Some pkt \<and> bs_idle_recv c \<and> ppi_wf (bs_send_if c) \<and> ppi_state (bs_send_if c) \<noteq> STATE_NONE \<and>
     ppi_handler_done (bs_send_if c) \<and> ppi_mtu (bs_send_if c) = INT_MAX \<and>
     ppi_job_operation_data (bs_send_if c) = 0 \<and> ppi_job_operation_len (bs_send_if c) = int (length pkt)"

definition bs_sent_now :: "BSocksClient \<Rightarrow> bytes \<Rightarrow> bytes list" where
  "bs_sent_now c pkt = (if ppi_state (bs_send_if c) = STATE_DONE_PENDING then [pkt] else [])"

definition bs_receiving :: "BSocksClient \<Rightarrow> int \<Rightarrow> int \<Rightarrow> int \<Rightarrow> bool" where
  "bs_receiving c base n blen \<longleftrightarrow>
     (let i = bs_recv_if c in
      bs_idle_send c \<and> bs_buffer c \<noteq> None \<and> int (length (the (bs_buffer c))) = blen \<and>
      0 \<le> base \<and> base + n \<le> blen \<and> bs_recv_dest c = base \<and> bs_recv_total c = n \<and>
      0 \<le> bs_recv_len c \<and> bs_recv_len c < n \<and>
      si_wf i \<and> si_handler_done i \<and> si_state i \<noteq> STATE_NONE \<and>
      si_job_operation_data i = base + bs_recv_len c \<and> si_job_operation_len i = n - bs_recv_len c \<and>
      (si_state i = STATE_DONE_PENDING \<longrightarrow> 0 < si_job_done_len i \<and> si_job_done_len i \<le> si_job_operation_len i))"

definition bs_partial :: "BSocksClient \<Rightarrow> bytes" where
  "bs_partial c = mem_read (nat (bs_recv_dest c))
     (nat (bs_recv_len c + (if si_state (bs_recv_if c) = STATE_DONE_PENDING then si_job_done_len (bs_recv_if c) else 0)))
     (the (bs_buffer c))"

definition bs_jobs_off :: "BSocksClient \<Rightarrow> bool" where
  "bs_jobs_off c \<longleftrightarrow>
     \<not> ppi_job_operation (bs_send_if c) \<and> \<not> ppi_job_done (bs_send_if c) \<and>
     \<not> si_job_operation (bs_recv_if c) \<and> \<not> si_job_done (bs_recv_if c)"

definition bs_phase :: "BSocksClient \<Rightarrow> bytes list \<Rightarrow> bytes \<Rightarrow> bool" where
  "bs_phase c ss r \<longleftrightarrow>
     (let auth = bs_auth_info c; dest = bs_dest_addr c in
      case bs_state c of
        STATE_CONNECTING \<Rightarrow> bs_jobs_off c \<and> bs_buffer c = None \<and> ss = [] \<and> r = []
      | STATE_SENDING_HELLO \<Rightarrow> bs_sending c (socks_hello auth) \<and> ss = bs_sent_now c (socks_hello auth) \<and> r = []
      | STATE_SENT_HELLO \<Rightarrow> bs_receiving c 0 2 2 \<and> ss = [socks_hello auth] \<and> r = bs_partial c
      | STATE_SENDING_PASSWORD \<Rightarrow>
          (\<exists>ai. auth_chosen auth 2 ai \<and> auth_usable ai \<and> bs_sending c (socks_password ai) \<and>
             ss = socks_hello auth # bs_sent_now c (socks_password ai) \<and> r = [SOCKS_VERSION, 2])
      | STATE_SENT_PASSWORD \<Rightarrow>
          (\<exists>ai. auth_chosen auth 2 ai \<and> auth_usable ai \<and> bs_receiving c 0 2 2 \<and>
             ss = [socks_hello auth, socks_password ai] \<and> r = [SOCKS_VERSION, 2] @ bs_partial c)
      | STATE_SENDING_REQUEST \<Rightarrow>
          (\<exists>s0. socks_auth_done auth s0 r \<and> bs_sending c (socks_request dest) \<and>
             ss = s0 @ bs_sent_now c (socks_request dest))
      | STATE_SENT_REQUEST \<Rightarrow>
          (\<exists>s0 r0. socks_auth_done auth s0 r0 \<and> bs_receiving c 0 4 22 \<and> ss = s0 @ [socks_request dest] \<and>
             r = r0 @ bs_partial c)
      | STATE_RECEIVED_REPLY_HEADER \<Rightarrow>
          (\<exists>s0 r0 rsv atyp. socks_auth_done auth s0 r0 \<and> bs_receiving c 4 (socks_addr_len atyp) 22 \<and>
             (atyp = SOCKS_ATYP_IPV4 \<or> atyp = SOCKS_ATYP_IPV6) \<and> ss = s0 @ [socks_request dest] \<and>
             r = r0 @ [SOCKS_VERSION, SOCKS_REP_SUCCEEDED, rsv, atyp] @ bs_partial c)
      | STATE_UP \<Rightarrow> bs_jobs_off c \<and> bs_buffer c = None \<and> socks_established auth dest ss r)"

definition bs_resources :: "BSocksClient \<Rightarrow> bool" where
  "bs_resources c \<longleftrightarrow>
     bs_connector c \<and> (bs_con c \<longleftrightarrow> bs_state c \<noteq> STATE_CONNECTING) \<and>
     (bs_control c \<longleftrightarrow> bs_state c \<noteq> STATE_CONNECTING \<and> bs_state c \<noteq> STATE_UP) \<and>
     (bs_up_io c \<longleftrightarrow> bs_state c = STATE_UP)"

definition bs_events_ok :: "BSocksClient \<Rightarrow> bool" where
  "bs_events_ok c \<longleftrightarrow>
     (if bs_state c = STATE_UP
      then bs_events c \<in> {[BSOCKSCLIENT_EVENT_UP], [BSOCKSCLIENT_EVENT_UP, BSOCKSCLIENT_EVENT_ERROR],
             [BSOCKSCLIENT_EVENT_UP, BSOCKSCLIENT_EVENT_ERROR_CLOSED]}
      else bs_events c \<in> {[], [BSOCKSCLIENT_EVENT_ERROR]})"

fun bs_inv :: "BSocksClient_auth_info list \<Rightarrow> BAddr \<Rightarrow> bs_run \<Rightarrow> bool" where
  "bs_inv auth dest (c, ss, r) \<longleftrightarrow>
     bs_auth_info c = auth \<and> bs_dest_addr c = dest \<and> bs_resources c \<and> bs_events_ok c \<and>
     (bs_live c \<longrightarrow> bs_phase c ss r) \<and> (bs_state c = STATE_UP \<longrightarrow> socks_established auth dest ss r)"

section \<open>What the functions write\<close>

definition bs_realloc_ok :: "bs_realloc \<Rightarrow> bool" where
  "bs_realloc_ok realloc \<longleftrightarrow> (\<forall>m n b. realloc m n = Some b \<longrightarrow> (\<exists>x. b = Some x \<and> length x = unat n))"

lemma reserve_bufferE:
  assumes "BSocksClient_reserve_buffer realloc c sz = Some c'" "bs_realloc_ok realloc" "bsize_value sz \<noteq> 0"
  obtains x where "c' = c\<lparr>bs_buffer := Some x\<rparr>" "length x = unat (bsize_value sz)"
proof -
  from assms(1,3) obtain b where b: "realloc (bs_buffer c) (bsize_value sz) = Some b" "c' = c\<lparr>bs_buffer := b\<rparr>"
    by (auto simp: BSocksClient_reserve_buffer_def BRealloc_def split: if_splits option.splits)
  from b(1) assms(2) obtain x where "b = Some x" "length x = unat (bsize_value sz)"
    unfolding bs_realloc_ok_def by blast
  with b(2) that show thesis by blast
qed

lemma bs_write_methods_fold:
  assumes "bs_buffer c = Some b" "2 + length (bs_auth_info c) \<le> length b" "k \<le> length (bs_auth_info c)"
  shows "fold (\<lambda>i c. bs_write (2 + int i * 1)
             (socks_client_hello_method (hton8 (word_of_int (ai_auth_type (bs_auth_info c ! i))))) c) [0..<k] c =
    c\<lparr>bs_buffer := Some (take 2 b @ map (\<lambda>ai. word_of_int (ai_auth_type ai)) (take k (bs_auth_info c)) @ drop (2 + k) b)\<rparr>"
  using assms(3)
proof (induction k)
  case 0
  then show ?case using assms by simp
next
  case (Suc k)
  let ?f = "\<lambda>ai. word_of_int (ai_auth_type ai) :: u8"
  let ?b = "take 2 b @ map ?f (take k (bs_auth_info c)) @ drop (2 + k) b"
  have l: "length (take 2 b @ map ?f (take k (bs_auth_info c))) = 2 + k" using assms Suc.prems by simp
  have n: "nat (2 + int k) = 2 + k" by (simp add: nat_add_distrib)
  have m: "map ?f (take (Suc k) (bs_auth_info c)) = map ?f (take k (bs_auth_info c)) @ [?f (bs_auth_info c ! k)]"
    using Suc.prems by (simp add: take_Suc_conv_app_nth)
  have "mem_write (2 + k) [?f (bs_auth_info c ! k)] ?b =
      take 2 b @ map ?f (take (Suc k) (bs_auth_info c)) @ drop (2 + Suc k) b"
    using l unfolding mem_write_def m by (simp add: numeral_2_eq_2)
  then show ?case using Suc n
    by (simp add: bs_write_def socks_client_hello_method_def hton8_def)
qed

lemma length_socks_hello: "length (socks_hello auth) = 2 + length auth"
  by (simp add: socks_hello_def)

lemma hello_written:
  assumes "length x = 2 + length (bs_auth_info c)"
  shows "bs_write_methods (bs_write 0 (socks_client_hello_header (hton8 SOCKS_VERSION)
             (hton8 (of_nat (length (bs_auth_info c))))) (c\<lparr>bs_buffer := Some x\<rparr>)) =
         c\<lparr>bs_buffer := Some (socks_hello (bs_auth_info c))\<rparr>"
proof -
  let ?h = "[SOCKS_VERSION, of_nat (length (bs_auth_info c))]"
  let ?c = "c\<lparr>bs_buffer := Some (mem_write 0 ?h x)\<rparr>"
  have b: "bs_buffer ?c = Some (mem_write 0 ?h x)" "2 + length (bs_auth_info ?c) \<le> length (mem_write 0 ?h x)"
    using assms by (simp_all add: mem_write_def)
  have "take 2 (mem_write 0 ?h x) = ?h" "drop (2 + length (bs_auth_info c)) (mem_write 0 ?h x) = []"
    using assms by (simp_all add: mem_write_def)
  then show ?thesis using bs_write_methods_fold [OF b order_refl]
    by (simp add: bs_write_methods_def bs_write_def socks_client_hello_header_def hton8_def socks_hello_def)
qed

lemma password_written:
  assumes "length x = 3 + length u + length p"
  shows "mem_write (3 + length u) p (mem_write (2 + length u) [b] (mem_write 2 u (mem_write 1 [a] (mem_write 0 [v] x)))) =
    [v, a] @ u @ [b] @ p"
proof -
  have 1: "mem_write 0 [v] x = [v] @ drop 1 x" by (simp add: mem_write_def)
  have 2: "mem_write 1 [a] ([v] @ drop 1 x) = [v, a] @ drop 2 x"
    by (simp add: mem_write_def numeral_2_eq_2)
  have 3: "mem_write 2 u ([v, a] @ drop 2 x) = ([v, a] @ u) @ drop (2 + length u) x"
    by (simp add: mem_write_def add.commute)
  have 4: "mem_write (2 + length u) [b] (([v, a] @ u) @ drop (2 + length u) x) = ([v, a] @ u @ [b]) @ drop (3 + length u) x"
    by (simp add: mem_write_def numeral_3_eq_3)
  have 5: "mem_write (3 + length u) p (([v, a] @ u @ [b]) @ drop (3 + length u) x) = [v, a] @ u @ [b] @ p"
    using assms by (simp add: mem_write_def numeral_3_eq_3)
  show ?thesis unfolding 1 2 3 4 5 ..
qed

lemma length_socks_addr [simp]:
  "length (socks_addr_ipv4 ip port) = 6" "length (socks_addr_ipv6 a port) = min (length a) 16 + 2"
  by (simp_all add: socks_addr_ipv4_def socks_addr_ipv6_def)

lemma length_socks_request:
  "BAddr_valid d \<Longrightarrow> d \<noteq> BADDR_NONE \<Longrightarrow> length (socks_request d) = (case d of BADDR_IPV4 _ _ \<Rightarrow> 10 | _ \<Rightarrow> 22)"
  by (cases d) auto

section \<open>Transfers keep the invariant\<close>

lemma bs_receiving_idle: "bs_receiving c b n l \<Longrightarrow>
    \<not> ppi_job_operation (bs_send_if c) \<and> \<not> ppi_job_done (bs_send_if c) \<and> ppi_state (bs_send_if c) = STATE_NONE"
  by (simp add: bs_receiving_def Let_def bs_idle_send_def ppi_wf_def)

lemma bs_sending_idle: "bs_sending c p \<Longrightarrow>
    \<not> si_job_operation (bs_recv_if c) \<and> \<not> si_job_done (bs_recv_if c) \<and> si_state (bs_recv_if c) = STATE_NONE"
  by (simp add: bs_sending_def bs_idle_recv_def si_wf_def)

lemma bs_phase_not_sending:
  assumes "bs_phase c ss r" "bs_state c \<notin> {STATE_SENDING_HELLO, STATE_SENDING_PASSWORD, STATE_SENDING_REQUEST}"
  shows "\<not> ppi_job_operation (bs_send_if c) \<and> \<not> ppi_job_done (bs_send_if c) \<and>
    (bs_state c \<noteq> STATE_CONNECTING \<and> bs_state c \<noteq> STATE_UP \<longrightarrow> ppi_state (bs_send_if c) = STATE_NONE)"
  using assms by (cases "bs_state c") (auto simp: bs_phase_def Let_def bs_jobs_off_def dest: bs_receiving_idle)

lemma bs_phase_not_receiving:
  assumes "bs_phase c ss r"
    "bs_state c \<notin> {STATE_SENT_HELLO, STATE_SENT_PASSWORD, STATE_SENT_REQUEST, STATE_RECEIVED_REPLY_HEADER}"
  shows "\<not> si_job_operation (bs_recv_if c) \<and> \<not> si_job_done (bs_recv_if c) \<and>
    (bs_state c \<noteq> STATE_CONNECTING \<and> bs_state c \<noteq> STATE_UP \<longrightarrow> si_state (bs_recv_if c) = STATE_NONE)"
  using assms by (cases "bs_state c") (auto simp: bs_phase_def Let_def bs_jobs_off_def dest: bs_sending_idle)

lemma bs_phase_cases:
  assumes "bs_phase c ss r" "bs_resources c"
  shows "ppi_job_operation (bs_send_if c) \<or> ppi_job_done (bs_send_if c) \<or> ppi_state (bs_send_if c) = STATE_BUSY \<and> bs_control c \<Longrightarrow>
      bs_state c \<in> {STATE_SENDING_HELLO, STATE_SENDING_PASSWORD, STATE_SENDING_REQUEST}"
    and "si_job_operation (bs_recv_if c) \<or> si_job_done (bs_recv_if c) \<or> si_state (bs_recv_if c) = STATE_BUSY \<and> bs_control c \<Longrightarrow>
      bs_state c \<in> {STATE_SENT_HELLO, STATE_SENT_PASSWORD, STATE_SENT_REQUEST, STATE_RECEIVED_REPLY_HEADER}"
  using bs_phase_not_sending [OF assms(1)] bs_phase_not_receiving [OF assms(1)] assms(2)
  unfolding bs_resources_def by (metis if_state.distinct(3))+

text \<open>A change of the client that keeps the transfer in progress keeps the phase.\<close>

lemma bs_phase_sending:
  assumes p: "bs_phase c ss r" and st: "bs_state c \<in> {STATE_SENDING_HELLO, STATE_SENDING_PASSWORD, STATE_SENDING_REQUEST}"
    and c': "bs_state c' = bs_state c" "bs_auth_info c' = bs_auth_info c" "bs_dest_addr c' = bs_dest_addr c"
    and s: "\<And>pkt. bs_sending c pkt \<Longrightarrow> bs_sending c' pkt"
    and n: "\<And>pkt. bs_sending c pkt \<Longrightarrow> bs_sent_now c' pkt = bs_sent_now c pkt @ extra pkt"
    and e: "\<And>pkt. bs_sending c pkt \<Longrightarrow> ss' = ss @ extra pkt"
  shows "bs_phase c' ss' r"
proof -
  have e': "ss' = ss @ extra pkt \<and> bs_sending c' pkt \<and> bs_sent_now c' pkt = bs_sent_now c pkt @ extra pkt"
    if "bs_sending c pkt" for pkt using s n e that by blast
  show ?thesis using p st c'
    by (auto simp: bs_phase_def Let_def dest!: e') metis+
qed

lemma bs_phase_receiving:
  assumes p: "bs_phase c ss r"
    and st: "bs_state c \<in> {STATE_SENT_HELLO, STATE_SENT_PASSWORD, STATE_SENT_REQUEST, STATE_RECEIVED_REPLY_HEADER}"
    and c': "bs_state c' = bs_state c" "bs_auth_info c' = bs_auth_info c" "bs_dest_addr c' = bs_dest_addr c"
    and s: "\<And>b n l. bs_receiving c b n l \<Longrightarrow> bs_receiving c' b n l"
    and n: "\<And>b n l. bs_receiving c b n l \<Longrightarrow> bs_partial c' = bs_partial c @ x"
  shows "bs_phase c' ss (r @ x)"
proof -
  have e': "bs_receiving c' b n l \<and> bs_partial c' = bs_partial c @ x"
    if "bs_receiving c b n l" for b n l using s n that by blast
  show ?thesis using p st c'
    by (auto simp: bs_phase_def Let_def dest!: e') metis+
qed

lemma bs_frame [simp]:
  "bs_resources (c\<lparr>bs_send_if := i\<rparr>) = bs_resources c" "bs_resources (c\<lparr>bs_recv_if := j\<rparr>) = bs_resources c"
  "bs_events_ok (c\<lparr>bs_send_if := i\<rparr>) = bs_events_ok c" "bs_events_ok (c\<lparr>bs_recv_if := j\<rparr>) = bs_events_ok c"
  "bs_live (c\<lparr>bs_send_if := i\<rparr>) = bs_live c" "bs_live (c\<lparr>bs_recv_if := j\<rparr>) = bs_live c"
  "bs_resources (c\<lparr>bs_buffer := b\<rparr>) = bs_resources c" "bs_events_ok (c\<lparr>bs_buffer := b\<rparr>) = bs_events_ok c"
  "bs_live (c\<lparr>bs_buffer := b\<rparr>) = bs_live c"
  by (simp_all add: bs_resources_def bs_events_ok_def bs_live_def)

lemma bs_send_operation_inv:
  assumes i: "bs_inv auth dest (c, ss, r)" and l: "bs_live c" and o: "ppi_job_operation (bs_send_if c)"
  shows "bs_inv auth dest (c\<lparr>bs_send_if := PacketPassInterface_job_operation (bs_send_if c)\<rparr>, ss, r)"
    (is "bs_inv auth dest (?c, ss, r)")
proof -
  have p: "bs_phase c ss r" using i l by simp
  have st: "bs_state c \<in> {STATE_SENDING_HELLO, STATE_SENDING_PASSWORD, STATE_SENDING_REQUEST}"
    using bs_phase_cases(1) [OF p] o i by simp
  have "bs_phase ?c (ss @ []) r"
    by (rule bs_phase_sending [OF p st, of _ "\<lambda>_. []"])
      (use o in \<open>auto simp: bs_sending_def bs_sent_now_def PacketPassInterface_job_operation_def ppi_wf_def bs_idle_recv_def\<close>)
  then show ?thesis using i by simp
qed

lemma bs_send_done_inv:
  assumes i: "bs_inv auth dest (c, ss, r)" and l: "bs_live c" and o: "bs_control c" "PacketPassInterface_Done_pre (bs_send_if c)"
  shows "bs_inv auth dest (c\<lparr>bs_send_if := PacketPassInterface_Done (bs_send_if c)\<rparr>,
      ss @ [mem_read (nat (ppi_job_operation_data (bs_send_if c))) (nat (ppi_job_operation_len (bs_send_if c)))
             (the (bs_buffer c))], r)"
    (is "bs_inv auth dest (?c, ss @ [?x], r)")
proof -
  have p: "bs_phase c ss r" using i l by simp
  have st: "bs_state c \<in> {STATE_SENDING_HELLO, STATE_SENDING_PASSWORD, STATE_SENDING_REQUEST}"
    using bs_phase_cases(1) [OF p] o i by (simp add: PacketPassInterface_Done_pre_def)
  have "bs_phase ?c (ss @ [?x]) r"
    by (rule bs_phase_sending [OF p st, of _ "\<lambda>_. [?x]"])
      (use o in \<open>auto simp: bs_sending_def bs_sent_now_def PacketPassInterface_Done_def PacketPassInterface_Done_pre_def
         ppi_wf_def bs_idle_recv_def mem_read_def\<close>)
  moreover have "bs_state c \<noteq> STATE_UP" using st by auto
  ultimately show ?thesis using i by simp
qed

lemma bs_recv_operation_inv:
  assumes i: "bs_inv auth dest (c, ss, r)" and l: "bs_live c" and o: "si_job_operation (bs_recv_if c)"
  shows "bs_inv auth dest (c\<lparr>bs_recv_if := StreamRecvInterface_job_operation (bs_recv_if c)\<rparr>, ss, r)"
    (is "bs_inv auth dest (?c, ss, r)")
proof -
  have p: "bs_phase c ss r" using i l by simp
  have st: "bs_state c \<in> {STATE_SENT_HELLO, STATE_SENT_PASSWORD, STATE_SENT_REQUEST, STATE_RECEIVED_REPLY_HEADER}"
    using bs_phase_cases(2) [OF p] o i by simp
  have "bs_phase ?c ss (r @ [])"
    by (rule bs_phase_receiving [OF p st])
      (use o in \<open>auto simp: bs_receiving_def bs_partial_def Let_def StreamRecvInterface_job_operation_def si_wf_def
         bs_idle_send_def\<close>)
  then show ?thesis using i by simp
qed

lemma bs_partial_write:
  assumes rc: "bs_receiving c base n l" and x: "StreamRecvInterface_Done_pre (bs_recv_if c) (int (length x))"
  defines "c' \<equiv> (bs_write (si_job_operation_data (bs_recv_if c)) x c)
         \<lparr>bs_recv_if := StreamRecvInterface_Done (bs_recv_if c) (int (length x))\<rparr>"
  shows "bs_receiving c' base n l" "bs_partial c' = bs_partial c @ x"
proof -
  obtain b where b: "bs_buffer c = Some b" "int (length b) = l" using rc by (auto simp: bs_receiving_def Let_def)
  have r: "0 \<le> base" "base + n \<le> l" "0 \<le> bs_recv_len c" "bs_recv_dest c = base"
    "si_job_operation_data (bs_recv_if c) = base + bs_recv_len c"
    "si_job_operation_len (bs_recv_if c) = n - bs_recv_len c" "si_state (bs_recv_if c) = STATE_BUSY"
    "int (length x) \<le> n - bs_recv_len c" "0 < length x" "bs_recv_len c < n"
    using rc x by (auto simp: bs_receiving_def Let_def StreamRecvInterface_Done_pre_def)
  have le: "nat (base + bs_recv_len c) + length x \<le> length b" using r b by linarith
  have l: "length (mem_write (nat (base + bs_recv_len c)) x b) = length b" by (rule length_mem_write [OF le])
  show "bs_receiving c' base n l" using rc r b l
    by (simp add: bs_receiving_def Let_def c'_def bs_write_def StreamRecvInterface_Done_def si_wf_def bs_idle_send_def)
  have a: "nat (base + bs_recv_len c) = nat base + nat (bs_recv_len c)"
    "nat (bs_recv_len c + int (length x)) = nat (bs_recv_len c) + length x" using r by (simp_all add: nat_add_distrib)
  have "mem_read (nat base) (nat (bs_recv_len c) + length x) (mem_write (nat base + nat (bs_recv_len c)) x b) =
      mem_read (nat base) (nat (bs_recv_len c)) b @ x"
    using le by (simp add: mem_read_append mem_read_write_before mem_read_write_same a(1))
  then show "bs_partial c' = bs_partial c @ x" using r b a
    by (simp add: bs_partial_def c'_def bs_write_def StreamRecvInterface_Done_def)
qed

lemma bs_write_fields [simp]:
  "bs_state (bs_write n x c) = bs_state c" "bs_auth_info (bs_write n x c) = bs_auth_info c"
  "bs_dest_addr (bs_write n x c) = bs_dest_addr c" "bs_resources (bs_write n x c) = bs_resources c"
  "bs_events_ok (bs_write n x c) = bs_events_ok c" "bs_live (bs_write n x c) = bs_live c"
  by (simp_all add: bs_write_def)

lemma bs_recv_done_inv:
  assumes i: "bs_inv auth dest (c, ss, r)" and l: "bs_live c"
    and o: "bs_control c" "StreamRecvInterface_Done_pre (bs_recv_if c) (int (length x))"
  shows "bs_inv auth dest ((bs_write (si_job_operation_data (bs_recv_if c)) x c)
         \<lparr>bs_recv_if := StreamRecvInterface_Done (bs_recv_if c) (int (length x))\<rparr>, ss, r @ x)"
    (is "bs_inv auth dest (?c, ss, r @ x)")
proof -
  have p: "bs_phase c ss r" using i l by simp
  have st: "bs_state c \<in> {STATE_SENT_HELLO, STATE_SENT_PASSWORD, STATE_SENT_REQUEST, STATE_RECEIVED_REPLY_HEADER}"
    using bs_phase_cases(2) [OF p] o i by (simp add: StreamRecvInterface_Done_pre_def)
  have "bs_phase ?c ss (r @ x)"
    by (rule bs_phase_receiving [OF p st]) (simp_all add: bs_partial_write [OF _ o(2)])
  moreover have "bs_state c \<noteq> STATE_UP" using st by auto
  ultimately show ?thesis using i by simp
qed

section \<open>Handlers keep the invariant\<close>

text \<open>An error report ends the life of the client; nothing else has to hold.\<close>

lemma bs_report_error_inv:
  assumes "bs_auth_info c = auth" "bs_dest_addr c = dest" "bs_resources c" "bs_state c \<noteq> STATE_UP" "bs_events c = []"
  shows "bs_inv auth dest (BSocksClient_report_error c BSOCKSCLIENT_EVENT_ERROR, ss, r)"
  using assms by (simp add: BSocksClient_report_error_def bs_resources_def bs_events_ok_def bs_live_def)

lemma bs_live_events: "bs_live c \<Longrightarrow> bs_events_ok c \<Longrightarrow> bs_state c \<noteq> STATE_UP \<Longrightarrow> bs_events c = []"
  by (auto simp: bs_live_def bs_events_ok_def)

lemma bs_start_receive_inv:
  assumes "bs_idle_send c" "bs_idle_recv c" "bs_buffer c = Some b" "int (length b) = l" "0 \<le> base" "0 < n" "base + n \<le> l"
  shows "bs_receiving (BSocksClient_start_receive c base n) base n l"
    and "bs_partial (BSocksClient_start_receive c base n) = []"
  using assms by (simp_all add: BSocksClient_start_receive_def BSocksClient_do_receive_def bs_receiving_def Let_def
      bs_partial_def StreamRecvInterface_Receiver_Recv_def si_wf_def bs_idle_send_def bs_idle_recv_def)

lemma bs_start_receive_fields [simp]:
  "bs_state (BSocksClient_start_receive c b n) = bs_state c"
  "bs_auth_info (BSocksClient_start_receive c b n) = bs_auth_info c"
  "bs_dest_addr (BSocksClient_start_receive c b n) = bs_dest_addr c"
  "bs_events (BSocksClient_start_receive c b n) = bs_events c"
  "bs_resources (BSocksClient_start_receive c b n) = bs_resources c"
  "bs_connector (BSocksClient_start_receive c b n) = bs_connector c"
  "bs_con (BSocksClient_start_receive c b n) = bs_con c" "bs_control (BSocksClient_start_receive c b n) = bs_control c"
  "bs_up_io (BSocksClient_start_receive c b n) = bs_up_io c"
  by (simp_all add: BSocksClient_start_receive_def BSocksClient_do_receive_def bs_resources_def)

lemma bs_state_frame [simp]:
  "bs_receiving (c\<lparr>bs_state := st\<rparr>) b n l = bs_receiving c b n l" "bs_partial (c\<lparr>bs_state := st\<rparr>) = bs_partial c"
  "bs_sending (c\<lparr>bs_state := st\<rparr>) p = bs_sending c p" "bs_sent_now (c\<lparr>bs_state := st\<rparr>) p = bs_sent_now c p"
  "bs_live (c\<lparr>bs_state := st\<rparr>) = bs_live c"
  by (simp_all add: bs_receiving_def bs_partial_def bs_sending_def bs_sent_now_def bs_idle_send_def bs_idle_recv_def
      bs_live_def)

lemma bs_send_sending:
  assumes "bs_idle_send c" "bs_idle_recv c" "bs_buffer c = Some pkt"
    and "c_int (uint (bsize_value sz)) = int (length pkt)"
  shows "bs_sending (bs_send c sz) pkt" "bs_sent_now (bs_send c sz) pkt = []"
  using assms by (auto simp: bs_send_def bs_sending_def bs_sent_now_def PacketPassInterface_Sender_Send_def
      bs_idle_send_def bs_idle_recv_def ppi_wf_def)

text \<open>A client in the middle of the handshake, with nothing in progress.\<close>

definition bs_between :: "BSocksClient_auth_info list \<Rightarrow> BAddr \<Rightarrow> BSocksClient \<Rightarrow> bool" where
  "bs_between auth dest c \<longleftrightarrow>
     bs_auth_info c = auth \<and> bs_dest_addr c = dest \<and> bs_resources c \<and> bs_events c = [] \<and>
     bs_state c \<notin> {STATE_CONNECTING, STATE_UP} \<and> bs_idle_send c \<and> bs_idle_recv c"

lemma bs_between_fail:
  "bs_between auth dest c \<Longrightarrow> bs_inv auth dest (BSocksClient_report_error c BSOCKSCLIENT_EVENT_ERROR, ss, r)"
  by (rule bs_report_error_inv) (simp_all add: bs_between_def)

lemma bs_between_buffer [simp]: "bs_between auth dest (c\<lparr>bs_buffer := b\<rparr>) = bs_between auth dest c"
  by (simp add: bs_between_def bs_idle_send_def bs_idle_recv_def)

lemma bs_between_inv:
  assumes "bs_between auth dest c" "st \<notin> {STATE_CONNECTING, STATE_UP}"
    and "bs_state c' = st" "bs_auth_info c' = auth" "bs_dest_addr c' = dest" "bs_events c' = []"
    and "bs_connector c' = bs_connector c" "bs_con c' = bs_con c" "bs_control c' = bs_control c" "bs_up_io c' = bs_up_io c"
    and "bs_phase c' ss r"
  shows "bs_inv auth dest (c', ss, r)"
  using assms by (simp add: bs_between_def bs_resources_def bs_events_ok_def)

lemma unat_small: "n < 2 ^ 64 \<Longrightarrow> unat (of_nat n :: size_t) = n"
  by (simp add: unsigned_of_nat take_bit_nat_eq_self)

lemma c_int_size: "unat (w :: size_t) \<le> 10000 \<Longrightarrow> c_int (uint w) = int (unat w)"
proof -
  assume "unat w \<le> 10000"
  then have "int (unat w) \<le> 10000" by linarith
  then have "uint w \<le> 10000" "0 \<le> uint w" by simp_all
  then have "c_int (uint w) = uint w" by (intro c_int_id) linarith+
  then show ?thesis by simp
qed

lemma auth_finished_inv:
  assumes b: "bs_between auth dest c" and d: "socks_auth_done auth ss r" and ok: "bs_realloc_ok realloc"
    and v: "BAddr_valid dest" "dest \<noteq> BADDR_NONE"
  shows "bs_inv auth dest (BSocksClient_auth_finished realloc c, ss, r)"
proof -
  define sz :: "size_t bsize_t" where "sz = (case dest of BADDR_IPV4 _ _ \<Rightarrow> bsize_add (bsize_fromsize 4) (bsize_fromsize 6)
                | BADDR_IPV6 _ _ \<Rightarrow> bsize_add (bsize_fromsize 4) (bsize_fromsize 18) | _ \<Rightarrow> bsize_fromsize 4)"
  have da: "bs_dest_addr c = dest" using b by (simp add: bs_between_def)
  have sv: "unat (bsize_value sz) = length (socks_request dest)"
    using v by (cases dest) (simp_all add: sz_def bsize_add_def bsize_fromsize_def length_socks_request)
  have nz: "bsize_value sz \<noteq> 0"
    using v by (cases dest) (simp_all add: sz_def bsize_add_def bsize_fromsize_def)
  have small: "length (socks_request dest) \<le> 22" using v by (cases dest) (simp_all add: length_socks_request)
  show ?thesis
  proof (cases "BSocksClient_reserve_buffer realloc c sz")
    case None
    then have "BSocksClient_auth_finished realloc c = BSocksClient_report_error c BSOCKSCLIENT_EVENT_ERROR"
      by (simp add: BSocksClient_auth_finished_def Let_def da sz_def)
    with b show ?thesis by (simp only: bs_between_fail)
  next
    case (Some c1)
    then obtain x where x: "c1 = c\<lparr>bs_buffer := Some x\<rparr>" "length x = length (socks_request dest)"
      using reserve_bufferE [OF Some ok nz] sv by auto
    let ?c = "c\<lparr>bs_buffer := Some (socks_request dest)\<rparr>"
    have eq: "BSocksClient_auth_finished realloc c = (bs_send ?c sz)\<lparr>bs_state := STATE_SENDING_REQUEST\<rparr>"
      using v Some x
      by (cases dest) (simp_all add: BSocksClient_auth_finished_def Let_def da sz_def bs_write_def hton8_def
          socks_request_header_def mem_write_def socks_addr_ipv4_def socks_addr_ipv6_def)
    have i: "bs_idle_send ?c" "bs_idle_recv ?c" using b by (simp_all add: bs_between_def bs_idle_send_def bs_idle_recv_def)
    have s: "bs_sending (bs_send ?c sz) (socks_request dest)" "bs_sent_now (bs_send ?c sz) (socks_request dest) = []"
      by (rule bs_send_sending [OF i]; use sv small in \<open>simp add: c_int_size\<close>)+
    have "bs_phase ((bs_send ?c sz)\<lparr>bs_state := STATE_SENDING_REQUEST\<rparr>) ss r"
      using s d da b by (simp add: bs_phase_def bs_send_def bs_between_def)
    then show ?thesis unfolding eq
      by (intro bs_between_inv [OF b, of STATE_SENDING_REQUEST]) (use b in \<open>simp_all add: bs_send_def bs_between_def\<close>)
  qed
qed

text \<open>Reserving a buffer and starting to receive into it.\<close>

lemma bs_expect_inv:
  assumes b: "bs_between auth dest c" and ok: "bs_realloc_ok realloc"
    and sz: "unat (bsize_value sz) = nat l" "0 < n" "n \<le> l" and st: "st \<notin> {STATE_CONNECTING, STATE_UP}"
    and ph: "\<And>c'. bs_state c' = st \<Longrightarrow> bs_auth_info c' = auth \<Longrightarrow> bs_dest_addr c' = dest \<Longrightarrow>
       bs_receiving c' 0 n l \<Longrightarrow> bs_partial c' = [] \<Longrightarrow> bs_phase c' ss r"
  shows "bs_inv auth dest (case BSocksClient_reserve_buffer realloc c sz of
      None \<Rightarrow> BSocksClient_report_error c BSOCKSCLIENT_EVENT_ERROR
    | Some c \<Rightarrow> (BSocksClient_start_receive c 0 n)\<lparr>bs_state := st\<rparr>, ss, r)"
proof (cases "BSocksClient_reserve_buffer realloc c sz")
  case None
  with b show ?thesis by (simp add: bs_between_fail del: bs_inv.simps)
next
  case (Some c1)
  have nz: "bsize_value sz \<noteq> 0" using sz by auto
  obtain x where x: "c1 = c\<lparr>bs_buffer := Some x\<rparr>" "length x = nat l"
    using reserve_bufferE [OF Some ok nz] sz by auto
  have b1: "bs_between auth dest c1" using b x by simp
  let ?c = "(BSocksClient_start_receive c1 0 n)\<lparr>bs_state := st\<rparr>"
  have "bs_receiving (BSocksClient_start_receive c1 0 n) 0 n l" "bs_partial (BSocksClient_start_receive c1 0 n) = []"
    by (rule bs_start_receive_inv [of c1 x l 0 n]; use b1 x sz in \<open>simp add: bs_between_def\<close>)+
  then have "bs_phase ?c ss r" using b1 by (intro ph) (simp_all add: bs_between_def)
  then have "bs_inv auth dest (?c, ss, r)"
    by (intro bs_between_inv [OF b1 st]) (use b1 in \<open>simp_all add: bs_between_def\<close>)
  with Some show ?thesis by simp
qed

lemma bs_send_job_done_inv:
  assumes i: "bs_inv auth dest (c, ss, r)" and l: "bs_live c" and o: "ppi_job_done (bs_send_if c)"
    and ok: "bs_realloc_ok realloc"
  shows "bs_inv auth dest (BSocksClient_send_handler_done realloc
      (c\<lparr>bs_send_if := PacketPassInterface_job_done (bs_send_if c)\<rparr>), ss, r)"
    (is "bs_inv auth dest (BSocksClient_send_handler_done realloc ?c, ss, r)")
proof -
  have p: "bs_phase c ss r" using i l by simp
  have st: "bs_state c \<in> {STATE_SENDING_HELLO, STATE_SENDING_PASSWORD, STATE_SENDING_REQUEST}"
    using bs_phase_cases(1) [OF p] o i by simp
  have now: "bs_sent_now c pkt = [pkt]" "bs_idle_send ?c" "bs_idle_recv ?c" if "bs_sending c pkt" for pkt
    using that o by (auto simp: bs_sending_def bs_sent_now_def ppi_wf_def bs_idle_send_def bs_idle_recv_def
        PacketPassInterface_job_done_def)
  have pk: "\<exists>pkt. bs_sending c pkt" using p st by (auto simp: bs_phase_def Let_def)
  then have b: "bs_between auth dest ?c"
    using i l st now bs_live_events [OF l] by (auto simp: bs_between_def)
  from st consider "bs_state c = STATE_SENDING_HELLO" | "bs_state c = STATE_SENDING_PASSWORD"
    | "bs_state c = STATE_SENDING_REQUEST" by blast
  then show ?thesis
  proof cases
    case 1
    then have "ss = [socks_hello auth] \<and> r = []" using p i now by (auto simp: bs_phase_def Let_def)
    then show ?thesis using bs_expect_inv [OF b ok, of "bsize_fromsize 2" 2 2 STATE_SENT_HELLO ss r] 1
      by (simp add: BSocksClient_send_handler_done_def bsize_fromsize_def bs_phase_def del: bs_inv.simps)
  next
    case 2
    then have "\<exists>ai. auth_chosen auth 2 ai \<and> auth_usable ai \<and> ss = [socks_hello auth, socks_password ai] \<and>
        r = [SOCKS_VERSION, 2]" using p i now by (auto simp: bs_phase_def Let_def)
    then show ?thesis using bs_expect_inv [OF b ok, of "bsize_fromsize 2" 2 2 STATE_SENT_PASSWORD ss r] 2
      by (simp add: BSocksClient_send_handler_done_def bsize_fromsize_def bs_phase_def del: bs_inv.simps)
  next
    case 3
    then have "\<exists>s0. socks_auth_done auth s0 r \<and> ss = s0 @ [socks_request dest]"
      using p i now by (auto simp: bs_phase_def Let_def)
    then show ?thesis
      using bs_expect_inv [OF b ok, of "bsize_add (bsize_fromsize 4) (bsize_max (bsize_fromsize 6) (bsize_fromsize 18))"
          22 4 STATE_SENT_REQUEST ss r] 3
      by (simp add: BSocksClient_send_handler_done_def bsize_fromsize_def bsize_add_def bsize_max_def bs_phase_def
          del: bs_inv.simps)
  qed
qed

lemma bs_init_control_io_auth [simp]: "bs_auth_info (BSocksClient_init_control_io c) = bs_auth_info c"
  by (simp add: BSocksClient_init_control_io_def)

lemma bs_connector_inv:
  assumes i: "bs_inv auth dest (c, ss, r)" and l: "bs_live c" and st: "bs_state c = STATE_CONNECTING"
    and ok: "bs_realloc_ok realloc"
  shows "bs_inv auth dest (BSocksClient_connector_handler realloc con_ok c is_error, ss, r)"
proof -
  have e: "bs_events c = []" using i l st bs_live_events by simp
  have f0: "bs_inv auth dest (BSocksClient_report_error c BSOCKSCLIENT_EVENT_ERROR, ss, r)"
    by (rule bs_report_error_inv) (use i st e in simp_all)
  let ?c = "BSocksClient_init_control_io (c\<lparr>bs_con := True\<rparr>)"
  let ?n = "length (bs_auth_info c)"
  let ?sz = "bsize_add (bsize_fromsize 2) (bsize_mul (bsize_fromsize (of_nat ?n)) (bsize_fromsize 1)) :: size_t bsize_t"
  let ?f = "BSocksClient_report_error ((BSocksClient_free_control_io ?c)\<lparr>bs_con := False\<rparr>) BSOCKSCLIENT_EVENT_ERROR"
  have f1: "bs_inv auth dest (?f, ss, r)"
    by (rule bs_report_error_inv) (use i st e in \<open>simp_all add: BSocksClient_free_control_io_def
      BSocksClient_init_control_io_def bs_resources_def\<close>)
  have p: "ss = []" "r = []" using i l st by (simp_all add: bs_phase_def)
  have au: "bs_auth_info c = auth" "bs_dest_addr c = dest" using i by simp_all
  have ca: "bs_auth_info ?c = auth" by (simp add: BSocksClient_init_control_io_def au)
  have main: "bs_inv auth dest (case BSocksClient_reserve_buffer realloc ?c ?sz of None \<Rightarrow> ?f
      | Some d \<Rightarrow> (bs_send (bs_write_methods (bs_write 0 (socks_client_hello_header (hton8 SOCKS_VERSION)
           (hton8 (of_nat ?n))) d)) ?sz)\<lparr>bs_state := STATE_SENDING_HELLO\<rparr>, ss, r)" if n: "0 < ?n" "?n \<le> 255"
  proof (cases "BSocksClient_reserve_buffer realloc ?c ?sz")
    case None
    then show ?thesis using f1 by simp
  next
    case (Some d)
    have u: "unat (of_nat ?n :: size_t) = ?n" using n by (intro unat_small) simp
    have sv: "unat (bsize_value ?sz) = 2 + ?n"
    proof -
      have "bsize_value ?sz = (of_nat (2 + ?n) :: size_t)"
        by (simp add: bsize_add_def bsize_mul_def bsize_fromsize_def)
      moreover have "unat (of_nat (2 + ?n) :: size_t) = 2 + ?n" using n by (intro unat_small) simp
      ultimately show ?thesis by (simp only:)
    qed
    then have nz: "bsize_value ?sz \<noteq> 0" by auto
    obtain x where x: "d = ?c\<lparr>bs_buffer := Some x\<rparr>" "length x = 2 + ?n" using reserve_bufferE [OF Some ok nz] sv by auto
    have w: "bs_write_methods (bs_write 0 (socks_client_hello_header (hton8 SOCKS_VERSION) (hton8 (of_nat ?n))) d) =
        ?c\<lparr>bs_buffer := Some (socks_hello auth)\<rparr>" (is "_ = ?h")
      using hello_written [of x ?c] x ca au by simp
    have h: "bs_idle_send ?h" "bs_idle_recv ?h"
      by (simp_all add: BSocksClient_init_control_io_def bs_idle_send_def bs_idle_recv_def ppi_defs sri_defs ppi_wf_def si_wf_def)
    have "unat (bsize_value ?sz) \<le> 10000" using sv n by simp
    then have "c_int (uint (bsize_value ?sz)) = int (unat (bsize_value ?sz))" by (rule c_int_size)
    also have "\<dots> = int (length (socks_hello auth))" unfolding sv by (simp add: length_socks_hello au)
    finally have cs: "c_int (uint (bsize_value ?sz)) = int (length (socks_hello auth))" .
    have s: "bs_sending (bs_send ?h ?sz) (socks_hello auth)" "bs_sent_now (bs_send ?h ?sz) (socks_hello auth) = []"
      by (rule bs_send_sending [OF h _ cs]; simp)+
    have "bs_inv auth dest ((bs_send ?h ?sz)\<lparr>bs_state := STATE_SENDING_HELLO\<rparr>, ss, r)"
      using s i st e p au by (simp add: bs_resources_def bs_events_ok_def bs_phase_def bs_send_def
          BSocksClient_init_control_io_def)
    with Some w show ?thesis by simp
  qed
  have cc: "bs_auth_info ?c = bs_auth_info c" by simp
  show ?thesis
    unfolding BSocksClient_connector_handler_def Let_def cc
    using f0 f1 main by (auto simp del: bs_inv.simps)
qed

lemma take_2_nth: "length b = 2 \<Longrightarrow> take 2 b = [b ! 0, b ! 1]"
  by (cases b; cases "tl b") auto

lemma take_4_nth: "4 \<le> length b \<Longrightarrow> take 4 b = [b ! 0, b ! 1, b ! 2, b ! 3]"
  by (auto simp: Suc_le_length_iff numeral_eq_Suc)

text \<open>When the last bytes of a message have been counted, the buffer holds the whole message.\<close>

lemma bs_received_all:
  assumes rc: "bs_receiving c base n l" and o: "si_job_done (bs_recv_if c)"
  defines "c' \<equiv> c\<lparr>bs_recv_if := StreamRecvInterface_job_done (bs_recv_if c),
                   bs_recv_len := bs_recv_len c + si_job_done_len (bs_recv_if c)\<rparr>"
  shows "bs_recv_len c' < n \<Longrightarrow> bs_receiving (BSocksClient_do_receive c') base n l \<and>
           bs_partial (BSocksClient_do_receive c') = bs_partial c"
    and "\<not> bs_recv_len c' < n \<Longrightarrow> bs_partial c = mem_read (nat base) (nat n) (the (bs_buffer c))"
    and "bs_idle_send c'" "bs_idle_recv c'" "bs_recv_total c' = n"
    and "\<exists>b. bs_buffer c' = Some b \<and> int (length b) = l"
proof -
  have r: "si_state (bs_recv_if c) = STATE_DONE_PENDING" "0 < si_job_done_len (bs_recv_if c)"
    "si_job_done_len (bs_recv_if c) \<le> n - bs_recv_len c" "0 \<le> bs_recv_len c" "bs_recv_total c = n" "bs_recv_dest c = base"
    using rc o by (auto simp: bs_receiving_def Let_def si_wf_def)
  show "bs_receiving (BSocksClient_do_receive c') base n l \<and>
           bs_partial (BSocksClient_do_receive c') = bs_partial c" if "bs_recv_len c' < n"
    using rc r that by (simp add: c'_def BSocksClient_do_receive_def bs_receiving_def Let_def bs_partial_def
        StreamRecvInterface_Receiver_Recv_def StreamRecvInterface_job_done_def si_wf_def bs_idle_send_def)
  show "bs_partial c = mem_read (nat base) (nat n) (the (bs_buffer c))" if "\<not> bs_recv_len c' < n"
  proof -
    have "bs_recv_len c + si_job_done_len (bs_recv_if c) = n" using r that by (simp add: c'_def)
    then show ?thesis using r by (simp add: bs_partial_def)
  qed
  show "bs_idle_send c'" "bs_idle_recv c'" "bs_recv_total c' = n" "\<exists>b. bs_buffer c' = Some b \<and> int (length b) = l"
    using rc r by (auto simp: c'_def bs_receiving_def Let_def bs_idle_send_def bs_idle_recv_def si_wf_def
        StreamRecvInterface_job_done_def)
qed

lemma bs_received_hello_inv:
  assumes b: "bs_between auth dest c" and x: "bs_buffer c = Some x" "length x = 2" and ok: "bs_realloc_ok realloc"
    and v: "BAddr_valid dest" "dest \<noteq> BADDR_NONE"
    and t: "\<forall>ai\<in>set auth. ai_auth_type ai = 0 \<or> ai_auth_type ai = 2"
  shows "bs_inv auth dest (bs_received_hello realloc c, [socks_hello auth], x)"
proof -
  let ?fail = "BSocksClient_report_error c BSOCKSCLIENT_EVENT_ERROR"
  note fail = bs_between_fail [OF b, of "[socks_hello auth]" x]
  have xs: "x = [x ! 0, x ! 1]" using take_2_nth [OF x(2)] x(2) by simp
  have au: "bs_auth_info c = auth" using b by (simp add: bs_between_def)
  define m where "m = uint (x ! Suc 0)"
  have eq: "bs_received_hello realloc c = (if x ! 0 \<noteq> SOCKS_VERSION then ?fail
      else case find (\<lambda>ai. ai_auth_type ai = m) auth of None \<Rightarrow> ?fail
      | Some ai \<Rightarrow> bs_received_hello realloc c)"
    by (simp add: bs_received_hello_def Let_def x socks_server_hello_of_def ntoh8_def hton8_def au m_def
        split: option.splits)
  show ?thesis
  proof (cases "x ! 0 = SOCKS_VERSION \<and> (\<exists>ai. find (\<lambda>ai. ai_auth_type ai = m) auth = Some ai)")
    case False
    then have "bs_received_hello realloc c = ?fail" by (subst eq) (auto split: option.splits)
    with fail show ?thesis by (simp del: bs_inv.simps)
  next
    case True
    then obtain ai where ai: "find (\<lambda>ai. ai_auth_type ai = m) auth = Some ai" and x0: "x ! 0 = SOCKS_VERSION" by blast
    have am: "ai_auth_type ai = m" "ai \<in> set auth" using ai by (auto simp: find_Some_iff)
    have x1: "x ! 1 = word_of_int m" by (simp add: m_def)
    consider "m = 0" | "m = 2" using am t by auto
    then show ?thesis
    proof cases
      case 1
      have "bs_received_hello realloc c = BSocksClient_auth_finished realloc c"
        using ai am 1 x0 by (simp add: bs_received_hello_def Let_def x socks_server_hello_of_def ntoh8_def hton8_def au
            flip: m_def) (simp add: socks_consts)
      moreover have "socks_auth_done auth [socks_hello auth] x"
        using ai x0 x1 1 xs by (auto simp: socks_auth_done_def auth_chosen_def)
      ultimately show ?thesis using auth_finished_inv [OF b _ ok v] by simp
    next
      case 2
      let ?u = "length (ai_username ai)" and ?p = "length (ai_password ai)"
      let ?sz = "bsize_fromsize (of_nat (1 + 1 + ?u + 1 + ?p)) :: size_t bsize_t"
      have eq2: "bs_received_hello realloc c = (if \<not> auth_usable ai then ?fail
          else case BSocksClient_reserve_buffer realloc c ?sz of None \<Rightarrow> ?fail
          | Some c \<Rightarrow> (bs_send (bs_write (3 + int ?u) (ai_password ai) (bs_write (2 + int ?u) [of_nat ?p]
               (bs_write 2 (ai_username ai) (bs_write 1 [of_nat ?u] (bs_write 0 [1] c))))) ?sz)\<lparr>bs_state := STATE_SENDING_PASSWORD\<rparr>)"
        using ai am 2 x0 by (simp add: bs_received_hello_def Let_def x socks_server_hello_of_def ntoh8_def hton8_def au
            auth_usable_def flip: m_def) (auto simp: socks_consts split: option.splits)
      show ?thesis
      proof (cases "auth_usable ai \<and> BSocksClient_reserve_buffer realloc c ?sz \<noteq> None")
        case False
        then have "bs_received_hello realloc c = ?fail" by (auto simp: eq2)
        with fail show ?thesis by (simp del: bs_inv.simps)
      next
        case True
        then obtain d where d: "BSocksClient_reserve_buffer realloc c ?sz = Some d" and us: "auth_usable ai" by auto
        have "unat (of_nat (1 + 1 + ?u + 1 + ?p) :: size_t) = 1 + 1 + ?u + 1 + ?p"
          by (rule unat_small) (use us in \<open>simp add: auth_usable_def\<close>)
        then have sv: "unat (bsize_value ?sz) = 3 + ?u + ?p" by (simp add: bsize_fromsize_def)
        then have nz: "bsize_value ?sz \<noteq> 0" by auto
        obtain y where y: "d = c\<lparr>bs_buffer := Some y\<rparr>" "length y = 3 + ?u + ?p" using reserve_bufferE [OF d ok nz] sv by auto
        let ?h = "c\<lparr>bs_buffer := Some (socks_password ai)\<rparr>"
        have w: "bs_write (3 + int ?u) (ai_password ai) (bs_write (2 + int ?u) [of_nat ?p]
               (bs_write 2 (ai_username ai) (bs_write 1 [of_nat ?u] (bs_write 0 [1] d)))) = ?h"
          using password_written [of y "ai_username ai" "ai_password ai" "of_nat ?p" "of_nat ?u" 1] y
          by (simp add: bs_write_def socks_password_def nat_add_distrib)
        have h: "bs_idle_send ?h" "bs_idle_recv ?h"
          using b by (simp_all add: bs_between_def bs_idle_send_def bs_idle_recv_def)
        have "unat (bsize_value ?sz) \<le> 10000" using sv us by (simp add: auth_usable_def)
        then have "c_int (uint (bsize_value ?sz)) = int (unat (bsize_value ?sz))" by (rule c_int_size)
        also have "\<dots> = int (length (socks_password ai))" unfolding sv by (simp add: socks_password_def)
        finally have cs: "c_int (uint (bsize_value ?sz)) = int (length (socks_password ai))" .
        have s: "bs_sending (bs_send ?h ?sz) (socks_password ai)" "bs_sent_now (bs_send ?h ?sz) (socks_password ai) = []"
          by (rule bs_send_sending [OF h _ cs]; simp)+
        have "bs_phase ((bs_send ?h ?sz)\<lparr>bs_state := STATE_SENDING_PASSWORD\<rparr>) [socks_hello auth] x"
          using s us ai 2 xs x0 x1 au by (auto simp: bs_phase_def Let_def auth_chosen_def bs_send_def)
        then have "bs_inv auth dest ((bs_send ?h ?sz)\<lparr>bs_state := STATE_SENDING_PASSWORD\<rparr>, [socks_hello auth], x)"
          by (intro bs_between_inv [OF b, of STATE_SENDING_PASSWORD])
            (use b in \<open>simp_all add: bs_between_def bs_send_def\<close>)
        with d us w show ?thesis by (simp add: eq2 del: bs_inv.simps)
      qed
    qed
  qed
qed

lemma bs_received_reply_header_inv:
  assumes b: "bs_between auth dest c" and x: "bs_buffer c = Some x" "length x = 22"
    and a: "socks_auth_done auth s0 r0"
  shows "bs_inv auth dest (bs_received_reply_header c, s0 @ [socks_request dest], r0 @ take 4 x)"
proof -
  let ?fail = "BSocksClient_report_error c BSOCKSCLIENT_EVENT_ERROR"
  let ?r = "r0 @ take 4 x"
  have x4: "take 4 x = [x ! 0, x ! 1, x ! 2, x ! 3]" using x by (intro take_4_nth) simp
  show ?thesis
  proof (cases "x ! 0 = SOCKS_VERSION \<and> x ! 1 = SOCKS_REP_SUCCEEDED \<and> (x ! 3 = SOCKS_ATYP_IPV4 \<or> x ! 3 = SOCKS_ATYP_IPV6)")
    case False
    then have "bs_received_reply_header c = ?fail"
      by (auto simp: bs_received_reply_header_def Let_def x socks_reply_header_of_def ntoh8_def hton8_def)
    with bs_between_fail [OF b] show ?thesis by (simp del: bs_inv.simps)
  next
    case True
    let ?n = "socks_addr_len (x ! 3)"
    let ?c = "(BSocksClient_start_receive c 4 ?n)\<lparr>bs_state := STATE_RECEIVED_REPLY_HEADER\<rparr>"
    have eq: "bs_received_reply_header c = ?c"
      using True by (auto simp: bs_received_reply_header_def Let_def x socks_reply_header_of_def ntoh8_def hton8_def)
    have n: "0 < ?n" "4 + ?n \<le> 22" by simp_all
    have r: "bs_receiving (BSocksClient_start_receive c 4 ?n) 4 ?n 22" "bs_partial (BSocksClient_start_receive c 4 ?n) = []"
      using bs_start_receive_inv [OF _ _ x(1) _ _ n] b x(2) by (simp_all add: bs_between_def del: socks_addr_len.simps)
    have "bs_phase ?c (s0 @ [socks_request dest]) ?r"
      unfolding bs_phase_def Let_def using r a True b x4
      by (auto simp: bs_between_def simp del: socks_addr_len.simps
          intro!: exI [of _ s0] exI [of _ r0] exI [of _ "x ! 2"] exI [of _ "x ! 3"])
    then show ?thesis unfolding eq
      by (intro bs_between_inv [OF b, of STATE_RECEIVED_REPLY_HEADER]) (use b in \<open>simp_all add: bs_between_def\<close>)
  qed
qed

lemma bs_received_reply_rest_inv:
  assumes b: "bs_between auth dest c" and e: "socks_established auth dest ss r"
  shows "bs_inv auth dest (bs_received_reply_rest c, ss, r)"
  using assms by (simp add: bs_received_reply_rest_def Let_def BSocksClient_free_control_io_def BSocksClient_init_up_io_def
      bs_between_def bs_resources_def bs_events_ok_def bs_phase_def bs_jobs_off_def ppi_defs sri_defs)

lemma bs_recv_job_done_inv:
  assumes i: "bs_inv auth dest (c, ss, r)" and l: "bs_live c" and o: "si_job_done (bs_recv_if c)"
    and ok: "bs_realloc_ok realloc" and v: "BAddr_valid dest" "dest \<noteq> BADDR_NONE"
    and t: "\<forall>ai\<in>set auth. ai_auth_type ai = 0 \<or> ai_auth_type ai = 2"
  shows "bs_inv auth dest (BSocksClient_recv_handler_done realloc
      (c\<lparr>bs_recv_if := StreamRecvInterface_job_done (bs_recv_if c)\<rparr>) (si_job_done_len (bs_recv_if c)), ss, r)"
    (is "bs_inv auth dest (?h, ss, r)")
proof -
  have p: "bs_phase c ss r" using i l by simp
  have st: "bs_state c \<in> {STATE_SENT_HELLO, STATE_SENT_PASSWORD, STATE_SENT_REQUEST, STATE_RECEIVED_REPLY_HEADER}"
    using bs_phase_cases(2) [OF p] o i by simp
  let ?c = "c\<lparr>bs_recv_if := StreamRecvInterface_job_done (bs_recv_if c),
                   bs_recv_len := bs_recv_len c + si_job_done_len (bs_recv_if c)\<rparr>"
  let ?d = "BSocksClient_do_receive ?c"
  obtain base n ln where rc: "bs_receiving c base n ln" using p st by (auto simp: bs_phase_def Let_def)
  note a = bs_received_all [OF rc o]
  have b: "bs_between auth dest ?c" using i st a(3,4) bs_live_events [OF l]
    by (auto simp: bs_between_def bs_resources_def)
  have hd: "?h = (if bs_recv_len ?c < n then ?d else case bs_state c of
        STATE_SENT_HELLO \<Rightarrow> bs_received_hello realloc ?c
      | STATE_SENT_REQUEST \<Rightarrow> bs_received_reply_header ?c
      | STATE_SENT_PASSWORD \<Rightarrow> bs_received_password_reply realloc ?c
      | STATE_RECEIVED_REPLY_HEADER \<Rightarrow> bs_received_reply_rest ?c
      | _ \<Rightarrow> ?c)"
    using a(5) by (simp add: BSocksClient_recv_handler_done_def Let_def)
  show ?thesis
  proof (cases "bs_recv_len ?c < n")
    case True
    have tot: "bs_recv_total c = n" using a(5) by simp
    have k: "bs_receiving ?d b' n' l' \<and> bs_partial ?d = bs_partial c" if "bs_receiving c b' n' l'" for b' n' l'
    proof -
      have "n' = n" using that tot by (simp add: bs_receiving_def Let_def)
      then show ?thesis using bs_received_all(1) [OF that o] True by simp
    qed
    have "bs_phase ?d ss (r @ [])"
      by (rule bs_phase_receiving [OF p st]) (use k in \<open>auto simp: BSocksClient_do_receive_def\<close>)
    then have "bs_inv auth dest (?d, ss, r)"
      by (intro bs_between_inv [OF b, of "bs_state c"]) (use b st in \<open>auto simp: bs_between_def BSocksClient_do_receive_def\<close>)
    with True hd show ?thesis by simp
  next
    case False
    have full: "bs_partial c = mem_read (nat b') (nat n') (the (bs_buffer c)) \<and> (\<exists>x. bs_buffer ?c = Some x \<and> int (length x) = l')"
      if "bs_receiving c b' n' l'" for b' n' l'
    proof -
      have "n' = n" using that rc by (simp add: bs_receiving_def Let_def)
      then show ?thesis using bs_received_all(2,6) [OF that o] False by simp
    qed
    from st consider "bs_state c = STATE_SENT_HELLO" | "bs_state c = STATE_SENT_PASSWORD"
      | "bs_state c = STATE_SENT_REQUEST" | "bs_state c = STATE_RECEIVED_REPLY_HEADER" by blast
    then show ?thesis
    proof cases
      case 1
      then have q: "bs_receiving c 0 2 2" "ss = [socks_hello auth]" "r = bs_partial c"
        using p i by (auto simp: bs_phase_def Let_def)
      then obtain x where x: "bs_buffer ?c = Some x" "length x = 2" "r = take 2 x" using full [OF q(1)] by (auto simp: mem_read_def)
      then show ?thesis using bs_received_hello_inv [OF b x(1,2) ok v t] q 1 False hd by simp
    next
      case 2
      then obtain ai where q: "auth_chosen auth 2 ai" "auth_usable ai" "bs_receiving c 0 2 2"
        "ss = [socks_hello auth, socks_password ai]" "r = [SOCKS_VERSION, 2] @ bs_partial c"
        using p i by (auto simp: bs_phase_def Let_def)
      then obtain x where x: "bs_buffer ?c = Some x" "length x = 2" "bs_partial c = take 2 x"
        using full [OF q(3)] by (auto simp: mem_read_def)
      have "bs_inv auth dest (bs_received_password_reply realloc ?c, ss, r)"
      proof (cases "x ! 0 = 1 \<and> x ! 1 = 0")
        case True
        then have "socks_auth_done auth ss r" using q x take_2_nth [OF x(2)] by (auto simp: socks_auth_done_def)
        then show ?thesis using True auth_finished_inv [OF b _ ok v] x(1) by (simp add: bs_received_password_reply_def)
      next
        case False
        then have "bs_received_password_reply realloc ?c = BSocksClient_report_error ?c BSOCKSCLIENT_EVENT_ERROR"
          using x(1) by (auto simp: bs_received_password_reply_def)
        with bs_between_fail [OF b] show ?thesis by (simp del: bs_inv.simps)
      qed
      then show ?thesis using 2 False hd by simp
    next
      case 3
      then obtain s0 r0 where q: "socks_auth_done auth s0 r0" "bs_receiving c 0 4 22" "ss = s0 @ [socks_request dest]"
        "r = r0 @ bs_partial c" using p i by (auto simp: bs_phase_def Let_def)
      then obtain x where x: "bs_buffer ?c = Some x" "length x = 22" "bs_partial c = take 4 x"
        using full [OF q(2)] by (auto simp: mem_read_def)
      then show ?thesis using bs_received_reply_header_inv [OF b x(1,2) q(1)] q 3 False hd by simp
    next
      case 4
      then obtain s0 r0 rsv atyp where q: "socks_auth_done auth s0 r0" "bs_receiving c 4 (socks_addr_len atyp) 22"
        "atyp = SOCKS_ATYP_IPV4 \<or> atyp = SOCKS_ATYP_IPV6" "ss = s0 @ [socks_request dest]"
        "r = r0 @ [SOCKS_VERSION, SOCKS_REP_SUCCEEDED, rsv, atyp] @ bs_partial c"
        using p i by (auto simp: bs_phase_def Let_def simp del: socks_addr_len.simps)
      obtain x where x: "bs_buffer ?c = Some x" "length x = 22"
        "bs_partial c = mem_read 4 (nat (socks_addr_len atyp)) x"
        using full [OF q(2)] by (auto simp del: socks_addr_len.simps)
      have "length (bs_partial c) = nat (socks_addr_len atyp)" using x by (simp add: mem_read_def)
      then have "int (length (bs_partial c)) = socks_addr_len atyp" by simp
      then have "socks_established auth dest ss r"
        unfolding socks_established_def using q(1,3,4,5) by (intro exI conjI)
      then show ?thesis using bs_received_reply_rest_inv [OF b] 4 False hd by simp
    qed
  qed
qed

section \<open>Runs\<close>

lemma bs_step_inv:
  assumes "bs_step realloc s s'" "bs_inv auth dest s" "bs_realloc_ok realloc" "BAddr_valid dest" "dest \<noteq> BADDR_NONE"
    "\<forall>ai\<in>set auth. ai_auth_type ai = 0 \<or> ai_auth_type ai = 2"
  shows "bs_inv auth dest s'"
  using assms(1)
proof cases
  case (connector c ss r ok is_error)
  then show ?thesis using bs_connector_inv assms by (simp del: bs_inv.simps)
next
  case (connection c ss r event)
  then show ?thesis using assms(2)
    by (auto simp: BSocksClient_connection_handler_def BSocksClient_report_error_def bs_resources_def bs_events_ok_def
        bs_live_def)
next
  case (bs_send_operation c ss r)
  then show ?thesis using bs_send_operation_inv assms by (simp del: bs_inv.simps)
next
  case (bs_send_done c ss r)
  then show ?thesis using bs_send_done_inv assms by (simp del: bs_inv.simps)
next
  case (bs_send_job_done c ss r)
  then show ?thesis using bs_send_job_done_inv assms by (simp del: bs_inv.simps)
next
  case (bs_recv_operation c ss r)
  then show ?thesis using bs_recv_operation_inv assms by (simp del: bs_inv.simps)
next
  case (bs_recv_done c x ss r)
  then show ?thesis using bs_recv_done_inv assms by (simp del: bs_inv.simps)
next
  case (bs_recv_job_done c ss r)
  then show ?thesis using bs_recv_job_done_inv assms by (simp del: bs_inv.simps)
qed

definition bs_reach :: "bs_realloc \<Rightarrow> BSocksClient_auth_info list \<Rightarrow> BAddr \<Rightarrow> bs_run \<Rightarrow> bool" where
  "bs_reach realloc auth dest s \<longleftrightarrow>
     (\<exists>c. BSocksClient_Init True auth dest = Some c \<and> (bs_step realloc)\<^sup>*\<^sup>* (c, [], []) s)"

text \<open>The conditions \<^verbatim>\<open>BSocksClient_Init\<close> asserts of its arguments.\<close>

definition BSocksClient_Init_pre :: "BSocksClient_auth_info list \<Rightarrow> BAddr \<Rightarrow> bool" where
  "BSocksClient_Init_pre auth dest \<longleftrightarrow>
     BAddr_valid dest \<and> dest \<noteq> BADDR_NONE \<and>
     (\<forall>ai\<in>set auth. ai_auth_type ai = SOCKS_METHOD_NO_AUTHENTICATION_REQUIRED \<or>
        ai_auth_type ai = SOCKS_METHOD_USERNAME_PASSWORD)"

lemma bs_reach_inv:
  assumes "bs_reach realloc auth dest s" "bs_realloc_ok realloc" "BSocksClient_Init_pre auth dest"
  shows "bs_inv auth dest s"
proof -
  obtain c where c: "BSocksClient_Init True auth dest = Some c" "(bs_step realloc)\<^sup>*\<^sup>* (c, [], []) s"
    using assms(1) by (auto simp: bs_reach_def)
  have i: "bs_inv auth dest (c, [], [])" using c(1)
    by (auto simp: BSocksClient_Init_def bs_resources_def bs_events_ok_def bs_phase_def bs_jobs_off_def ppi_defs sri_defs)
  have v: "BAddr_valid dest" "dest \<noteq> BADDR_NONE" "\<forall>ai\<in>set auth. ai_auth_type ai = 0 \<or> ai_auth_type ai = 2"
    using assms(3) by (auto simp: BSocksClient_Init_pre_def socks_consts)
  from c(2) i show ?thesis by (induction) (auto intro: bs_step_inv [OF _ _ assms(2) v] simp del: bs_inv.simps)
qed

section \<open>Running the client\<close>

datatype bs_do_event =
    BConnector bool bool | BConnection bcon_event | BSendOperation | BSendDone | BSendJobDone
  | BRecvOperation | BRecvDone bytes | BRecvJobDone

fun bs_do :: "bs_realloc \<Rightarrow> bs_do_event \<Rightarrow> bs_run \<Rightarrow> bs_run option" where
  "bs_do realloc ev (c, ss, r) =
     (if \<not> bs_live c then None else case ev of
        BConnector ok is_error \<Rightarrow>
          (if bs_state c = STATE_CONNECTING
           then Some (BSocksClient_connector_handler realloc ok c is_error, ss, r) else None)
      | BConnection event \<Rightarrow>
          (if bs_state c \<noteq> STATE_CONNECTING then Some (BSocksClient_connection_handler c event, ss, r) else None)
      | BSendOperation \<Rightarrow>
          (if ppi_job_operation (bs_send_if c)
           then Some (c\<lparr>bs_send_if := PacketPassInterface_job_operation (bs_send_if c)\<rparr>, ss, r) else None)
      | BSendDone \<Rightarrow>
          (if bs_control c \<and> PacketPassInterface_Done_pre (bs_send_if c)
           then Some (c\<lparr>bs_send_if := PacketPassInterface_Done (bs_send_if c)\<rparr>,
             ss @ [mem_read (nat (ppi_job_operation_data (bs_send_if c))) (nat (ppi_job_operation_len (bs_send_if c)))
                    (the (bs_buffer c))], r) else None)
      | BSendJobDone \<Rightarrow>
          (if ppi_job_done (bs_send_if c)
           then Some (BSocksClient_send_handler_done realloc
                   (c\<lparr>bs_send_if := PacketPassInterface_job_done (bs_send_if c)\<rparr>), ss, r) else None)
      | BRecvOperation \<Rightarrow>
          (if si_job_operation (bs_recv_if c)
           then Some (c\<lparr>bs_recv_if := StreamRecvInterface_job_operation (bs_recv_if c)\<rparr>, ss, r) else None)
      | BRecvDone x \<Rightarrow>
          (if bs_control c \<and> StreamRecvInterface_Done_pre (bs_recv_if c) (int (length x))
           then Some ((bs_write (si_job_operation_data (bs_recv_if c)) x c)
                   \<lparr>bs_recv_if := StreamRecvInterface_Done (bs_recv_if c) (int (length x))\<rparr>, ss, r @ x) else None)
      | BRecvJobDone \<Rightarrow>
          (if si_job_done (bs_recv_if c)
           then Some (BSocksClient_recv_handler_done realloc
                   (c\<lparr>bs_recv_if := StreamRecvInterface_job_done (bs_recv_if c)\<rparr>) (si_job_done_len (bs_recv_if c)), ss, r)
           else None))"

fun bs_exec :: "bs_realloc \<Rightarrow> bs_do_event list \<Rightarrow> bs_run \<Rightarrow> bs_run option" where
  "bs_exec realloc [] s = Some s"
| "bs_exec realloc (ev # evs) s = (case bs_do realloc ev s of None \<Rightarrow> None | Some s' \<Rightarrow> bs_exec realloc evs s')"

lemma bs_do_step: "bs_do realloc ev s = Some s' \<Longrightarrow> bs_step realloc s s'"
  by (cases s; cases ev) (auto split: if_splits intro: bs_step.intros)

lemma bs_exec_steps: "bs_exec realloc evs s = Some s' \<Longrightarrow> (bs_step realloc)\<^sup>*\<^sup>* s s'"
  by (induction evs arbitrary: s)
    (auto split: option.splits intro: converse_rtranclp_into_rtranclp dest!: bs_do_step simp del: bs_do.simps)

definition demo_realloc :: bs_realloc where
  "demo_realloc m n = Some (Some (replicate (unat n) 0))"

definition demo_auth :: "BSocksClient_auth_info list" where
  "demo_auth = [BSocksClient_auth_none, BSocksClient_auth_password [65] [66, 67]]"

definition demo_dest :: BAddr where "demo_dest = BADDR_IPV4 0x0100007F 0x5000"

text \<open>A handshake with a password, the reply arriving in pieces.\<close>

definition demo_bs_run :: "bs_do_event list" where
  "demo_bs_run =
     [BConnector True False, BSendOperation, BSendDone, BSendJobDone,
      BRecvOperation, BRecvDone [5], BRecvJobDone, BRecvOperation, BRecvDone [2], BRecvJobDone,
      BSendOperation, BSendDone, BSendJobDone, BRecvOperation, BRecvDone [1, 0], BRecvJobDone,
      BSendOperation, BSendDone, BSendJobDone, BRecvOperation, BRecvDone [5, 0, 0, 1], BRecvJobDone,
      BRecvOperation, BRecvDone [0, 0, 0], BRecvJobDone, BRecvOperation, BRecvDone [0, 0, 0], BRecvJobDone]"

definition demo_bs :: bs_run where
  "demo_bs = the (bs_exec demo_realloc demo_bs_run (the (BSocksClient_Init True demo_auth demo_dest), [], []))"

definition demo_bs_hello :: bs_run where
  "demo_bs_hello = the (bs_exec demo_realloc (take 6 demo_bs_run) (the (BSocksClient_Init True demo_auth demo_dest), [], []))"

lemma demo_realloc_ok: "bs_realloc_ok demo_realloc"
  by (simp add: bs_realloc_ok_def demo_realloc_def)

lemma demo_bs_pre: "BSocksClient_Init_pre demo_auth demo_dest"
  by (simp add: BSocksClient_Init_pre_def demo_auth_def demo_dest_def BSocksClient_auth_none_def
      BSocksClient_auth_password_def)

lemma demo_bs_reach: "bs_reach demo_realloc demo_auth demo_dest demo_bs"
  "bs_reach demo_realloc demo_auth demo_dest demo_bs_hello"
proof -
  have i: "BSocksClient_Init True demo_auth demo_dest = Some (the (BSocksClient_Init True demo_auth demo_dest))"
    by (simp add: BSocksClient_Init_def)
  have "\<not> Option.is_none (bs_exec demo_realloc demo_bs_run (the (BSocksClient_Init True demo_auth demo_dest), [], []))"
    by code_simp
  then have "bs_exec demo_realloc demo_bs_run (the (BSocksClient_Init True demo_auth demo_dest), [], []) = Some demo_bs"
    by (simp add: demo_bs_def Option.is_none_def)
  with i show "bs_reach demo_realloc demo_auth demo_dest demo_bs"
    unfolding bs_reach_def using bs_exec_steps by blast
  have "\<not> Option.is_none (bs_exec demo_realloc (take 6 demo_bs_run) (the (BSocksClient_Init True demo_auth demo_dest), [], []))"
    by code_simp
  then have "bs_exec demo_realloc (take 6 demo_bs_run) (the (BSocksClient_Init True demo_auth demo_dest), [], []) =
      Some demo_bs_hello"
    by (simp add: demo_bs_hello_def Option.is_none_def)
  with i show "bs_reach demo_realloc demo_auth demo_dest demo_bs_hello"
    unfolding bs_reach_def using bs_exec_steps by blast
qed

section \<open>Properties\<close>

text \<open>
  C18: The client reports \<^verbatim>\<open>UP\<close> only after a complete SOCKS5 handshake: it has sent exactly the hello, the
  password message if the server chose that method, and the connect request for the destination, and the server has
  answered, in whatever pieces, with an accepted method, a positive password reply where one was due, and a successful
  reply with an address. Events come in the order the owner relies on: \<^verbatim>\<open>UP\<close> at most once and first,
  \<^verbatim>\<open>ERROR_CLOSED\<close> only after it, at most one error and nothing after it.
\<close>

theorem BSocksClient_handshake:
  assumes "bs_reach realloc auth dest (c, ss, r)" "bs_realloc_ok realloc" "BSocksClient_Init_pre auth dest"
  shows "(BSOCKSCLIENT_EVENT_UP \<in> set (bs_events c) \<longrightarrow> socks_established auth dest ss r) \<and>
    bs_events c \<in> {[], [BSOCKSCLIENT_EVENT_ERROR], [BSOCKSCLIENT_EVENT_UP],
      [BSOCKSCLIENT_EVENT_UP, BSOCKSCLIENT_EVENT_ERROR], [BSOCKSCLIENT_EVENT_UP, BSOCKSCLIENT_EVENT_ERROR_CLOSED]}"
  using bs_reach_inv [OF assms] by (auto simp: bs_events_ok_def split: if_splits)

theorem BSocksClient_handshake_witness:
  "bs_events (fst demo_bs) = [BSOCKSCLIENT_EVENT_UP] \<and>
   socks_established demo_auth demo_dest (fst (snd demo_bs)) (snd (snd demo_bs)) \<and>
   fst (snd demo_bs) = [[5, 2, 0, 2], [1, 1, 65, 2, 66, 67], [5, 1, 0, 1, 0x7F, 0, 0, 1, 0, 0x50]]"
proof -
  have e: "bs_events (fst demo_bs) = [BSOCKSCLIENT_EVENT_UP]" by code_simp
  have s: "fst (snd demo_bs) = [[5, 2, 0, 2], [1, 1, 65, 2, 66, 67], [5, 1, 0, 1, 0x7F, 0, 0, 1, 0, 0x50]]" by code_simp
  obtain c ss r where d: "demo_bs = (c, ss, r)" by (cases demo_bs)
  show ?thesis
    using BSocksClient_handshake [OF demo_bs_reach(1) [unfolded d] demo_realloc_ok demo_bs_pre] e [unfolded d] s [unfolded d]
    unfolding d by simp
qed

text \<open>
  C19: While the client is alive and not yet up it is never stuck and never out of bounds: exactly one transfer is in
  progress, a receive always into a non-empty window inside the buffer, a send of exactly the buffer; every assertion
  of the two completion handlers holds when they are called.
\<close>

theorem BSocksClient_asserts:
  assumes "bs_reach realloc auth dest (c, ss, r)" "bs_realloc_ok realloc" "BSocksClient_Init_pre auth dest"
    "bs_live c" "bs_state c \<noteq> STATE_CONNECTING" "bs_state c \<noteq> STATE_UP"
  shows "(ppi_state (bs_send_if c) \<noteq> STATE_NONE \<longleftrightarrow> si_state (bs_recv_if c) = STATE_NONE) \<and>
    (\<exists>b. bs_buffer c = Some b \<and>
      (ppi_state (bs_send_if c) \<noteq> STATE_NONE \<longrightarrow>
         bs_state c \<in> {STATE_SENDING_HELLO, STATE_SENDING_PASSWORD, STATE_SENDING_REQUEST} \<and>
         ppi_job_operation_data (bs_send_if c) = 0 \<and> ppi_job_operation_len (bs_send_if c) = int (length b)) \<and>
      (si_state (bs_recv_if c) \<noteq> STATE_NONE \<longrightarrow>
         bs_state c \<in> {STATE_SENT_HELLO, STATE_SENT_PASSWORD, STATE_SENT_REQUEST, STATE_RECEIVED_REPLY_HEADER} \<and>
         0 \<le> si_job_operation_data (bs_recv_if c) \<and> 0 < si_job_operation_len (bs_recv_if c) \<and>
         si_job_operation_data (bs_recv_if c) + si_job_operation_len (bs_recv_if c) \<le> int (length b)) \<and>
      (si_job_done (bs_recv_if c) \<longrightarrow>
         0 \<le> si_job_done_len (bs_recv_if c) \<and> si_job_done_len (bs_recv_if c) \<le> bs_recv_total c - bs_recv_len c))"
proof -
  have p: "bs_phase c ss r" using bs_reach_inv [OF assms(1-3)] assms(4) by simp
  have rc: ?thesis if "bs_receiving c base n l" "bs_state c \<in> {STATE_SENT_HELLO, STATE_SENT_PASSWORD, STATE_SENT_REQUEST,
      STATE_RECEIVED_REPLY_HEADER}" for base n l
    using that by (auto simp: bs_receiving_def Let_def bs_idle_send_def si_wf_def)
  have sd: ?thesis if "bs_sending c pkt" "bs_state c \<in> {STATE_SENDING_HELLO, STATE_SENDING_PASSWORD, STATE_SENDING_REQUEST}" for pkt
    using that by (auto simp: bs_sending_def bs_idle_recv_def si_wf_def)
  from p assms(5,6) consider base n l where "bs_receiving c base n l" "bs_state c \<in> {STATE_SENT_HELLO, STATE_SENT_PASSWORD,
      STATE_SENT_REQUEST, STATE_RECEIVED_REPLY_HEADER}"
    | pkt where "bs_sending c pkt" "bs_state c \<in> {STATE_SENDING_HELLO, STATE_SENDING_PASSWORD, STATE_SENDING_REQUEST}"
    unfolding bs_phase_def Let_def by (cases "bs_state c") auto
  then show ?thesis by cases (use rc sd in blast)+
qed

theorem BSocksClient_asserts_witness:
  "bs_state (fst demo_bs_hello) = STATE_SENT_HELLO \<and> si_job_done (bs_recv_if (fst demo_bs_hello)) \<and>
   si_job_done_len (bs_recv_if (fst demo_bs_hello)) \<le>
     bs_recv_total (fst demo_bs_hello) - bs_recv_len (fst demo_bs_hello)"
proof -
  have e: "bs_state (fst demo_bs_hello) = STATE_SENT_HELLO" "si_job_done (bs_recv_if (fst demo_bs_hello))"
    "bs_live (fst demo_bs_hello)"
    by code_simp+
  obtain c ss r where d: "demo_bs_hello = (c, ss, r)" by (cases demo_bs_hello)
  show ?thesis
    using BSocksClient_asserts [OF demo_bs_reach(2) [unfolded d] demo_realloc_ok demo_bs_pre] e [unfolded d]
    unfolding d by auto
qed



end
