(* ===== verification/TcpClient.thy ===== *)
theory TcpClient
  imports ByteOrder FlowInterface SocksProto
begin

text \<open>
  The TCP side of \<^verbatim>\<open>tun2socks/tun2socks.c\<close>: one client per TCP connection that lwIP accepts
  from the TUN device. The client forwards what lwIP receives to a SOCKS connection and
  back, and has to take down two ends that can fail in either order without leaking or
  freeing anything twice.

  A client record is \<^verbatim>\<open>struct tcp_client\<close> with its two stream interfaces, the callbacks
  registered at the pcb, the state of the dead variable (\<^verbatim>\<open>misc/dead.h\<close>), a flag for
  freed memory, and a trace of the calls made to lwIP and to the SOCKS client. What lwIP
  answers to \<^verbatim>\<open>tcp_close\<close>, \<^verbatim>\<open>tcp_write\<close>, \<^verbatim>\<open>tcp_sndbuf\<close> and \<^verbatim>\<open>tcp_output\<close> is the
  parameter \<open>lw\<close>; the jobs run by \<^verbatim>\<open>SYNC_COMMIT\<close> inside a callback are a parameter as well.
\<close>

section \<open>Data\<close>

datatype err_t = ERR_OK | ERR_MEM | ERR_ABRT | ERR_OTHER int

text \<open>The dead variable: no pointer, a pointer to a live variable, or to one that is gone.\<close>

datatype dead_t = DEAD_NULL | DEAD_VAR int | DEAD_DANGLING

text \<open>
  What lwIP answers during one handler. \<^verbatim>\<open>tcp_sndbuf\<close> and \<^verbatim>\<open>tcp_write\<close> are called once per
  value of \<^verbatim>\<open>socks_recv_buf_sent\<close>, so functions of that value cover every behaviour.
\<close>

datatype tc_act =
    TcpClose err_t | TcpAbort | TcpWrite bytes | TcpRecved int
  | SocksFree | SocksTook bytes | FreeClient | WildWrite
  | LwipGot bytes | SocksGot bytes

record lwip_answers =
  lw_close :: err_t
  lw_sndbuf :: "int \<Rightarrow> u16"
  lw_write :: "int \<Rightarrow> err_t"
  lw_output :: err_t

record tcp_client =
  tc_aborted :: bool
  tc_dead_aborted :: dead_t
  tc_client_closed :: bool
  tc_buf :: bytes
  tc_buf_used :: int
  tc_socks_up :: bool
  tc_socks_closed :: bool
  tc_socks_send_if :: "int StreamPassInterface"
  tc_socks_recv_if :: "int StreamRecvInterface"
  tc_socks_recv_buf :: bytes
  tc_socks_recv_buf_used :: int
  tc_socks_recv_buf_sent :: int
  tc_socks_recv_waiting :: bool
  tc_socks_recv_tcp_pending :: int
  tc_cb_err :: bool
  tc_cb_recv :: bool
  tc_cb_sent :: bool
  tc_freed :: bool
  tc_trace :: "tc_act list"

abbreviation CLIENT_SOCKS_RECV_BUF_SIZE :: int where "CLIENT_SOCKS_RECV_BUF_SIZE \<equiv> 8192"

definition tc_log :: "tc_act \<Rightarrow> tcp_client \<Rightarrow> tcp_client" where
  "tc_log a c = c\<lparr>tc_trace := tc_trace c @ [a]\<rparr>"

section \<open>misc/dead.h\<close>

definition DEAD_KILL_WITH :: "int \<Rightarrow> tcp_client \<Rightarrow> tcp_client" where
  "DEAD_KILL_WITH v c =
     (case tc_dead_aborted c of
        DEAD_NULL \<Rightarrow> c
      | DEAD_VAR _ \<Rightarrow> c\<lparr>tc_dead_aborted := DEAD_VAR v\<rparr>
      | DEAD_DANGLING \<Rightarrow> tc_log WildWrite c)"

text \<open>Entered only from lwIP callbacks, which do not nest: the saved pointer is null.\<close>

definition DEAD_ENTER :: "tcp_client \<Rightarrow> tcp_client" where
  "DEAD_ENTER c = c\<lparr>tc_dead_aborted := DEAD_VAR 0\<rparr>"

definition DEAD_KILLED :: "tcp_client \<Rightarrow> int" where
  "DEAD_KILLED c = (case tc_dead_aborted c of DEAD_VAR v \<Rightarrow> v | _ \<Rightarrow> 0)"

definition DEAD_LEAVE2 :: "tcp_client \<Rightarrow> tcp_client" where
  "DEAD_LEAVE2 c =
     (if DEAD_KILLED c = 0 then c\<lparr>tc_dead_aborted := DEAD_NULL\<rparr>
      else c\<lparr>tc_dead_aborted := DEAD_DANGLING\<rparr>)"

section \<open>Taking a client down\<close>

definition client_dealloc :: "tcp_client \<Rightarrow> tcp_client" where
  "client_dealloc c =
     (let c = (if \<not> tc_aborted c then DEAD_KILL_WITH (-1) c else c)
      in tc_log FreeClient (c\<lparr>tc_freed := True\<rparr>))"

definition client_abort_pcb :: "tcp_client \<Rightarrow> tcp_client" where
  "client_abort_pcb c = DEAD_KILL_WITH 1 ((tc_log TcpAbort c)\<lparr>tc_aborted := True\<rparr>)"

definition tcp_remove_callbacks :: "tcp_client \<Rightarrow> tcp_client" where
  "tcp_remove_callbacks c = c\<lparr>tc_cb_err := False, tc_cb_recv := False, tc_cb_sent := False\<rparr>"

text \<open>\<^verbatim>\<open>BSocksClient_Free\<close> frees the two stream interfaces as well.\<close>

definition client_BSocksClient_Free :: "tcp_client \<Rightarrow> tcp_client" where
  "client_BSocksClient_Free c =
     tc_log SocksFree
       (c\<lparr>tc_socks_send_if := StreamPassInterface_Free (tc_socks_send_if c),
          tc_socks_recv_if := StreamRecvInterface_Free (tc_socks_recv_if c)\<rparr>)"

function client_handle_freed_client :: "lwip_answers \<Rightarrow> tcp_client \<Rightarrow> tcp_client"
  and client_free_client :: "lwip_answers \<Rightarrow> tcp_client \<Rightarrow> tcp_client"
  and client_free_socks :: "lwip_answers \<Rightarrow> tcp_client \<Rightarrow> tcp_client" where
  "client_handle_freed_client lw c =
     (let c = c\<lparr>tc_client_closed := True\<rparr> in
      if tc_buf_used c > 0 \<and> \<not> tc_socks_closed c then c
      else if \<not> tc_socks_closed c then client_free_socks lw c
      else client_dealloc c)"
| "client_free_client lw c =
     (let c = tcp_remove_callbacks c;
          c = tc_log (TcpClose (lw_close lw)) c;
          c = (if lw_close lw \<noteq> ERR_OK then client_abort_pcb c else c)
      in client_handle_freed_client lw c)"
| "client_free_socks lw c =
     (let c = (if tc_socks_up c \<and> \<not> tc_client_closed c then c\<lparr>tc_cb_recv := False\<rparr> else c);
          c = client_BSocksClient_Free c;
          c = c\<lparr>tc_socks_closed := True\<rparr> in
      if tc_socks_up c \<and> (tc_socks_recv_buf_used c \<ge> 0 \<or> tc_socks_recv_tcp_pending c > 0) \<and>
         \<not> tc_client_closed c then c
      else if \<not> tc_client_closed c then client_free_client lw c
      else client_dealloc c)"
  by pat_completeness auto

lemma tc_log_fields [simp]:
  "tc_socks_closed (tc_log a c) = tc_socks_closed c" "tc_client_closed (tc_log a c) = tc_client_closed c"
  by (simp_all add: tc_log_def)

lemma client_abort_pcb_closed [simp]: "tc_socks_closed (client_abort_pcb c) = tc_socks_closed c"
  by (simp add: client_abort_pcb_def DEAD_KILL_WITH_def split: dead_t.splits)

text \<open>Each end is taken down at most once, so the mutual recursion ends.\<close>

termination client_handle_freed_client
  by (relation "measure (case_sum (\<lambda>(lw, c). if tc_socks_closed c then 0 else 3)
        (case_sum (\<lambda>(lw, c). if tc_socks_closed c then 1 else 4) (\<lambda>_. 2)))")
    (auto simp: tcp_remove_callbacks_def client_BSocksClient_Free_def)

declare client_handle_freed_client.simps [simp del] client_free_client.simps [simp del]
  client_free_socks.simps [simp del]

definition client_abort_client :: "lwip_answers \<Rightarrow> tcp_client \<Rightarrow> tcp_client" where
  "client_abort_client lw c =
     (let c = tcp_remove_callbacks c;
          c = client_abort_pcb c
      in client_handle_freed_client lw c)"

definition client_murder :: "tcp_client \<Rightarrow> tcp_client" where
  "client_murder c =
     (let c = (if \<not> tc_client_closed c
               then (client_abort_pcb (tcp_remove_callbacks c))\<lparr>tc_client_closed := True\<rparr> else c);
          c = (if \<not> tc_socks_closed c then (client_BSocksClient_Free c)\<lparr>tc_socks_closed := True\<rparr> else c)
      in client_dealloc c)"

section \<open>From SOCKS to the client\<close>

definition client_socks_recv_initiate :: "tcp_client \<Rightarrow> tcp_client" where
  "client_socks_recv_initiate c =
     c\<lparr>tc_socks_recv_if := StreamRecvInterface_Receiver_Recv (tc_socks_recv_if c) 0 CLIENT_SOCKS_RECV_BUF_SIZE\<rparr>"

text \<open>
  The \<^verbatim>\<open>do\<close> loop of \<^verbatim>\<open>client_socks_recv_send_out\<close>. \<^const>\<open>Inl\<close> is the return from inside
  the loop after aborting.
\<close>

function client_send_out_loop :: "lwip_answers \<Rightarrow> tcp_client \<Rightarrow> tcp_client + tcp_client" where
  "client_send_out_loop lw c =
     (let sent = tc_socks_recv_buf_sent c;
          to_write = bmin_int (tc_socks_recv_buf_used c - sent) (uint (lw_sndbuf lw sent)) in
      if to_write = 0 then Inr c
      else if lw_write lw sent \<noteq> ERR_OK
      then (if lw_write lw sent = ERR_MEM then Inr c else Inl (client_abort_client lw c))
      else let c = tc_log (TcpWrite (mem_read (nat sent) (nat to_write) (tc_socks_recv_buf c))) c;
               c = c\<lparr>tc_socks_recv_buf_sent := sent + to_write,
                     tc_socks_recv_tcp_pending := tc_socks_recv_tcp_pending c + to_write\<rparr> in
        if tc_socks_recv_buf_sent c < tc_socks_recv_buf_used c then client_send_out_loop lw c else Inr c)"
  by pat_completeness auto

termination
proof (relation "measure (\<lambda>(lw, c). nat (tc_socks_recv_buf_used c - tc_socks_recv_buf_sent c))", goal_cases)
  case (2 lw c)
  obtain u where u: "uint (lw_sndbuf lw (tc_socks_recv_buf_sent c)) = u" "0 \<le> u" by simp
  with 2 show ?case by (auto simp: bmin_int_def tc_log_def u(1) split: if_splits)
qed simp

declare client_send_out_loop.simps [simp del]

definition client_socks_recv_send_out :: "lwip_answers \<Rightarrow> tcp_client \<Rightarrow> tcp_client \<times> int" where
  "client_socks_recv_send_out lw c =
     (case client_send_out_loop lw c of
        Inl c \<Rightarrow> (c, -1)
      | Inr c \<Rightarrow>
          if lw_output lw \<noteq> ERR_OK then (client_abort_client lw c, -1)
          else if tc_socks_recv_buf_sent c < tc_socks_recv_buf_used c
          then (if tc_socks_recv_tcp_pending c = 0 then (client_abort_client lw c, -1)
                else (c\<lparr>tc_socks_recv_waiting := True\<rparr>, 0))
          else (c\<lparr>tc_socks_recv_buf_used := -1\<rparr>, 0))"

definition client_socks_recv_handler_done :: "lwip_answers \<Rightarrow> tcp_client \<Rightarrow> int \<Rightarrow> tcp_client" where
  "client_socks_recv_handler_done lw c data_len =
     (if tc_client_closed c then c
      else let c = c\<lparr>tc_socks_recv_buf_used := data_len, tc_socks_recv_buf_sent := 0,
                     tc_socks_recv_waiting := False\<rparr>;
               (c, r) = client_socks_recv_send_out lw c in
        if r < 0 then c
        else if tc_socks_recv_buf_used c = -1 then client_socks_recv_initiate c
        else c)"

section \<open>From the client to SOCKS\<close>

definition client_send_to_socks :: "tcp_client \<Rightarrow> tcp_client" where
  "client_send_to_socks c =
     c\<lparr>tc_socks_send_if := StreamPassInterface_Sender_Send (tc_socks_send_if c) 0 (tc_buf_used c)\<rparr>"

definition client_socks_send_handler_done :: "lwip_answers \<Rightarrow> tcp_client \<Rightarrow> int \<Rightarrow> tcp_client" where
  "client_socks_send_handler_done lw c data_len =
     (let c = c\<lparr>tc_buf := mem_write 0 (mem_read (nat data_len) (nat (tc_buf_used c - data_len)) (tc_buf c)) (tc_buf c),
                tc_buf_used := tc_buf_used c - data_len\<rparr>;
          c = (if \<not> tc_client_closed c then tc_log (TcpRecved data_len) c else c) in
      if tc_buf_used c > 0
      then c\<lparr>tc_socks_send_if := StreamPassInterface_Sender_Send (tc_socks_send_if c) 0 (tc_buf_used c)\<rparr>
      else if tc_client_closed c then client_free_socks lw c
      else c)"

section \<open>Events of the SOCKS client\<close>

text \<open>The interfaces obtained on \<^verbatim>\<open>UP\<close> are freshly initialised by the SOCKS client.\<close>

definition client_socks_handler :: "lwip_answers \<Rightarrow> tcp_client \<Rightarrow> socks_event \<Rightarrow> tcp_client" where
  "client_socks_handler lw c event =
     (case event of
        BSOCKSCLIENT_EVENT_ERROR \<Rightarrow> client_free_socks lw c
      | BSOCKSCLIENT_EVENT_UP \<Rightarrow>
          let c = c\<lparr>tc_socks_send_if := StreamPassInterface_Sender_Init (StreamPassInterface_Init 0),
                    tc_socks_recv_if := StreamRecvInterface_Receiver_Init (StreamRecvInterface_Init 0),
                    tc_socks_recv_buf_used := -1, tc_socks_recv_tcp_pending := 0\<rparr>;
              c = (if \<not> tc_client_closed c then c\<lparr>tc_cb_sent := True\<rparr> else c);
              c = c\<lparr>tc_socks_up := True\<rparr>;
              c = (if tc_buf_used c > 0 then client_send_to_socks c else c)
          in if \<not> tc_client_closed c then client_socks_recv_initiate c else c
      | BSOCKSCLIENT_EVENT_ERROR_CLOSED \<Rightarrow> client_free_socks lw c)"

section \<open>Callbacks from lwIP\<close>

text \<open>
  \<open>sync\<close> is the effect of the jobs run by \<^verbatim>\<open>SYNC_COMMIT\<close>. A callback returns the client
  and its result.
\<close>

definition client_err_func :: "lwip_answers \<Rightarrow> tcp_client \<Rightarrow> tcp_client" where
  "client_err_func lw c = client_handle_freed_client lw c"

definition callback_result :: "tcp_client \<Rightarrow> tcp_client \<times> err_t" where
  "callback_result c = (DEAD_LEAVE2 c, if DEAD_KILLED c > 0 then ERR_ABRT else ERR_OK)"

definition client_recv_func ::
    "lwip_answers \<Rightarrow> (tcp_client \<Rightarrow> tcp_client) \<Rightarrow> tcp_client \<Rightarrow> bytes option \<Rightarrow> tcp_client \<times> err_t" where
  "client_recv_func lw sync c p =
     (let c = DEAD_ENTER c in
      case p of
        None \<Rightarrow> callback_result (client_free_client lw c)
      | Some x \<Rightarrow>
          if int (length x) > int (length (tc_buf c)) - tc_buf_used c then (DEAD_LEAVE2 c, ERR_MEM)
          else let c = c\<lparr>tc_buf := mem_write (nat (tc_buf_used c)) x (tc_buf c),
                         tc_buf_used := tc_buf_used c + int (length x)\<rparr>;
                   c = (if tc_buf_used c = int (length x) \<and> tc_socks_up c
                        then sync (client_send_to_socks c) else c)
               in callback_result c)"

definition client_sent_func ::
    "lwip_answers \<Rightarrow> (tcp_client \<Rightarrow> tcp_client) \<Rightarrow> tcp_client \<Rightarrow> int \<Rightarrow> tcp_client \<times> err_t" where
  "client_sent_func lw sync c len =
     (let c = DEAD_ENTER c;
          c = c\<lparr>tc_socks_recv_tcp_pending := tc_socks_recv_tcp_pending c - len\<rparr> in
      if tc_socks_recv_buf_used c > 0
      then let c = c\<lparr>tc_socks_recv_waiting := False\<rparr>;
               (c, r) = client_socks_recv_send_out lw c in
        if r < 0 then callback_result c
        else if tc_socks_recv_buf_used c = -1 \<and> \<not> tc_socks_closed c
        then callback_result (sync (client_socks_recv_initiate c))
        else callback_result c
      else if tc_socks_closed c \<and> tc_socks_recv_tcp_pending c = 0
      then callback_result (client_free_client lw c)
      else callback_result c)"

text \<open>
  \<^verbatim>\<open>listener_accept_func\<close>: \<open>fresh\<close> gives the uninitialised memory, \<open>socks_ok\<close> the result of
  \<^verbatim>\<open>BSocksClient_Init\<close>, \<open>name_ok\<close> that of building the user name.
\<close>

definition client_init :: "tcp_client \<Rightarrow> tcp_client" where
  "client_init c =
     c\<lparr>tc_aborted := False, tc_dead_aborted := DEAD_NULL, tc_client_closed := False,
       tc_cb_err := True, tc_cb_recv := True, tc_cb_sent := False,
       tc_buf_used := 0, tc_socks_up := False, tc_socks_closed := False\<rparr>"

definition listener_accept_func ::
    "tcp_client option \<Rightarrow> bool \<Rightarrow> bool \<Rightarrow> (tcp_client \<Rightarrow> tcp_client) \<Rightarrow> tcp_client option \<times> err_t" where
  "listener_accept_func fresh name_ok socks_ok sync =
     (case fresh of
        None \<Rightarrow> (None, ERR_MEM)
      | Some c \<Rightarrow>
          if \<not> name_ok \<or> \<not> socks_ok then (None, ERR_MEM)
          else let (c, r) = callback_result (sync (DEAD_ENTER (client_init c))) in (Some c, r))"

section \<open>Histories\<close>

text \<open>
  What a trace says about the data: the bytes lwIP handed over, the bytes the SOCKS
  connection took, the bytes it delivered, the bytes queued at lwIP, and the number of
  bytes confirmed to lwIP. \<^const>\<open>LwipGot\<close>, \<^const>\<open>SocksTook\<close> and \<^const>\<open>SocksGot\<close> are
  logged by the environment, not by the handlers.
\<close>

definition received :: "tc_act list \<Rightarrow> bytes" where
  "received tr = concat (map (\<lambda>a. case a of LwipGot x \<Rightarrow> x | _ \<Rightarrow> []) tr)"

definition took :: "tc_act list \<Rightarrow> bytes" where
  "took tr = concat (map (\<lambda>a. case a of SocksTook x \<Rightarrow> x | _ \<Rightarrow> []) tr)"

definition delivered :: "tc_act list \<Rightarrow> bytes" where
  "delivered tr = concat (map (\<lambda>a. case a of SocksGot x \<Rightarrow> x | _ \<Rightarrow> []) tr)"

definition written :: "tc_act list \<Rightarrow> bytes" where
  "written tr = concat (map (\<lambda>a. case a of TcpWrite x \<Rightarrow> x | _ \<Rightarrow> []) tr)"

definition acked :: "tc_act list \<Rightarrow> int" where
  "acked tr = sum_list (map (\<lambda>a. case a of TcpRecved n \<Rightarrow> n | _ \<Rightarrow> 0) tr)"

lemma received_simps [simp]:
  "received [] = []" "received (tr @ us) = received tr @ received us"
  "received (TcpClose e # tr) = received tr" "received (TcpAbort # tr) = received tr"
  "received (TcpWrite x # tr) = received tr" "received (TcpRecved n # tr) = received tr"
  "received (SocksFree # tr) = received tr" "received (SocksTook x # tr) = received tr"
  "received (FreeClient # tr) = received tr" "received (WildWrite # tr) = received tr"
  "received (LwipGot x # tr) = x @ received tr" "received (SocksGot x # tr) = received tr"
  by (simp_all add: received_def)

lemma took_simps [simp]:
  "took [] = []" "took (tr @ us) = took tr @ took us"
  "took (TcpClose e # tr) = took tr" "took (TcpAbort # tr) = took tr"
  "took (TcpWrite x # tr) = took tr" "took (TcpRecved n # tr) = took tr"
  "took (SocksFree # tr) = took tr" "took (SocksTook x # tr) = x @ took tr"
  "took (FreeClient # tr) = took tr" "took (WildWrite # tr) = took tr"
  "took (LwipGot x # tr) = took tr" "took (SocksGot x # tr) = took tr"
  by (simp_all add: took_def)

lemma delivered_simps [simp]:
  "delivered [] = []" "delivered (tr @ us) = delivered tr @ delivered us"
  "delivered (TcpClose e # tr) = delivered tr" "delivered (TcpAbort # tr) = delivered tr"
  "delivered (TcpWrite x # tr) = delivered tr" "delivered (TcpRecved n # tr) = delivered tr"
  "delivered (SocksFree # tr) = delivered tr" "delivered (SocksTook x # tr) = delivered tr"
  "delivered (FreeClient # tr) = delivered tr" "delivered (WildWrite # tr) = delivered tr"
  "delivered (LwipGot x # tr) = delivered tr" "delivered (SocksGot x # tr) = x @ delivered tr"
  by (simp_all add: delivered_def)

lemma written_simps [simp]:
  "written [] = []" "written (tr @ us) = written tr @ written us"
  "written (TcpClose e # tr) = written tr" "written (TcpAbort # tr) = written tr"
  "written (TcpWrite x # tr) = x @ written tr" "written (TcpRecved n # tr) = written tr"
  "written (SocksFree # tr) = written tr" "written (SocksTook x # tr) = written tr"
  "written (FreeClient # tr) = written tr" "written (WildWrite # tr) = written tr"
  "written (LwipGot x # tr) = written tr" "written (SocksGot x # tr) = written tr"
  by (simp_all add: written_def)

lemma acked_simps [simp]:
  "acked [] = 0" "acked (tr @ us) = acked tr + acked us"
  "acked (TcpClose e # tr) = acked tr" "acked (TcpAbort # tr) = acked tr"
  "acked (TcpWrite x # tr) = acked tr" "acked (TcpRecved n # tr) = n + acked tr"
  "acked (SocksFree # tr) = acked tr" "acked (SocksTook x # tr) = acked tr"
  "acked (FreeClient # tr) = acked tr" "acked (WildWrite # tr) = acked tr"
  "acked (LwipGot x # tr) = acked tr" "acked (SocksGot x # tr) = acked tr"
  by (simp_all add: acked_def)

section \<open>The invariant\<close>

definition tc_trace_ok :: "tcp_client \<Rightarrow> bool" where
  "tc_trace_ok c \<longleftrightarrow>
     WildWrite \<notin> set (tc_trace c) \<and>
     count_list (tc_trace c) TcpAbort = of_bool (tc_aborted c) \<and>
     count_list (tc_trace c) SocksFree = of_bool (tc_socks_closed c) \<and>
     count_list (tc_trace c) FreeClient = of_bool (tc_freed c) \<and>
     (tc_aborted c \<longrightarrow> tc_client_closed c) \<and>
     (tc_freed c \<longrightarrow> tc_client_closed c \<and> tc_socks_closed c \<and> last (tc_trace c) = FreeClient)"

definition tc_dead_ok :: "tcp_client \<Rightarrow> bool" where
  "tc_dead_ok c \<longleftrightarrow>
     (case tc_dead_aborted c of
        DEAD_NULL \<Rightarrow> True
      | DEAD_VAR v \<Rightarrow> v = (if tc_aborted c then 1 else if tc_freed c then -1 else 0)
      | DEAD_DANGLING \<Rightarrow> tc_aborted c \<or> tc_freed c)"

definition tc_send_ok :: "tcp_client \<Rightarrow> bool" where
  "tc_send_ok c \<longleftrightarrow>
     (let i = tc_socks_send_if c in
      si_wf i \<and> si_handler_done i \<and> (si_state i \<noteq> STATE_NONE \<longleftrightarrow> tc_buf_used c > 0) \<and>
      (si_state i \<noteq> STATE_NONE \<longrightarrow>
         si_job_operation_data i = 0 \<and> 0 < si_job_operation_len i \<and> si_job_operation_len i \<le> tc_buf_used c) \<and>
      (si_state i = STATE_DONE_PENDING \<longrightarrow> 0 < si_job_done_len i \<and> si_job_done_len i \<le> si_job_operation_len i))"

definition tc_recv_ok :: "tcp_client \<Rightarrow> bool" where
  "tc_recv_ok c \<longleftrightarrow>
     (let i = tc_socks_recv_if c in
      si_wf i \<and> si_handler_done i \<and>
      (si_state i \<noteq> STATE_NONE \<longrightarrow>
         si_job_operation_data i = 0 \<and> si_job_operation_len i = CLIENT_SOCKS_RECV_BUF_SIZE \<and>
         tc_socks_recv_buf_used c = -1) \<and>
      (si_state i = STATE_DONE_PENDING \<longrightarrow> 0 < si_job_done_len i \<and> si_job_done_len i \<le> si_job_operation_len i) \<and>
      (\<not> tc_client_closed c \<and> tc_socks_recv_buf_used c = -1 \<longrightarrow> si_state i \<noteq> STATE_NONE))"

definition tc_queue_ok :: "tcp_client \<Rightarrow> bool" where
  "tc_queue_ok c \<longleftrightarrow>
     0 \<le> tc_socks_recv_tcp_pending c \<and>
     (tc_socks_recv_buf_used c = -1 \<or>
      0 < tc_socks_recv_buf_used c \<and> tc_socks_recv_buf_used c \<le> CLIENT_SOCKS_RECV_BUF_SIZE \<and>
      0 \<le> tc_socks_recv_buf_sent c \<and> tc_socks_recv_buf_sent c < tc_socks_recv_buf_used c \<and>
      tc_socks_recv_waiting c \<and> tc_socks_recv_tcp_pending c > 0)"

definition tc_client_ok :: "tcp_client \<Rightarrow> bool" where
  "tc_client_ok c \<longleftrightarrow>
     (if tc_client_closed c then tc_buf_used c > 0 \<and> \<not> tc_cb_err c \<and> \<not> tc_cb_recv c \<and> \<not> tc_cb_sent c
      else tc_cb_err c \<and> (tc_cb_recv c \<longleftrightarrow> \<not> tc_socks_closed c) \<and> (tc_cb_sent c \<longleftrightarrow> tc_socks_up c) \<and>
           (tc_socks_up c \<longrightarrow> tc_queue_ok c))"

definition tc_jobs_off :: "tcp_client \<Rightarrow> bool" where
  "tc_jobs_off c \<longleftrightarrow>
     \<not> si_job_operation (tc_socks_send_if c) \<and> \<not> si_job_done (tc_socks_send_if c) \<and>
     \<not> si_job_operation (tc_socks_recv_if c) \<and> \<not> si_job_done (tc_socks_recv_if c)"

definition tc_socks_ok :: "tcp_client \<Rightarrow> bool" where
  "tc_socks_ok c \<longleftrightarrow>
     (if tc_socks_closed c
      then tc_socks_up c \<and> \<not> tc_client_closed c \<and> tc_jobs_off c \<and>
           (tc_socks_recv_buf_used c > 0 \<or> tc_socks_recv_tcp_pending c > 0)
      else if tc_socks_up c then tc_send_ok c \<and> tc_recv_ok c else tc_jobs_off c)"

definition tc_bufs_ok :: "tcp_client \<Rightarrow> bool" where
  "tc_bufs_ok c \<longleftrightarrow>
     0 \<le> tc_buf_used c \<and> tc_buf_used c \<le> int (length (tc_buf c)) \<and>
     int (length (tc_socks_recv_buf c)) = CLIENT_SOCKS_RECV_BUF_SIZE"

definition tc_inv :: "tcp_client \<Rightarrow> bool" where
  "tc_inv c \<longleftrightarrow>
     tc_trace_ok c \<and> tc_dead_ok c \<and>
     (\<not> tc_freed c \<longrightarrow> tc_bufs_ok c \<and> tc_client_ok c \<and> tc_socks_ok c)"

lemmas tc_act_defs =
  tc_log_def DEAD_KILL_WITH_def client_dealloc_def client_abort_pcb_def tcp_remove_callbacks_def
  client_BSocksClient_Free_def StreamPassInterface_Free_def StreamRecvInterface_Free_def

lemmas tc_ok_defs =
  tc_trace_ok_def tc_dead_ok_def tc_bufs_ok_def tc_client_ok_def tc_socks_ok_def tc_jobs_off_def
  tc_queue_ok_def tc_send_ok_def tc_recv_ok_def

section \<open>Taking down preserves the invariant\<close>

lemma count_list_snoc [simp]: "count_list (xs @ [y]) x = count_list xs x + of_bool (x = y)"
  by simp

text \<open>A client both of whose ends are gone can be deallocated.\<close>

lemma client_dealloc_inv:
  assumes "tc_trace_ok c" "tc_dead_ok c" "\<not> tc_freed c" "tc_client_closed c" "tc_socks_closed c"
  shows "tc_inv (client_dealloc c)"
  using assms unfolding tc_inv_def tc_trace_ok_def tc_dead_ok_def client_dealloc_def
  by (auto simp: Let_def DEAD_KILL_WITH_def tc_log_def split: dead_t.splits if_splits)

lemma client_free_socks_closed:
  "tc_client_closed c \<Longrightarrow>
     client_free_socks lw c = client_dealloc ((client_BSocksClient_Free c)\<lparr>tc_socks_closed := True\<rparr>)"
  by (simp add: client_free_socks.simps Let_def client_BSocksClient_Free_def tc_log_def)

lemma client_BSocksClient_Free_ok:
  assumes "tc_trace_ok c" "tc_dead_ok c" "\<not> tc_freed c" "\<not> tc_socks_closed c"
  shows "tc_trace_ok ((client_BSocksClient_Free c)\<lparr>tc_socks_closed := True\<rparr>)"
    and "tc_dead_ok ((client_BSocksClient_Free c)\<lparr>tc_socks_closed := True\<rparr>)"
  using assms by (auto simp: tc_trace_ok_def tc_dead_ok_def client_BSocksClient_Free_def tc_log_def
      split: dead_t.splits)

lemma client_BSocksClient_Free_fields [simp]:
  "tc_freed (client_BSocksClient_Free c) = tc_freed c"
  "tc_client_closed (client_BSocksClient_Free c) = tc_client_closed c"
  "tc_socks_up (client_BSocksClient_Free c) = tc_socks_up c"
  by (simp_all add: client_BSocksClient_Free_def tc_log_def)

lemma client_handle_freed_client_inv:
  assumes "tc_trace_ok c" "tc_dead_ok c" "\<not> tc_freed c" "tc_bufs_ok c"
    and "\<not> tc_cb_err c" "\<not> tc_cb_recv c" "\<not> tc_cb_sent c"
    and "\<not> tc_socks_closed c \<Longrightarrow> tc_socks_ok c"
  shows "tc_inv (client_handle_freed_client lw c)"
proof -
  let ?c = "c\<lparr>tc_client_closed := True\<rparr>"
  have t: "tc_trace_ok ?c" "tc_dead_ok ?c" "\<not> tc_freed ?c"
    using assms(1-3) by (auto simp: tc_trace_ok_def tc_dead_ok_def split: dead_t.splits)
  consider "tc_socks_closed c" | "\<not> tc_socks_closed c" "tc_buf_used c > 0"
    | "\<not> tc_socks_closed c" "\<not> tc_buf_used c > 0" by blast
  then show ?thesis
  proof cases
    case 1
    then show ?thesis
      using client_dealloc_inv [OF t] by (simp add: client_handle_freed_client.simps)
  next
    case 2
    then have "tc_inv ?c" using assms t
      by (auto simp: tc_inv_def tc_bufs_ok_def tc_client_ok_def tc_socks_ok_def tc_jobs_off_def
          tc_send_ok_def tc_recv_ok_def Let_def split: if_splits)
    with 2 show ?thesis by (simp add: client_handle_freed_client.simps)
  next
    case 3
    have "tc_inv (client_free_socks lw ?c)"
      using client_BSocksClient_Free_ok [of ?c, OF t] 3 t
      by (simp add: client_free_socks_closed client_dealloc_inv)
    with 3 show ?thesis by (simp add: client_handle_freed_client.simps)
  qed
qed

lemma client_abort_pcb_ok:
  assumes "tc_trace_ok c" "tc_dead_ok c" "\<not> tc_freed c" "\<not> tc_aborted c"
  shows "tc_dead_ok (client_abort_pcb c)"
    and "tc_trace_ok ((client_abort_pcb c)\<lparr>tc_client_closed := True\<rparr>)"
  using assms by (auto simp: tc_trace_ok_def tc_dead_ok_def client_abort_pcb_def DEAD_KILL_WITH_def tc_log_def
      split: dead_t.splits)

lemma client_handle_freed_client_cong:
  "client_handle_freed_client lw (c\<lparr>tc_client_closed := True\<rparr>) = client_handle_freed_client lw c"
  by (simp add: client_handle_freed_client.simps)

lemma client_abort_pcb_handle:
  assumes "tc_trace_ok c" "tc_dead_ok c" "\<not> tc_freed c" "\<not> tc_aborted c" "tc_bufs_ok c"
    and "\<not> tc_cb_err c" "\<not> tc_cb_recv c" "\<not> tc_cb_sent c"
    and s: "\<not> tc_socks_closed c \<Longrightarrow> tc_socks_ok c"
  shows "tc_inv (client_handle_freed_client lw (client_abort_pcb c))"
proof -
  let ?c = "(client_abort_pcb c)\<lparr>tc_client_closed := True\<rparr>"
  have d: "tc_dead_ok ?c" using client_abort_pcb_ok(1) [OF assms(1-4)]
    by (auto simp: tc_dead_ok_def split: dead_t.splits)
  have "tc_inv (client_handle_freed_client lw ?c)"
    by (rule client_handle_freed_client_inv [OF client_abort_pcb_ok(2) [OF assms(1-4)] d])
      (use assms in \<open>auto simp: client_abort_pcb_def DEAD_KILL_WITH_def tc_log_def tc_bufs_ok_def
         tc_socks_ok_def tc_jobs_off_def tc_send_ok_def tc_recv_ok_def Let_def
         split: dead_t.splits if_splits\<close>)
  then show ?thesis by (simp add: client_handle_freed_client_cong)
qed

text \<open>What a client needs before the function that takes down its lwIP end.\<close>

definition tc_closable :: "tcp_client \<Rightarrow> bool" where
  "tc_closable c \<longleftrightarrow>
     tc_trace_ok c \<and> tc_dead_ok c \<and> \<not> tc_freed c \<and> \<not> tc_client_closed c \<and> tc_bufs_ok c \<and>
     (\<not> tc_socks_closed c \<longrightarrow> tc_socks_ok c)"

lemma tc_closable_remove:
  assumes "tc_closable c"
  defines "c' \<equiv> tcp_remove_callbacks c"
  shows "tc_trace_ok c'" "tc_dead_ok c'" "\<not> tc_freed c'" "\<not> tc_aborted c'" "tc_bufs_ok c'"
    "\<not> tc_cb_err c'" "\<not> tc_cb_recv c'" "\<not> tc_cb_sent c'" "\<not> tc_socks_closed c' \<Longrightarrow> tc_socks_ok c'"
  using assms by (auto simp: tc_closable_def tcp_remove_callbacks_def tc_trace_ok_def tc_dead_ok_def tc_bufs_ok_def
      tc_socks_ok_def tc_jobs_off_def tc_send_ok_def tc_recv_ok_def Let_def split: dead_t.splits if_splits)

lemma tc_closable_log:
  fixes e
  assumes "tc_trace_ok c" "tc_dead_ok c" "\<not> tc_freed c" "tc_bufs_ok c"
    "\<not> tc_socks_closed c \<Longrightarrow> tc_socks_ok c"
  defines "c' \<equiv> tc_log (TcpClose e) c"
  shows "tc_trace_ok c'" "tc_dead_ok c'" "\<not> tc_freed c'" "tc_bufs_ok c'"
    "\<not> tc_socks_closed c' \<Longrightarrow> tc_socks_ok c'"
  using assms by (auto simp: tc_log_def tc_trace_ok_def tc_dead_ok_def tc_bufs_ok_def
      tc_socks_ok_def tc_jobs_off_def tc_send_ok_def tc_recv_ok_def Let_def split: dead_t.splits if_splits)

lemma tc_log_more_fields [simp]:
  "tc_aborted (tc_log a c) = tc_aborted c" "tc_cb_err (tc_log a c) = tc_cb_err c"
  "tc_cb_recv (tc_log a c) = tc_cb_recv c" "tc_cb_sent (tc_log a c) = tc_cb_sent c"
  "tc_freed (tc_log a c) = tc_freed c"
  by (simp_all add: tc_log_def)

lemma client_free_client_inv:
  assumes "tc_closable c"
  shows "tc_inv (client_free_client lw c)"
proof -
  note r = tc_closable_remove [OF assms]
  note l = tc_closable_log [OF r(1,2,3,5,9), of "lw_close lw"]
  show ?thesis
    using client_handle_freed_client_inv [OF l(1-4) _ _ _ l(5), of lw] r
      client_abort_pcb_handle [OF l(1-3) _ l(4) _ _ _ l(5), of lw]
    by (cases "lw_close lw = ERR_OK") (simp_all add: client_free_client.simps Let_def)
qed

lemma client_abort_client_inv:
  assumes "tc_closable c"
  shows "tc_inv (client_abort_client lw c)"
  using client_abort_pcb_handle [OF tc_closable_remove [OF assms]]
  by (simp add: client_abort_client_def Let_def)

text \<open>What a client needs before the function that takes down its SOCKS end.\<close>

definition tc_socks_closable :: "tcp_client \<Rightarrow> bool" where
  "tc_socks_closable c \<longleftrightarrow>
     tc_trace_ok c \<and> tc_dead_ok c \<and> \<not> tc_freed c \<and> \<not> tc_socks_closed c \<and> tc_bufs_ok c \<and>
     (\<not> tc_client_closed c \<longrightarrow> tc_client_ok c)"

lemma client_free_socks_inv:
  assumes c: "tc_socks_closable c"
  shows "tc_inv (client_free_socks lw c)"
proof (cases "tc_client_closed c")
  case True
  then show ?thesis
    using client_BSocksClient_Free_ok [of c] c
    by (simp add: client_free_socks_closed client_dealloc_inv tc_socks_closable_def)
next
  case False
  let ?r = "if tc_socks_up c then c\<lparr>tc_cb_recv := False\<rparr> else c"
  let ?c = "(client_BSocksClient_Free ?r)\<lparr>tc_socks_closed := True\<rparr>"
  have r: "tc_trace_ok ?r" "tc_dead_ok ?r" "\<not> tc_freed ?r" "\<not> tc_socks_closed ?r"
    using c by (auto simp: tc_socks_closable_def tc_trace_ok_def tc_dead_ok_def split: dead_t.splits)
  note f = client_BSocksClient_Free_ok [OF r]
  have cl: "tc_closable ?c" using c False f r
    by (auto simp: tc_closable_def tc_socks_closable_def tc_bufs_ok_def client_BSocksClient_Free_def tc_log_def)
  have st: "tc_inv ?c"
    if "tc_socks_up c" "tc_socks_recv_buf_used c \<ge> 0 \<or> tc_socks_recv_tcp_pending c > 0"
    using c False f r that
    by (auto simp: tc_inv_def tc_socks_closable_def tc_bufs_ok_def tc_client_ok_def tc_socks_ok_def tc_jobs_off_def
        tc_queue_ok_def client_BSocksClient_Free_def tc_log_def StreamPassInterface_Free_def
        StreamRecvInterface_Free_def)
  have eq: "client_free_socks lw c =
      (if tc_socks_up c \<and> (tc_socks_recv_buf_used c \<ge> 0 \<or> tc_socks_recv_tcp_pending c > 0) then ?c
       else client_free_client lw ?c)"
    using False by (simp add: client_free_socks.simps Let_def client_BSocksClient_Free_def tc_log_def)
  show ?thesis using st client_free_client_inv [OF cl, of lw] by (simp add: eq)
qed

lemma tc_inv_closable:
  "tc_inv c \<Longrightarrow> \<not> tc_freed c \<Longrightarrow> \<not> tc_client_closed c \<Longrightarrow> tc_closable c"
  by (simp add: tc_inv_def tc_closable_def)

lemma tc_inv_socks_closable:
  "tc_inv c \<Longrightarrow> \<not> tc_freed c \<Longrightarrow> \<not> tc_socks_closed c \<Longrightarrow> tc_socks_closable c"
  by (simp add: tc_inv_def tc_socks_closable_def)

lemma client_murder_inv:
  assumes "tc_inv c" "\<not> tc_freed c"
  shows "tc_inv (client_murder c) \<and> tc_freed (client_murder c)"
proof -
  let ?c = "if \<not> tc_client_closed c
            then (client_abort_pcb (tcp_remove_callbacks c))\<lparr>tc_client_closed := True\<rparr> else c"
  have c1: "tc_trace_ok ?c" "tc_dead_ok ?c" "\<not> tc_freed ?c" "tc_client_closed ?c"
    using assms client_abort_pcb_ok [OF tc_closable_remove(1-4) [OF tc_inv_closable [OF assms]]]
    by (auto simp: tc_inv_def client_abort_pcb_def tcp_remove_callbacks_def tc_log_def DEAD_KILL_WITH_def
        tc_dead_ok_def split: dead_t.splits)
  let ?d = "if \<not> tc_socks_closed ?c then (client_BSocksClient_Free ?c)\<lparr>tc_socks_closed := True\<rparr> else ?c"
  have "tc_trace_ok ?d" "tc_dead_ok ?d" "\<not> tc_freed ?d" "tc_client_closed ?d" "tc_socks_closed ?d"
    using c1 client_BSocksClient_Free_ok [OF c1(1-3)] by (auto simp del: if_split split: if_split_asm)
  from client_dealloc_inv [OF this] show ?thesis
    by (simp add: client_murder_def Let_def client_dealloc_def tc_log_def)
qed

end
