(* ===== verification/TcpForward.thy ===== *)
theory TcpForward
  imports TcpClient "HOL-Library.Sublist"
begin

text \<open>
  The forwarding of a TCP client (\<^verbatim>\<open>tun2socks/tun2socks.c\<close>): every handler keeps the
  invariant of \<^verbatim>\<open>TcpClient\<close>, and the bytes reach the other side unchanged and in order.
\<close>

section \<open>Queuing data at lwIP\<close>

definition tc_queued :: "tcp_client \<Rightarrow> int \<Rightarrow> tc_act list \<Rightarrow> tcp_client" where
  "tc_queued c n ws = c\<lparr>tc_trace := tc_trace c @ ws, tc_socks_recv_buf_sent := tc_socks_recv_buf_sent c + n,
     tc_socks_recv_tcp_pending := tc_socks_recv_tcp_pending c + n\<rparr>"

definition tc_writes :: "tcp_client \<Rightarrow> int \<Rightarrow> tc_act list \<Rightarrow> bool" where
  "tc_writes c n ws \<longleftrightarrow>
     0 \<le> n \<and> tc_socks_recv_buf_sent c + n \<le> tc_socks_recv_buf_used c \<and>
     (\<forall>a\<in>set ws. \<exists>x. a = TcpWrite x) \<and>
     written ws = mem_read (nat (tc_socks_recv_buf_sent c)) (nat n) (tc_socks_recv_buf c)"

lemma tc_writes_step:
  assumes n: "0 < n" "tc_socks_recv_buf_sent c + n \<le> tc_socks_recv_buf_used c" "0 \<le> tc_socks_recv_buf_sent c"
    and w: "tc_writes (tc_queued c n [TcpWrite (mem_read (nat (tc_socks_recv_buf_sent c)) (nat n) (tc_socks_recv_buf c))]) m ws"
  shows "tc_writes c (n + m) (TcpWrite (mem_read (nat (tc_socks_recv_buf_sent c)) (nat n) (tc_socks_recv_buf c)) # ws)"
  using w n mem_read_append [of "nat (tc_socks_recv_buf_sent c)" "nat n" "nat m" "tc_socks_recv_buf c"]
  by (auto simp: tc_writes_def tc_queued_def nat_add_distrib)

lemma client_send_out_loop_cases:
  assumes "0 \<le> tc_socks_recv_buf_sent c" "tc_socks_recv_buf_sent c < tc_socks_recv_buf_used c"
  shows "\<exists>n ws. tc_writes c n ws \<and>
     (client_send_out_loop lw c = Inr (tc_queued c n ws) \<or>
      client_send_out_loop lw c = Inl (client_abort_client lw (tc_queued c n ws)))"
  using assms
proof (induction lw c rule: client_send_out_loop.induct)
  case (1 lw c)
  let ?s = "tc_socks_recv_buf_sent c"
  let ?u = "tc_socks_recv_buf_used c"
  define n where "n = bmin_int (?u - ?s) (uint (lw_sndbuf lw ?s))"
  let ?w = "TcpWrite (mem_read (nat ?s) (nat n) (tc_socks_recv_buf c))"
  obtain b where b: "uint (lw_sndbuf lw ?s) = b" "0 \<le> b" by simp
  then have n0: "0 \<le> n" "?s + n \<le> ?u" using "1.prems" by (auto simp: n_def bmin_int_def b(1))
  have z: "tc_writes c 0 []" "tc_queued c 0 [] = c" using "1.prems"
    by (simp_all add: tc_writes_def tc_queued_def mem_read_def)
  show ?case
  proof (cases "n = 0 \<or> lw_write lw ?s \<noteq> ERR_OK")
    case True
    then have "client_send_out_loop lw c = Inr c \<or> client_send_out_loop lw c = Inl (client_abort_client lw c)"
      by (subst (1 2) client_send_out_loop.simps) (auto simp: Let_def n_def)
    with z show ?thesis by metis
  next
    case False
    let ?q = "tc_queued c n [?w]"
    have eq: "client_send_out_loop lw c = (if ?s + n < ?u then client_send_out_loop lw ?q else Inr ?q)"
      using False by (subst client_send_out_loop.simps) (simp add: Let_def n_def tc_queued_def tc_log_def)
    have q: "tc_socks_recv_buf_sent ?q = ?s + n" "tc_socks_recv_buf_used ?q = ?u"
      by (simp_all add: tc_queued_def)
    show ?thesis
    proof (cases "?s + n < ?u")
      case True
      have "\<exists>m ws. tc_writes ?q m ws \<and>
         (client_send_out_loop lw ?q = Inr (tc_queued ?q m ws) \<or>
          client_send_out_loop lw ?q = Inl (client_abort_client lw (tc_queued ?q m ws)))"
        using "1.IH" [OF refl n_def _ _ refl refl] False True n0 "1.prems"
        by (simp add: tc_queued_def tc_log_def)
      then obtain m ws where m: "tc_writes ?q m ws"
        "client_send_out_loop lw ?q = Inr (tc_queued ?q m ws) \<or>
         client_send_out_loop lw ?q = Inl (client_abort_client lw (tc_queued ?q m ws))" by blast
      have "tc_queued ?q m ws = tc_queued c (n + m) (?w # ws)" by (simp add: tc_queued_def)
      moreover have "tc_writes c (n + m) (?w # ws)"
        using tc_writes_step [OF _ n0(2) _ m(1)] False n0 "1.prems" by simp
      ultimately show ?thesis using m eq True by (metis (no_types))
    next
      case F: False
      have "tc_writes c n [?w]" using n0 by (simp add: tc_writes_def)
      with F eq show ?thesis by (auto intro!: exI [of _ n] exI [of _ "[?w]"])
    qed
  qed
qed

lemma tc_queued_fields [simp]:
  "tc_socks_closed (tc_queued c n ws) = tc_socks_closed c" "tc_socks_up (tc_queued c n ws) = tc_socks_up c"
  "tc_client_closed (tc_queued c n ws) = tc_client_closed c" "tc_freed (tc_queued c n ws) = tc_freed c"
  "tc_socks_recv_buf_used (tc_queued c n ws) = tc_socks_recv_buf_used c"
  "tc_socks_recv_buf_sent (tc_queued c n ws) = tc_socks_recv_buf_sent c + n"
  "tc_socks_recv_tcp_pending (tc_queued c n ws) = tc_socks_recv_tcp_pending c + n"
  "tc_trace (tc_queued c n ws) = tc_trace c @ ws" "tc_socks_recv_buf (tc_queued c n ws) = tc_socks_recv_buf c"
  "tc_socks_recv_if (tc_queued c n ws) = tc_socks_recv_if c"
  "tc_socks_send_if (tc_queued c n ws) = tc_socks_send_if c"
  "tc_buf (tc_queued c n ws) = tc_buf c" "tc_buf_used (tc_queued c n ws) = tc_buf_used c"
  "tc_aborted (tc_queued c n ws) = tc_aborted c" "tc_dead_aborted (tc_queued c n ws) = tc_dead_aborted c"
  "tc_cb_err (tc_queued c n ws) = tc_cb_err c" "tc_cb_recv (tc_queued c n ws) = tc_cb_recv c"
  "tc_cb_sent (tc_queued c n ws) = tc_cb_sent c"
  by (simp_all add: tc_queued_def)

lemma client_socks_recv_send_out_cases:
  assumes "0 \<le> tc_socks_recv_buf_sent c" "tc_socks_recv_buf_sent c < tc_socks_recv_buf_used c"
  obtains
    (abort) n ws where "tc_writes c n ws"
      "client_socks_recv_send_out lw c = (client_abort_client lw (tc_queued c n ws), -1)"
  | (waiting) n ws where "tc_writes c n ws" "tc_socks_recv_buf_sent c + n < tc_socks_recv_buf_used c"
      "tc_socks_recv_tcp_pending c + n \<noteq> 0"
      "client_socks_recv_send_out lw c = ((tc_queued c n ws)\<lparr>tc_socks_recv_waiting := True\<rparr>, 0)"
  | (all) n ws where "tc_writes c n ws" "tc_socks_recv_buf_sent c + n = tc_socks_recv_buf_used c"
      "client_socks_recv_send_out lw c = ((tc_queued c n ws)\<lparr>tc_socks_recv_buf_used := -1\<rparr>, 0)"
proof -
  obtain n ws where w: "tc_writes c n ws"
    and l: "client_send_out_loop lw c = Inr (tc_queued c n ws) \<or>
            client_send_out_loop lw c = Inl (client_abort_client lw (tc_queued c n ws))"
    using client_send_out_loop_cases [OF assms] by blast
  have le: "tc_socks_recv_buf_sent c + n \<le> tc_socks_recv_buf_used c" using w by (simp add: tc_writes_def)
  from l show thesis
  proof
    assume l: "client_send_out_loop lw c = Inl (client_abort_client lw (tc_queued c n ws))"
    show thesis by (rule abort [OF w]) (simp add: client_socks_recv_send_out_def l)
  next
    assume l: "client_send_out_loop lw c = Inr (tc_queued c n ws)"
    show thesis
    proof (cases "lw_output lw = ERR_OK")
      case False
      show thesis by (rule abort [OF w]) (simp add: client_socks_recv_send_out_def l False)
    next
      case out: True
      consider "tc_socks_recv_buf_sent c + n = tc_socks_recv_buf_used c"
        | "tc_socks_recv_buf_sent c + n < tc_socks_recv_buf_used c" "tc_socks_recv_tcp_pending c + n = 0"
        | "tc_socks_recv_buf_sent c + n < tc_socks_recv_buf_used c" "tc_socks_recv_tcp_pending c + n \<noteq> 0"
        using le by linarith
      then show thesis
      proof cases
        case 1
        then show thesis by (intro all [OF w]) (simp_all add: client_socks_recv_send_out_def l out)
      next
        case 2
        then show thesis by (intro abort [OF w]) (simp_all add: client_socks_recv_send_out_def l out)
      next
        case 3
        then show thesis by (intro waiting [OF w]) (simp_all add: client_socks_recv_send_out_def l out)
      qed
    qed
  qed
qed

lemma client_socks_recv_send_out_keeps:
  assumes "0 \<le> tc_socks_recv_buf_sent c" "tc_socks_recv_buf_sent c < tc_socks_recv_buf_used c"
    and r: "client_socks_recv_send_out lw c = (c', r)" "\<not> r < 0"
  shows "tc_socks_closed c' = tc_socks_closed c"
proof -
  consider n ws where "client_socks_recv_send_out lw c = (client_abort_client lw (tc_queued c n ws), -1)"
    | n ws where "client_socks_recv_send_out lw c = ((tc_queued c n ws)\<lparr>tc_socks_recv_waiting := True\<rparr>, 0)"
    | n ws where "client_socks_recv_send_out lw c = ((tc_queued c n ws)\<lparr>tc_socks_recv_buf_used := -1\<rparr>, 0)"
    by (rule client_socks_recv_send_out_cases [OF assms(1,2)])
  then show ?thesis by cases (use r in auto)
qed

lemma tc_writes_trace:
  assumes "tc_writes c n ws"
  shows "WildWrite \<notin> set ws" "count_list ws TcpAbort = 0" "count_list ws SocksFree = 0"
    "count_list ws FreeClient = 0" "took ws = []" "acked ws = 0" "received ws = []" "delivered ws = []"
proof -
  have "\<forall>a\<in>set ws. \<exists>x. a = TcpWrite x" using assms by (simp add: tc_writes_def)
  then show "WildWrite \<notin> set ws" "count_list ws TcpAbort = 0" "count_list ws SocksFree = 0"
    "count_list ws FreeClient = 0" "took ws = []" "acked ws = 0" "received ws = []" "delivered ws = []"
    by (induction ws) (auto simp: count_list_0_iff)
qed

text \<open>The state in which \<^verbatim>\<open>client_socks_recv_send_out\<close> is called.\<close>

definition tc_sendable :: "tcp_client \<Rightarrow> bool" where
  "tc_sendable c \<longleftrightarrow>
     tc_closable c \<and> tc_socks_up c \<and> tc_cb_err c \<and> (tc_cb_recv c \<longleftrightarrow> \<not> tc_socks_closed c) \<and> tc_cb_sent c \<and>
     0 \<le> tc_socks_recv_buf_sent c \<and> tc_socks_recv_buf_sent c < tc_socks_recv_buf_used c \<and>
     tc_socks_recv_buf_used c \<le> CLIENT_SOCKS_RECV_BUF_SIZE \<and> 0 \<le> tc_socks_recv_tcp_pending c \<and>
     (tc_socks_closed c \<longrightarrow> tc_jobs_off c) \<and>
     (\<not> tc_socks_closed c \<longrightarrow> si_state (tc_socks_recv_if c) = STATE_NONE)"

lemma tc_queued_trace_ok:
  "tc_trace_ok c \<Longrightarrow> \<not> tc_freed c \<Longrightarrow> tc_writes c n ws \<Longrightarrow> tc_trace_ok (tc_queued c n ws)"
  using tc_writes_trace [of c n ws] by (simp add: tc_trace_ok_def tc_queued_def)

lemma tc_queued_socks_ok:
  "\<not> tc_socks_closed c \<Longrightarrow> tc_socks_ok (tc_queued c n ws) = tc_socks_ok c"
  by (simp add: tc_socks_ok_def tc_jobs_off_def tc_send_ok_def tc_recv_ok_def)

lemma tc_queued_closable:
  assumes "tc_closable c" "tc_writes c n ws"
  shows "tc_closable (tc_queued c n ws)"
  using assms tc_queued_trace_ok [of c n ws] tc_queued_socks_ok [of c n ws]
  by (auto simp: tc_closable_def tc_dead_ok_def tc_bufs_ok_def split: dead_t.splits if_splits)

text \<open>Changes of fields the parts of the invariant do not look at.\<close>

lemma tc_ok_frame [simp]:
  "tc_trace_ok (c\<lparr>tc_socks_recv_waiting := b\<rparr>) = tc_trace_ok c"
  "tc_dead_ok (c\<lparr>tc_socks_recv_waiting := b\<rparr>) = tc_dead_ok c"
  "tc_bufs_ok (c\<lparr>tc_socks_recv_waiting := b\<rparr>) = tc_bufs_ok c"
  "tc_socks_ok (c\<lparr>tc_socks_recv_waiting := b\<rparr>) = tc_socks_ok c"
  "tc_send_ok (c\<lparr>tc_socks_recv_waiting := b\<rparr>) = tc_send_ok c"
  "tc_recv_ok (c\<lparr>tc_socks_recv_waiting := b\<rparr>) = tc_recv_ok c"
  "tc_jobs_off (c\<lparr>tc_socks_recv_waiting := b\<rparr>) = tc_jobs_off c"
  "tc_trace_ok (c\<lparr>tc_socks_recv_buf_used := n\<rparr>) = tc_trace_ok c"
  "tc_dead_ok (c\<lparr>tc_socks_recv_buf_used := n\<rparr>) = tc_dead_ok c"
  "tc_bufs_ok (c\<lparr>tc_socks_recv_buf_used := n\<rparr>) = tc_bufs_ok c"
  "tc_send_ok (c\<lparr>tc_socks_recv_buf_used := n\<rparr>) = tc_send_ok c"
  "tc_jobs_off (c\<lparr>tc_socks_recv_buf_used := n\<rparr>) = tc_jobs_off c"
  "tc_trace_ok (c\<lparr>tc_socks_recv_if := i\<rparr>) = tc_trace_ok c"
  "tc_dead_ok (c\<lparr>tc_socks_recv_if := i\<rparr>) = tc_dead_ok c"
  "tc_bufs_ok (c\<lparr>tc_socks_recv_if := i\<rparr>) = tc_bufs_ok c"
  "tc_send_ok (c\<lparr>tc_socks_recv_if := i\<rparr>) = tc_send_ok c"
  "tc_client_ok (c\<lparr>tc_socks_recv_if := i\<rparr>) = tc_client_ok c"
  "tc_trace_ok (c\<lparr>tc_socks_send_if := i\<rparr>) = tc_trace_ok c"
  "tc_dead_ok (c\<lparr>tc_socks_send_if := i\<rparr>) = tc_dead_ok c"
  "tc_bufs_ok (c\<lparr>tc_socks_send_if := i\<rparr>) = tc_bufs_ok c"
  "tc_recv_ok (c\<lparr>tc_socks_send_if := i\<rparr>) = tc_recv_ok c"
  "tc_client_ok (c\<lparr>tc_socks_send_if := i\<rparr>) = tc_client_ok c"
  "tc_send_ok (c\<lparr>tc_socks_recv_tcp_pending := n\<rparr>) = tc_send_ok c"
  "tc_recv_ok (c\<lparr>tc_socks_recv_tcp_pending := n\<rparr>) = tc_recv_ok c"
  "tc_send_ok (tc_queued c n ws) = tc_send_ok c" "tc_jobs_off (tc_queued c n ws) = tc_jobs_off c"
  by (simp_all add: tc_trace_ok_def tc_dead_ok_def tc_bufs_ok_def tc_socks_ok_def tc_send_ok_def tc_recv_ok_def
      tc_jobs_off_def tc_client_ok_def tc_queue_ok_def split: dead_t.splits)

lemma client_socks_recv_send_out_inv:
  assumes c: "tc_sendable c" and r: "client_socks_recv_send_out lw c = (c', r)"
  shows "r < 0 \<and> tc_inv c' \<or>
     r = 0 \<and> \<not> tc_freed c' \<and> tc_socks_recv_tcp_pending c' > 0 \<and>
       (if tc_socks_recv_buf_used c' = -1 \<and> \<not> tc_socks_closed c'
        then tc_inv (client_socks_recv_initiate c') else tc_inv c')"
proof -
  have "0 \<le> tc_socks_recv_buf_sent c" "tc_socks_recv_buf_sent c < tc_socks_recv_buf_used c"
    using c by (auto simp: tc_sendable_def)
  then show ?thesis
  proof (cases rule: client_socks_recv_send_out_cases [of c lw])
    case (abort n ws)
    have "tc_closable (tc_queued c n ws)" using c abort by (simp add: tc_sendable_def tc_queued_closable)
    then show ?thesis using abort(2) r client_abort_client_inv by auto
  next
    case (waiting n ws)
    have q: "tc_closable (tc_queued c n ws)" using c waiting by (simp add: tc_sendable_def tc_queued_closable)
    have n: "0 \<le> n" using waiting(1) by (simp add: tc_writes_def)
    have c': "c' = (tc_queued c n ws)\<lparr>tc_socks_recv_waiting := True\<rparr>" "r = 0" using r waiting by simp_all
    have p: "0 < tc_socks_recv_tcp_pending c + n" using c waiting(3) n by (simp add: tc_sendable_def)
    have "tc_client_ok c'" using c q waiting(2) n p
      by (simp add: c' tc_client_ok_def tc_queue_ok_def tc_sendable_def tc_closable_def)
    moreover have "tc_socks_ok c'" using c q p
      by (cases "tc_socks_closed c") (simp_all add: c' tc_socks_ok_def tc_sendable_def tc_closable_def)
    ultimately have "tc_inv c'" using q by (simp add: c' tc_inv_def tc_closable_def)
    then show ?thesis using c q p n waiting(2) by (simp add: c' tc_closable_def tc_sendable_def)
  next
    case (all n ws)
    have q: "tc_closable (tc_queued c n ws)" using c all by (simp add: tc_sendable_def tc_queued_closable)
    have n: "0 < n" using all(2) c by (simp add: tc_sendable_def)
    have c': "c' = (tc_queued c n ws)\<lparr>tc_socks_recv_buf_used := -1\<rparr>" "r = 0" using r all by simp_all
    have cl: "tc_client_ok c'" using c q n
      by (simp add: c' tc_client_ok_def tc_queue_ok_def tc_sendable_def tc_closable_def)
    have p: "0 < tc_socks_recv_tcp_pending c'" using c n by (simp add: c' tc_sendable_def)
    show ?thesis
    proof (cases "tc_socks_closed c")
      case True
      have "tc_socks_ok c'" using c q p True
        by (simp add: c' tc_socks_ok_def tc_sendable_def tc_closable_def)
      with cl have "tc_inv c'" using q by (simp add: c' tc_inv_def tc_closable_def)
      then show ?thesis using p q True by (simp add: c' tc_closable_def)
    next
      case False
      have "tc_recv_ok (client_socks_recv_initiate c')" using c q False
        by (simp add: c' client_socks_recv_initiate_def tc_recv_ok_def tc_sendable_def tc_closable_def
            tc_socks_ok_def StreamRecvInterface_Receiver_Recv_def si_wf_def Let_def)
      then have "tc_inv (client_socks_recv_initiate c')" using c q cl False
        by (simp add: c' tc_inv_def tc_closable_def client_socks_recv_initiate_def tc_socks_ok_def tc_sendable_def)
      then show ?thesis using p q False by (simp add: c' tc_closable_def)
    qed
  qed
qed

section \<open>Every handler keeps the invariant\<close>

lemma client_socks_recv_handler_done_inv:
  assumes c: "tc_inv c" "\<not> tc_freed c" "\<not> tc_socks_closed c" "tc_socks_up c"
    and d: "si_job_done (tc_socks_recv_if c)"
  shows "tc_inv (client_socks_recv_handler_done lw
           (c\<lparr>tc_socks_recv_if := StreamRecvInterface_job_done (tc_socks_recv_if c)\<rparr>)
           (si_job_done_len (tc_socks_recv_if c)))"
    (is "tc_inv (client_socks_recv_handler_done lw ?c ?n)")
proof -
  have i: "tc_recv_ok c" "tc_send_ok c" using c by (simp_all add: tc_inv_def tc_socks_ok_def)
  then have n: "0 < ?n" "?n \<le> CLIENT_SOCKS_RECV_BUF_SIZE" "tc_socks_recv_buf_used c = -1"
    using d by (auto simp: tc_recv_ok_def Let_def si_wf_def)
  show ?thesis
  proof (cases "tc_client_closed c")
    case True
    have "tc_recv_ok ?c" using i d True by (simp add: tc_recv_ok_def Let_def StreamRecvInterface_job_done_def si_wf_def)
    then have "tc_inv ?c" using c i True by (simp add: tc_inv_def tc_socks_ok_def)
    then show ?thesis using True by (simp add: client_socks_recv_handler_done_def)
  next
    case False
    let ?s = "?c\<lparr>tc_socks_recv_buf_used := ?n, tc_socks_recv_buf_sent := 0, tc_socks_recv_waiting := False\<rparr>"
    have "tc_recv_ok ?s" using i n d False
      by (simp add: tc_recv_ok_def Let_def StreamRecvInterface_job_done_def si_wf_def)
    moreover have "tc_send_ok ?s" "tc_trace_ok ?s" "tc_dead_ok ?s" "tc_bufs_ok ?s" using c i
      by (simp_all add: tc_inv_def tc_trace_ok_def tc_dead_ok_def tc_bufs_ok_def tc_send_ok_def split: dead_t.splits)
    ultimately have "tc_sendable ?s" using c n False
      by (simp add: tc_sendable_def tc_closable_def tc_socks_ok_def tc_inv_def tc_client_ok_def tc_queue_ok_def
          StreamRecvInterface_job_done_def)
    moreover obtain c' r where r: "client_socks_recv_send_out lw ?s = (c', r)" by fastforce
    ultimately have *: "r < 0 \<and> tc_inv c' \<or> r = 0 \<and> \<not> tc_freed c' \<and> tc_socks_recv_tcp_pending c' > 0 \<and>
       (if tc_socks_recv_buf_used c' = -1 \<and> \<not> tc_socks_closed c'
        then tc_inv (client_socks_recv_initiate c') else tc_inv c')"
      by (rule client_socks_recv_send_out_inv)
    have "\<not> tc_socks_closed c'" if "\<not> r < 0"
      using client_socks_recv_send_out_keeps [OF _ _ r that] c n by simp
    then show ?thesis using * False r by (auto simp: client_socks_recv_handler_done_def Let_def)
  qed
qed

lemma client_socks_send_handler_done_inv:
  assumes c: "tc_inv c" "\<not> tc_freed c" "\<not> tc_socks_closed c" "tc_socks_up c"
    and d: "si_job_done (tc_socks_send_if c)"
  shows "tc_inv (client_socks_send_handler_done lw
           (c\<lparr>tc_socks_send_if := StreamPassInterface_job_done (tc_socks_send_if c)\<rparr>)
           (si_job_done_len (tc_socks_send_if c)))"
    (is "tc_inv (client_socks_send_handler_done lw ?c ?n)")
proof -
  have i: "tc_send_ok c" "tc_recv_ok c" "tc_bufs_ok c" "tc_trace_ok c" "tc_dead_ok c" "tc_client_ok c"
    using c by (simp_all add: tc_inv_def tc_socks_ok_def)
  then have n: "0 < ?n" "?n \<le> tc_buf_used c" using d by (auto simp: tc_send_ok_def Let_def si_wf_def)
  define m where "m = ?c\<lparr>tc_buf := mem_write 0 (mem_read (nat ?n) (nat (tc_buf_used c - ?n)) (tc_buf c)) (tc_buf c),
                tc_buf_used := tc_buf_used c - ?n\<rparr>"
  define l where "l = (if \<not> tc_client_closed c then tc_log (TcpRecved ?n) m else m)"
  have h: "client_socks_send_handler_done lw ?c ?n =
     (if tc_buf_used l > 0
      then l\<lparr>tc_socks_send_if := StreamPassInterface_Sender_Send (tc_socks_send_if l) 0 (tc_buf_used l)\<rparr>
      else if tc_client_closed l then client_free_socks lw l else l)"
    by (simp add: client_socks_send_handler_done_def Let_def l_def m_def)
  have f: "tc_buf_used l = tc_buf_used c - ?n" "tc_client_closed l = tc_client_closed c" "tc_freed l = tc_freed c"
    "tc_socks_closed l = tc_socks_closed c" "tc_socks_up l = tc_socks_up c"
    "tc_socks_send_if l = StreamPassInterface_job_done (tc_socks_send_if c)"
    by (simp_all add: l_def m_def tc_log_def)
  have "length (tc_buf l) = length (tc_buf c)" using n i(3)
    by (simp add: l_def m_def tc_log_def tc_bufs_ok_def mem_write_def mem_read_def)
  then have o: "tc_trace_ok l" "tc_dead_ok l" "tc_bufs_ok l" "tc_recv_ok l" using c(2) n i
    by (auto simp: l_def m_def tc_log_def tc_trace_ok_def tc_dead_ok_def tc_bufs_ok_def tc_recv_ok_def Let_def
        split: dead_t.splits)
  have cl: "tc_client_ok l" if "tc_buf_used l > 0 \<or> \<not> tc_client_closed c" using i(6) that
    by (auto simp: l_def m_def tc_log_def tc_client_ok_def tc_queue_ok_def split: if_splits)
  have "tc_inv (l\<lparr>tc_socks_send_if := StreamPassInterface_Sender_Send (tc_socks_send_if l) 0 (tc_buf_used l)\<rparr>)"
    if "tc_buf_used l > 0"
    using o cl that c f d i(1)
    by (simp add: tc_inv_def tc_socks_ok_def tc_send_ok_def Let_def StreamPassInterface_Sender_Send_def
        StreamPassInterface_job_done_def si_wf_def)
  moreover have "tc_inv (client_free_socks lw l)" if "tc_client_closed l"
    using o c f that by (intro client_free_socks_inv) (simp add: tc_socks_closable_def)
  moreover have "tc_inv l" if "\<not> tc_buf_used l > 0" "\<not> tc_client_closed l"
    using o cl that c f d i(1)
    by (simp add: tc_inv_def tc_socks_ok_def tc_send_ok_def Let_def StreamPassInterface_job_done_def si_wf_def)
  ultimately show ?thesis by (simp add: h)
qed

lemma client_socks_handler_inv:
  assumes c: "tc_inv c" "\<not> tc_freed c" "\<not> tc_socks_closed c"
    and e: "event = BSOCKSCLIENT_EVENT_UP \<longleftrightarrow> \<not> tc_socks_up c \<and> event \<noteq> BSOCKSCLIENT_EVENT_ERROR"
  shows "tc_inv (client_socks_handler lw c event)"
proof (cases "event = BSOCKSCLIENT_EVENT_UP")
  case True
  with e have u: "\<not> tc_socks_up c" by simp
  have "tc_trace_ok c" "tc_dead_ok c" "tc_bufs_ok c" "tc_client_ok c" using c by (simp_all add: tc_inv_def)
  then show ?thesis using True u c(2,3)
    by (auto simp: client_socks_handler_def Let_def tc_inv_def tc_client_ok_def tc_queue_ok_def tc_socks_ok_def
        tc_send_ok_def tc_recv_ok_def client_send_to_socks_def client_socks_recv_initiate_def spi_defs sri_defs
        si_wf_def tc_trace_ok_def tc_dead_ok_def tc_bufs_ok_def split: dead_t.splits)
next
  case False
  have "tc_inv (client_free_socks lw c)"
    using c by (intro client_free_socks_inv tc_inv_socks_closable)
  with False show ?thesis by (cases event) (simp_all add: client_socks_handler_def)
qed

section \<open>Callbacks\<close>

lemma tc_dead_frame [simp]:
  "tc_trace_ok (c\<lparr>tc_dead_aborted := d\<rparr>) = tc_trace_ok c"
  "tc_bufs_ok (c\<lparr>tc_dead_aborted := d\<rparr>) = tc_bufs_ok c"
  "tc_client_ok (c\<lparr>tc_dead_aborted := d\<rparr>) = tc_client_ok c"
  "tc_socks_ok (c\<lparr>tc_dead_aborted := d\<rparr>) = tc_socks_ok c"
  by (simp_all add: tc_trace_ok_def tc_bufs_ok_def tc_client_ok_def tc_queue_ok_def tc_socks_ok_def tc_jobs_off_def
      tc_send_ok_def tc_recv_ok_def)

lemma DEAD_ENTER_inv: "tc_inv c \<Longrightarrow> \<not> tc_freed c \<Longrightarrow> \<not> tc_client_closed c \<Longrightarrow> tc_inv (DEAD_ENTER c)"
  unfolding tc_inv_def DEAD_ENTER_def by (auto simp: tc_dead_ok_def) (simp add: tc_trace_ok_def)

lemma DEAD_LEAVE2_inv: "tc_inv c \<Longrightarrow> tc_inv (DEAD_LEAVE2 c)"
  unfolding tc_inv_def DEAD_LEAVE2_def DEAD_KILLED_def
  by (auto simp: tc_dead_ok_def split: if_splits dead_t.splits)

definition tc_in_callback :: "tcp_client \<Rightarrow> bool" where
  "tc_in_callback c \<longleftrightarrow> (case tc_dead_aborted c of DEAD_VAR _ \<Rightarrow> True | _ \<Rightarrow> False)"

lemma callback_result_inv:
  assumes "tc_inv c" "tc_in_callback c"
  shows "tc_inv (fst (callback_result c))"
    and "snd (callback_result c) = (if tc_aborted (fst (callback_result c)) then ERR_ABRT else ERR_OK)"
  using DEAD_LEAVE2_inv [OF assms(1)] assms
  by (auto simp: callback_result_def tc_inv_def tc_dead_ok_def tc_in_callback_def DEAD_KILLED_def DEAD_LEAVE2_def
      split: dead_t.splits if_splits)

text \<open>The part of \<^verbatim>\<open>client_recv_func\<close> before \<^verbatim>\<open>SYNC_COMMIT\<close>: storing the data.\<close>

definition client_store :: "tcp_client \<Rightarrow> bytes \<Rightarrow> tcp_client" where
  "client_store c x =
     (let c = c\<lparr>tc_buf := mem_write (nat (tc_buf_used c)) x (tc_buf c),
               tc_buf_used := tc_buf_used c + int (length x)\<rparr>
      in if tc_buf_used c = int (length x) \<and> tc_socks_up c then client_send_to_socks c else c)"

lemma client_store_inv:
  assumes c: "tc_inv c" "\<not> tc_freed c" "\<not> tc_client_closed c" "\<not> tc_socks_closed c"
    and x: "x \<noteq> []" "int (length x) \<le> int (length (tc_buf c)) - tc_buf_used c"
  shows "tc_inv (client_store c x)"
proof -
  have p: "0 < length x" using x by simp
  have b: "length (mem_write (nat (tc_buf_used c)) x (tc_buf c)) = length (tc_buf c)"
    by (rule length_mem_write) (use c x in \<open>auto simp: tc_inv_def tc_bufs_ok_def\<close>)
  have i: "tc_trace_ok c" "tc_dead_ok c" "tc_bufs_ok c" "tc_client_ok c" "tc_socks_ok c"
    using c by (simp_all add: tc_inv_def)
  let ?c = "c\<lparr>tc_buf := mem_write (nat (tc_buf_used c)) x (tc_buf c),
             tc_buf_used := tc_buf_used c + int (length x)\<rparr>"
  have o: "tc_trace_ok ?c" "tc_dead_ok ?c" "tc_client_ok ?c"
    using i c(3) by (simp_all add: tc_trace_ok_def tc_dead_ok_def tc_client_ok_def tc_queue_ok_def split: dead_t.splits)
  have bo: "tc_bufs_ok ?c" using i(3) x b unfolding tc_bufs_ok_def by simp
  have j: "tc_jobs_off ?c = tc_jobs_off c" "tc_recv_ok ?c = tc_recv_ok c"
    by (simp_all add: tc_jobs_off_def tc_recv_ok_def)
  show ?thesis
  proof (cases "tc_socks_up c")
    case False
    then have "client_store c x = ?c" by (simp add: client_store_def)
    moreover have "tc_socks_ok ?c" using i(5) c j False by (simp add: tc_socks_ok_def)
    ultimately show ?thesis using o bo by (simp add: tc_inv_def)
  next
    case True
    have r: "tc_send_ok c" "tc_recv_ok c" using i(5) True c by (simp_all add: tc_socks_ok_def)
    show ?thesis
    proof (cases "tc_buf_used c = 0")
      case z: True
      have "client_store c x = client_send_to_socks ?c" using z True by (simp add: client_store_def)
      moreover have "tc_send_ok (client_send_to_socks ?c)" using r(1) z p
        by (simp add: tc_send_ok_def Let_def client_send_to_socks_def StreamPassInterface_Sender_Send_def si_wf_def)
      ultimately show ?thesis using o bo j r True c
        by (simp add: tc_inv_def tc_socks_ok_def client_send_to_socks_def)
    next
      case nz: False
      have "client_store c x = ?c" using nz by (simp add: client_store_def)
      moreover have "0 < tc_buf_used c" using nz i(3) by (simp add: tc_bufs_ok_def)
      then have "tc_send_ok ?c" using r(1) by (auto simp: tc_send_ok_def Let_def)
      ultimately show ?thesis using o bo j r True c by (simp add: tc_inv_def tc_socks_ok_def)
    qed
  qed
qed

section \<open>The data in transit\<close>

definition tc_inflight :: "tcp_client \<Rightarrow> int" where
  "tc_inflight c =
     (if tc_socks_up c \<and> si_state (tc_socks_send_if c) = STATE_DONE_PENDING
      then si_job_done_len (tc_socks_send_if c) else 0)"

definition tc_unsent :: "tcp_client \<Rightarrow> bytes" where
  "tc_unsent c =
     (if tc_socks_recv_buf_used c > 0
      then drop (nat (tc_socks_recv_buf_sent c)) (take (nat (tc_socks_recv_buf_used c)) (tc_socks_recv_buf c))
      else [])"

definition tc_arrived :: "tcp_client \<Rightarrow> bytes" where
  "tc_arrived c =
     (if si_state (tc_socks_recv_if c) = STATE_DONE_PENDING
      then take (nat (si_job_done_len (tc_socks_recv_if c))) (tc_socks_recv_buf c) else [])"

definition tc_data_up :: "tcp_client \<Rightarrow> bool" where
  "tc_data_up c \<longleftrightarrow>
     prefix (took (tc_trace c)) (received (tc_trace c)) \<and> acked (tc_trace c) \<le> int (length (took (tc_trace c))) \<and>
     (\<not> tc_socks_closed c \<longrightarrow>
        received (tc_trace c) = took (tc_trace c) @ drop (nat (tc_inflight c)) (take (nat (tc_buf_used c)) (tc_buf c))) \<and>
     (\<not> tc_socks_closed c \<and> \<not> tc_client_closed c \<longrightarrow>
        acked (tc_trace c) = int (length (took (tc_trace c))) - tc_inflight c)"

definition tc_data_down :: "tcp_client \<Rightarrow> bool" where
  "tc_data_down c \<longleftrightarrow>
     prefix (written (tc_trace c)) (delivered (tc_trace c)) \<and>
     (\<not> tc_socks_up c \<longrightarrow> delivered (tc_trace c) = [] \<and> written (tc_trace c) = []) \<and>
     (tc_socks_up c \<and> \<not> tc_client_closed c \<longrightarrow>
        prefix (written (tc_trace c) @ tc_unsent c) (delivered (tc_trace c)) \<and>
        (\<not> tc_socks_closed c \<longrightarrow> delivered (tc_trace c) = written (tc_trace c) @ tc_unsent c @ tc_arrived c))"

text \<open>Taking down does not touch the data: what the take-down functions may change.\<close>

definition tc_down :: "tcp_client \<Rightarrow> tcp_client \<Rightarrow> bool" where
  "tc_down c c' \<longleftrightarrow>
     (\<exists>us. tc_trace c' = tc_trace c @ us \<and> received us = [] \<and> took us = [] \<and> delivered us = [] \<and>
        written us = [] \<and> acked us = 0) \<and>
     (tc_socks_closed c \<longrightarrow> tc_socks_closed c') \<and> (tc_client_closed c \<longrightarrow> tc_client_closed c') \<and>
     tc_socks_up c' = tc_socks_up c \<and> tc_in_callback c' = tc_in_callback c \<and>
     tc_buf c' = tc_buf c \<and> tc_buf_used c' = tc_buf_used c \<and> tc_socks_recv_buf c' = tc_socks_recv_buf c \<and>
     tc_socks_recv_buf_used c' = tc_socks_recv_buf_used c \<and> tc_socks_recv_buf_sent c' = tc_socks_recv_buf_sent c \<and>
     si_state (tc_socks_send_if c') = si_state (tc_socks_send_if c) \<and>
     si_job_done_len (tc_socks_send_if c') = si_job_done_len (tc_socks_send_if c) \<and>
     si_state (tc_socks_recv_if c') = si_state (tc_socks_recv_if c) \<and>
     si_job_done_len (tc_socks_recv_if c') = si_job_done_len (tc_socks_recv_if c)"

lemma tc_down_refl: "tc_down c c"
  by (simp add: tc_down_def)

lemma tc_down_trans [trans]:
  assumes "tc_down a b" "tc_down b c"
  shows "tc_down a c"
proof -
  obtain us vs where "tc_trace b = tc_trace a @ us" "tc_trace c = tc_trace b @ vs"
    "received us = [] \<and> took us = [] \<and> delivered us = [] \<and> written us = [] \<and> acked us = 0"
    "received vs = [] \<and> took vs = [] \<and> delivered vs = [] \<and> written vs = [] \<and> acked vs = 0"
    using assms unfolding tc_down_def by blast
  then have "\<exists>us. tc_trace c = tc_trace a @ us \<and> received us = [] \<and> took us = [] \<and> delivered us = [] \<and>
        written us = [] \<and> acked us = 0"
    by (intro exI [of _ "us @ vs"]) simp
  then show ?thesis using assms by (simp add: tc_down_def)
qed

lemma tc_down_view:
  assumes "tc_down c c'"
  shows "received (tc_trace c') = received (tc_trace c)" "took (tc_trace c') = took (tc_trace c)"
    "delivered (tc_trace c') = delivered (tc_trace c)" "written (tc_trace c') = written (tc_trace c)"
    "acked (tc_trace c') = acked (tc_trace c)"
    "tc_inflight c' = tc_inflight c" "tc_unsent c' = tc_unsent c" "tc_arrived c' = tc_arrived c"
    "tc_buf c' = tc_buf c" "tc_buf_used c' = tc_buf_used c" "tc_socks_up c' = tc_socks_up c"
    "tc_socks_closed c \<longrightarrow> tc_socks_closed c'" "tc_client_closed c \<longrightarrow> tc_client_closed c'"
    "tc_in_callback c' = tc_in_callback c"
  using assms by (auto simp: tc_down_def tc_inflight_def tc_unsent_def tc_arrived_def)

lemma tc_down_data_up: "tc_down c c' \<Longrightarrow> tc_data_up c \<Longrightarrow> tc_data_up c'"
  using tc_down_view(12,13) [of c c'] by (auto simp: tc_data_up_def tc_down_view(1-11))

lemma tc_down_data_down: "tc_down c c' \<Longrightarrow> tc_data_down c \<Longrightarrow> tc_data_down c'"
  using tc_down_view(12,13) [of c c'] by (auto simp: tc_data_down_def tc_down_view(1-11))

lemma tc_down_simple:
  "tc_down c (tc_log (TcpClose e) c)" "tc_down c (tc_log FreeClient c)" "tc_down c (c\<lparr>tc_freed := b\<rparr>)"
  "tc_down c (c\<lparr>tc_client_closed := True\<rparr>)" "tc_down c (c\<lparr>tc_socks_closed := True\<rparr>)"
  "tc_down c (c\<lparr>tc_cb_recv := b\<rparr>)" "tc_down c (tcp_remove_callbacks c)" "tc_down c (client_BSocksClient_Free c)"
  "tc_down c (DEAD_KILL_WITH v c)" "tc_down c (client_abort_pcb c)"
  by (auto simp: tc_down_def tc_log_def tcp_remove_callbacks_def client_BSocksClient_Free_def tc_in_callback_def
      DEAD_KILL_WITH_def client_abort_pcb_def StreamPassInterface_Free_def StreamRecvInterface_Free_def
      split: dead_t.splits)

lemma tc_down_dealloc: "tc_down c (client_dealloc c)"
proof -
  let ?d = "if \<not> tc_aborted c then DEAD_KILL_WITH (-1) c else c"
  have "tc_down c ?d" by (simp add: tc_down_simple tc_down_refl)
  also have "tc_down ?d (?d\<lparr>tc_freed := True\<rparr>)" by (rule tc_down_simple)
  also have "tc_down \<dots> (tc_log FreeClient \<dots>)" by (rule tc_down_simple)
  finally show ?thesis by (simp add: client_dealloc_def Let_def)
qed

lemma client_take_down:
  "tc_down c (client_handle_freed_client lw c)"
  "tc_down c (client_free_client lw c)"
  "tc_down c (client_free_socks lw c)"
proof (induction lw c and lw c and lw c
    rule: client_handle_freed_client_client_free_client_client_free_socks.induct)
  case (1 lw c)
  let ?c = "c\<lparr>tc_client_closed := True\<rparr>"
  have d: "tc_down c ?c" by (rule tc_down_simple)
  show ?case using 1 [OF refl] tc_down_trans [OF d] d tc_down_dealloc
    by (simp add: client_handle_freed_client.simps Let_def)
next
  case (2 lw c)
  let ?l = "tc_log (TcpClose (lw_close lw)) (tcp_remove_callbacks c)"
  let ?a = "if lw_close lw \<noteq> ERR_OK then client_abort_pcb ?l else ?l"
  have "tc_down c (tcp_remove_callbacks c)" by (rule tc_down_simple)
  also have "tc_down \<dots> ?l" by (rule tc_down_simple)
  also have "tc_down \<dots> ?a" by (simp add: tc_down_simple tc_down_refl)
  also have "tc_down \<dots> (client_handle_freed_client lw \<dots>)" using 2 by simp
  finally show ?case by (simp add: client_free_client.simps Let_def)
next
  case (3 lw c)
  let ?r = "if tc_socks_up c \<and> \<not> tc_client_closed c then c\<lparr>tc_cb_recv := False\<rparr> else c"
  let ?f = "(client_BSocksClient_Free ?r)\<lparr>tc_socks_closed := True\<rparr>"
  have "tc_down c ?r" by (simp add: tc_down_simple tc_down_refl)
  also have "tc_down \<dots> (client_BSocksClient_Free \<dots>)" by (rule tc_down_simple)
  also have "tc_down \<dots> ?f" by (rule tc_down_simple)
  finally have d: "tc_down c ?f" .
  show ?case using 3 [OF refl refl refl] d tc_down_trans [OF d] tc_down_dealloc
    unfolding client_free_socks.simps Let_def by simp
qed

lemma client_abort_client_down: "tc_down c (client_abort_client lw c)"
proof -
  have "tc_down c (tcp_remove_callbacks c)" by (rule tc_down_simple)
  also have "tc_down \<dots> (client_abort_pcb \<dots>)" by (rule tc_down_simple)
  also have "tc_down \<dots> (client_handle_freed_client lw \<dots>)" by (rule client_take_down)
  finally show ?thesis by (simp add: client_abort_client_def Let_def)
qed

lemma client_murder_down: "tc_down c (client_murder c)"
proof -
  let ?a = "if \<not> tc_client_closed c
            then (client_abort_pcb (tcp_remove_callbacks c))\<lparr>tc_client_closed := True\<rparr> else c"
  let ?b = "if \<not> tc_socks_closed ?a then (client_BSocksClient_Free ?a)\<lparr>tc_socks_closed := True\<rparr> else ?a"
  have "tc_down c ?a"
    using tc_down_trans [OF tc_down_trans [OF tc_down_simple(7) tc_down_simple(10)] tc_down_simple(4)]
    by (simp add: tc_down_refl)
  also have "tc_down ?a ?b"
    using tc_down_trans [OF tc_down_simple(8) tc_down_simple(5)] by (simp add: tc_down_refl)
  also have "tc_down ?b (client_dealloc ?b)" by (rule tc_down_dealloc)
  finally show ?thesis by (simp add: client_murder_def Let_def)
qed

lemma tc_queued_data_up:
  assumes "tc_writes c n ws" "tc_data_up c"
  shows "tc_data_up (tc_queued c n ws)"
  using assms(2) tc_writes_trace [OF assms(1)] by (simp add: tc_data_up_def tc_inflight_def)

lemma mem_read_drop_take:
  assumes "s + n \<le> u"
  shows "mem_read s n xs @ drop (s + n) (take u xs) = drop s (take u xs)"
proof -
  have "mem_read s n xs = take n (drop s (take u xs))"
    using assms by (simp add: mem_read_def drop_take min_def)
  moreover have "drop (s + n) (take u xs) = drop n (drop s (take u xs))" by (simp add: add.commute)
  ultimately show ?thesis by (simp only: append_take_drop_id)
qed

lemma tc_queued_data_down:
  assumes w: "tc_writes c n ws" and d: "tc_data_down c" and s: "0 \<le> tc_socks_recv_buf_sent c"
    "tc_socks_recv_buf_used c > 0" "tc_socks_up c" "\<not> tc_client_closed c"
  shows "tc_data_down (tc_queued c n ws)"
proof -
  have n: "0 \<le> n" "tc_socks_recv_buf_sent c + n \<le> tc_socks_recv_buf_used c"
    "written ws = mem_read (nat (tc_socks_recv_buf_sent c)) (nat n) (tc_socks_recv_buf c)"
    using w by (simp_all add: tc_writes_def)
  have "nat (tc_socks_recv_buf_sent c) + nat n \<le> nat (tc_socks_recv_buf_used c)" using n s by linarith
  from mem_read_drop_take [OF this, of "tc_socks_recv_buf c"]
  have "written ws @ tc_unsent (tc_queued c n ws) = tc_unsent c"
    using n s by (simp add: tc_unsent_def nat_add_distrib)
  then have u: "tc_unsent c = written ws @ tc_unsent (tc_queued c n ws)" ..
  have a: "tc_arrived (tc_queued c n ws) = tc_arrived c" by (simp add: tc_arrived_def)
  have "prefix (written (tc_trace c) @ written ws) (delivered (tc_trace c))"
    using d s u by (auto simp: tc_data_down_def prefix_def)
  then show ?thesis using d s u a tc_writes_trace [OF w] by (simp add: tc_data_down_def)
qed

lemma tc_data_waiting [simp]:
  "tc_data_up (c\<lparr>tc_socks_recv_waiting := b\<rparr>) = tc_data_up c"
  "tc_data_down (c\<lparr>tc_socks_recv_waiting := b\<rparr>) = tc_data_down c"
  by (simp_all add: tc_data_up_def tc_data_down_def tc_inflight_def tc_unsent_def tc_arrived_def)

lemma client_socks_recv_send_out_data:
  assumes c: "tc_data_up c" "tc_data_down c" "0 \<le> tc_socks_recv_buf_sent c"
    "tc_socks_recv_buf_sent c < tc_socks_recv_buf_used c" "tc_socks_up c" "\<not> tc_client_closed c"
    and r: "client_socks_recv_send_out lw c = (c', r)"
  shows "tc_data_up c' \<and> tc_data_down c' \<and> tc_in_callback c' = tc_in_callback c \<and>
    (r < 0 \<or> tc_socks_recv_if c' = tc_socks_recv_if c)"
proof -
  have q: "tc_data_up (tc_queued c n ws)" "tc_data_down (tc_queued c n ws)"
    "tc_in_callback (tc_queued c n ws) = tc_in_callback c" if "tc_writes c n ws" for n ws
    using tc_queued_data_up [OF that c(1)] tc_queued_data_down [OF that c(2)] c by (auto simp: tc_in_callback_def)
  show ?thesis using c(3,4)
  proof (cases rule: client_socks_recv_send_out_cases [of c lw])
    case (abort n ws)
    then show ?thesis
      using r q [of n ws] client_abort_client_down [of "tc_queued c n ws" lw] tc_down_data_up tc_down_data_down
        tc_down_view(14) by auto
  next
    case (waiting n ws)
    then show ?thesis using r q [of n ws] by (auto simp: tc_in_callback_def)
  next
    case (all n ws)
    let ?q = "tc_queued c n ws"
    have "tc_unsent ?q = []" using all c by (simp add: tc_unsent_def)
    moreover have "tc_unsent (?q\<lparr>tc_socks_recv_buf_used := -1\<rparr>) = []"
      "tc_arrived (?q\<lparr>tc_socks_recv_buf_used := -1\<rparr>) = tc_arrived ?q"
      "tc_inflight (?q\<lparr>tc_socks_recv_buf_used := -1\<rparr>) = tc_inflight ?q"
      by (simp_all add: tc_unsent_def tc_arrived_def tc_inflight_def)
    moreover have "c' = ?q\<lparr>tc_socks_recv_buf_used := -1\<rparr>" using r all(3) by simp
    ultimately show ?thesis using q [OF all(1)]
      by (simp add: tc_data_up_def tc_data_down_def tc_in_callback_def)
  qed
qed

section \<open>Runs of a client\<close>

text \<open>
  The jobs that concern a client: those of its two stream interfaces, the SOCKS side
  taking and delivering bytes, and the events of the SOCKS client.
\<close>

inductive tc_job :: "tcp_client \<Rightarrow> tcp_client \<Rightarrow> bool" where
  send_operation: "\<not> tc_freed c \<Longrightarrow> si_job_operation (tc_socks_send_if c) \<Longrightarrow>
    tc_job c (c\<lparr>tc_socks_send_if := StreamPassInterface_job_operation (tc_socks_send_if c)\<rparr>)"
| send_done: "\<not> tc_freed c \<Longrightarrow> \<not> tc_socks_closed c \<Longrightarrow> tc_socks_up c \<Longrightarrow>
    StreamPassInterface_Done_pre (tc_socks_send_if c) n \<Longrightarrow>
    tc_job c (tc_log (SocksTook (mem_read (nat (si_job_operation_data (tc_socks_send_if c))) (nat n) (tc_buf c)))
      (c\<lparr>tc_socks_send_if := StreamPassInterface_Done (tc_socks_send_if c) n\<rparr>))"
| send_job_done: "\<not> tc_freed c \<Longrightarrow> si_job_done (tc_socks_send_if c) \<Longrightarrow>
    tc_job c (client_socks_send_handler_done lw
      (c\<lparr>tc_socks_send_if := StreamPassInterface_job_done (tc_socks_send_if c)\<rparr>)
      (si_job_done_len (tc_socks_send_if c)))"
| recv_operation: "\<not> tc_freed c \<Longrightarrow> si_job_operation (tc_socks_recv_if c) \<Longrightarrow>
    tc_job c (c\<lparr>tc_socks_recv_if := StreamRecvInterface_job_operation (tc_socks_recv_if c)\<rparr>)"
| recv_done: "\<not> tc_freed c \<Longrightarrow> \<not> tc_socks_closed c \<Longrightarrow> tc_socks_up c \<Longrightarrow>
    StreamRecvInterface_Done_pre (tc_socks_recv_if c) (int (length x)) \<Longrightarrow>
    tc_job c (tc_log (SocksGot x)
      (c\<lparr>tc_socks_recv_buf := mem_write (nat (si_job_operation_data (tc_socks_recv_if c))) x (tc_socks_recv_buf c),
         tc_socks_recv_if := StreamRecvInterface_Done (tc_socks_recv_if c) (int (length x))\<rparr>))"
| recv_job_done: "\<not> tc_freed c \<Longrightarrow> si_job_done (tc_socks_recv_if c) \<Longrightarrow>
    tc_job c (client_socks_recv_handler_done lw
      (c\<lparr>tc_socks_recv_if := StreamRecvInterface_job_done (tc_socks_recv_if c)\<rparr>)
      (si_job_done_len (tc_socks_recv_if c)))"
| socks_event: "\<not> tc_freed c \<Longrightarrow> \<not> tc_socks_closed c \<Longrightarrow>
    event = BSOCKSCLIENT_EVENT_UP \<longleftrightarrow> \<not> tc_socks_up c \<and> event \<noteq> BSOCKSCLIENT_EVENT_ERROR \<Longrightarrow>
    tc_job c (client_socks_handler lw c event)"

text \<open>
  The steps of a client: a job, a callback of lwIP through a registered callback, or the
  shutdown of the program. In a callback \<open>sync\<close> runs jobs. lwIP has already released the pcb
  when it reports an error.
\<close>

inductive tc_step :: "tcp_client \<Rightarrow> tcp_client \<Rightarrow> bool" where
  job: "tc_job c c' \<Longrightarrow> tc_step c c'"
| err: "\<not> tc_freed c \<Longrightarrow> tc_cb_err c \<Longrightarrow> tc_step c (client_err_func lw (tcp_remove_callbacks c))"
| recv_eof: "\<not> tc_freed c \<Longrightarrow> tc_cb_recv c \<Longrightarrow> tc_step c (fst (client_recv_func lw sync c None))"
| recv_data: "\<not> tc_freed c \<Longrightarrow> tc_cb_recv c \<Longrightarrow> x \<noteq> [] \<Longrightarrow>
    int (length x) \<le> int (length (tc_buf c)) - tc_buf_used c \<Longrightarrow> (\<And>e. tc_job\<^sup>*\<^sup>* e (sync e)) \<Longrightarrow>
    tc_step c (fst (client_recv_func lw sync (tc_log (LwipGot x) c) (Some x)))"
| recv_refused: "\<not> tc_freed c \<Longrightarrow> tc_cb_recv c \<Longrightarrow>
    int (length x) > int (length (tc_buf c)) - tc_buf_used c \<Longrightarrow>
    tc_step c (fst (client_recv_func lw sync c (Some x)))"
| sent: "\<not> tc_freed c \<Longrightarrow> tc_cb_sent c \<Longrightarrow> 0 < len \<Longrightarrow> len \<le> tc_socks_recv_tcp_pending c \<Longrightarrow>
    (\<And>e. tc_job\<^sup>*\<^sup>* e (sync e)) \<Longrightarrow> tc_step c (fst (client_sent_func lw sync c len))"
| murder: "\<not> tc_freed c \<Longrightarrow> tc_step c (client_murder c)"

text \<open>What holds of a client at every moment.\<close>

definition tc_good :: "tcp_client \<Rightarrow> bool" where
  "tc_good c \<longleftrightarrow> tc_inv c \<and> tc_data_up c \<and> tc_data_down c"

lemma tc_good_jobs:
  assumes "tc_good c" "\<not> tc_freed c"
  shows "si_job_operation (tc_socks_send_if c) \<or> si_job_done (tc_socks_send_if c) \<or>
         si_job_operation (tc_socks_recv_if c) \<or> si_job_done (tc_socks_recv_if c) \<Longrightarrow>
         \<not> tc_socks_closed c \<and> tc_socks_up c"
  using assms by (auto simp: tc_good_def tc_inv_def tc_socks_ok_def tc_jobs_off_def split: if_splits)

lemma tc_good_down: "tc_good c \<Longrightarrow> tc_down c c' \<Longrightarrow> tc_inv c' \<Longrightarrow> tc_good c'"
  using tc_down_data_up tc_down_data_down by (simp add: tc_good_def)

lemma send_operation_good:
  assumes "tc_good c" "\<not> tc_freed c" "si_job_operation (tc_socks_send_if c)"
  shows "tc_good (c\<lparr>tc_socks_send_if := StreamPassInterface_job_operation (tc_socks_send_if c)\<rparr>)"
    (is "tc_good ?c")
proof -
  have u: "\<not> tc_socks_closed c" "tc_socks_up c" using tc_good_jobs [OF assms(1,2)] assms(3) by auto
  then have i: "tc_send_ok c" "tc_recv_ok c" using assms by (simp_all add: tc_good_def tc_inv_def tc_socks_ok_def)
  have "tc_send_ok ?c" using i(1) assms(3)
    by (auto simp: tc_send_ok_def Let_def si_wf_def StreamPassInterface_job_operation_def)
  then have "tc_inv ?c" using assms u i by (simp add: tc_good_def tc_inv_def tc_socks_ok_def)
  moreover have "tc_inflight ?c = tc_inflight c" using i(1) assms(3)
    by (auto simp: tc_inflight_def StreamPassInterface_job_operation_def tc_send_ok_def Let_def si_wf_def)
  moreover have "tc_unsent ?c = tc_unsent c" "tc_arrived ?c = tc_arrived c"
    by (simp_all add: tc_unsent_def tc_arrived_def)
  ultimately show ?thesis using assms(1) by (simp add: tc_good_def tc_data_up_def tc_data_down_def)
qed

lemma recv_operation_good:
  assumes "tc_good c" "\<not> tc_freed c" "si_job_operation (tc_socks_recv_if c)"
  shows "tc_good (c\<lparr>tc_socks_recv_if := StreamRecvInterface_job_operation (tc_socks_recv_if c)\<rparr>)"
    (is "tc_good ?c")
proof -
  have u: "\<not> tc_socks_closed c" "tc_socks_up c" using tc_good_jobs [OF assms(1,2)] assms(3) by auto
  then have i: "tc_send_ok c" "tc_recv_ok c" using assms by (simp_all add: tc_good_def tc_inv_def tc_socks_ok_def)
  have "tc_recv_ok ?c" using i(2) assms(3)
    by (auto simp: tc_recv_ok_def Let_def si_wf_def StreamRecvInterface_job_operation_def)
  then have "tc_inv ?c" using assms u i by (simp add: tc_good_def tc_inv_def tc_socks_ok_def)
  moreover have "tc_arrived ?c = tc_arrived c" using i(2) assms(3)
    by (auto simp: tc_arrived_def StreamRecvInterface_job_operation_def tc_recv_ok_def Let_def si_wf_def)
  moreover have "tc_unsent ?c = tc_unsent c" "tc_inflight ?c = tc_inflight c"
    by (simp_all add: tc_unsent_def tc_inflight_def)
  ultimately show ?thesis using assms(1) by (simp add: tc_good_def tc_data_up_def tc_data_down_def)
qed

lemma tc_log_inv:
  assumes "tc_inv c" "\<not> tc_freed c" "a \<in> range SocksTook \<union> range SocksGot \<union> range LwipGot \<union> range TcpRecved"
  shows "tc_inv (tc_log a c)"
proof -
  have "tc_bufs_ok (tc_log a c) = tc_bufs_ok c" "tc_client_ok (tc_log a c) = tc_client_ok c"
    "tc_socks_ok (tc_log a c) = tc_socks_ok c" "tc_dead_ok (tc_log a c) = tc_dead_ok c"
    by (simp_all add: tc_log_def tc_bufs_ok_def tc_client_ok_def tc_queue_ok_def tc_socks_ok_def tc_jobs_off_def
        tc_send_ok_def tc_recv_ok_def tc_dead_ok_def split: dead_t.splits)
  moreover have "tc_trace_ok (tc_log a c)" using assms by (auto simp: tc_inv_def tc_trace_ok_def tc_log_def)
  ultimately show ?thesis using assms by (simp add: tc_inv_def)
qed

lemma tc_log_data_fields [simp]:
  "tc_inflight (tc_log a c) = tc_inflight c" "tc_unsent (tc_log a c) = tc_unsent c"
  "tc_arrived (tc_log a c) = tc_arrived c" "tc_trace (tc_log a c) = tc_trace c @ [a]"
  "tc_socks_up (tc_log a c) = tc_socks_up c" "tc_buf (tc_log a c) = tc_buf c" "tc_buf_used (tc_log a c) = tc_buf_used c"
  by (simp_all add: tc_log_def tc_inflight_def tc_unsent_def tc_arrived_def)

lemma tc_recv_buf_frame [simp]:
  "tc_trace_ok (c\<lparr>tc_socks_recv_buf := b\<rparr>) = tc_trace_ok c" "tc_dead_ok (c\<lparr>tc_socks_recv_buf := b\<rparr>) = tc_dead_ok c"
  "tc_send_ok (c\<lparr>tc_socks_recv_buf := b\<rparr>) = tc_send_ok c" "tc_recv_ok (c\<lparr>tc_socks_recv_buf := b\<rparr>) = tc_recv_ok c"
  "tc_client_ok (c\<lparr>tc_socks_recv_buf := b\<rparr>) = tc_client_ok c"
  by (simp_all add: tc_trace_ok_def tc_dead_ok_def tc_send_ok_def tc_recv_ok_def tc_client_ok_def tc_queue_ok_def
      split: dead_t.splits)

lemma send_done_good:
  assumes g: "tc_good c" and c: "\<not> tc_freed c" "\<not> tc_socks_closed c" "tc_socks_up c"
    and d: "StreamPassInterface_Done_pre (tc_socks_send_if c) n"
  shows "tc_good (tc_log (SocksTook (mem_read (nat (si_job_operation_data (tc_socks_send_if c))) (nat n) (tc_buf c)))
      (c\<lparr>tc_socks_send_if := StreamPassInterface_Done (tc_socks_send_if c) n\<rparr>))"
    (is "tc_good (tc_log ?a ?c)")
proof -
  have i: "tc_send_ok c" "tc_recv_ok c" "tc_bufs_ok c"
    using g c by (simp_all add: tc_good_def tc_inv_def tc_socks_ok_def)
  have n: "0 < n" "n \<le> tc_buf_used c" "si_job_operation_data (tc_socks_send_if c) = 0"
    "si_state (tc_socks_send_if c) = STATE_BUSY"
    using d i(1) by (auto simp: StreamPassInterface_Done_pre_def tc_send_ok_def Let_def)
  have "tc_send_ok ?c" using i(1) d n
    by (auto simp: tc_send_ok_def Let_def si_wf_def StreamPassInterface_Done_def StreamPassInterface_Done_pre_def)
  then have "tc_inv ?c" using g c i by (simp add: tc_good_def tc_inv_def tc_socks_ok_def)
  then have inv: "tc_inv (tc_log ?a ?c)" using c by (intro tc_log_inv) simp_all
  have f: "tc_inflight ?c = n" "tc_inflight c = 0" "tc_unsent ?c = tc_unsent c" "tc_arrived ?c = tc_arrived c"
    using c n by (simp_all add: tc_inflight_def StreamPassInterface_Done_def tc_unsent_def tc_arrived_def)
  have t: "take (nat (tc_buf_used c)) (tc_buf c) =
      mem_read 0 (nat n) (tc_buf c) @ drop (nat n) (take (nat (tc_buf_used c)) (tc_buf c))"
    using mem_read_drop_take [of 0 "nat n" "nat (tc_buf_used c)" "tc_buf c"] n by simp
  have l: "length (mem_read 0 (nat n) (tc_buf c)) = nat n"
    by (rule length_mem_read) (use n i(3) in \<open>auto simp: tc_bufs_ok_def\<close>)
  have r: "received (tc_trace c) = took (tc_trace c) @ take (nat (tc_buf_used c)) (tc_buf c)"
    using g c f by (simp add: tc_good_def tc_data_up_def)
  then have r: "received (tc_trace c) = took (tc_trace c) @ mem_read 0 (nat n) (tc_buf c) @
      drop (nat n) (take (nat (tc_buf_used c)) (tc_buf c))" by (subst (asm) t)
  have pr: "prefix (mem_read 0 (nat n) (tc_buf c)) (take (nat (tc_buf_used c)) (tc_buf c))"
    by (subst t) (rule prefixI, rule refl)
  have "tc_data_up (tc_log ?a ?c)" using g c f n l r pr by (simp add: tc_good_def tc_data_up_def)
  moreover have "tc_data_down (tc_log ?a ?c)" using g f by (simp add: tc_good_def tc_data_down_def)
  ultimately show ?thesis using inv by (simp add: tc_good_def)
qed

lemma recv_done_good:
  assumes g: "tc_good c" and c: "\<not> tc_freed c" "\<not> tc_socks_closed c" "tc_socks_up c"
    and d: "StreamRecvInterface_Done_pre (tc_socks_recv_if c) (int (length x))"
  shows "tc_good (tc_log (SocksGot x)
      (c\<lparr>tc_socks_recv_buf := mem_write (nat (si_job_operation_data (tc_socks_recv_if c))) x (tc_socks_recv_buf c),
         tc_socks_recv_if := StreamRecvInterface_Done (tc_socks_recv_if c) (int (length x))\<rparr>))"
    (is "tc_good (tc_log ?a ?c)")
proof -
  have i: "tc_send_ok c" "tc_recv_ok c" "tc_bufs_ok c" "tc_client_ok c" "tc_trace_ok c" "tc_dead_ok c"
    using g c by (simp_all add: tc_good_def tc_inv_def tc_socks_ok_def)
  have x: "0 < length x" "length x \<le> 8192" "si_job_operation_data (tc_socks_recv_if c) = 0"
    "si_state (tc_socks_recv_if c) = STATE_BUSY" "tc_socks_recv_buf_used c = -1"
    using d i(2) by (auto simp: StreamRecvInterface_Done_pre_def tc_recv_ok_def Let_def)
  have l: "length (mem_write 0 x (tc_socks_recv_buf c)) = length (tc_socks_recv_buf c)"
    by (rule length_mem_write) (use i(3) x in \<open>simp add: tc_bufs_ok_def\<close>)
  have "tc_recv_ok ?c" using i(2) d x
    by (auto simp: tc_recv_ok_def Let_def si_wf_def StreamRecvInterface_Done_def)
  moreover have "tc_bufs_ok ?c" using i x l by (simp add: tc_bufs_ok_def)
  moreover have "tc_send_ok ?c" "tc_client_ok ?c" "tc_trace_ok ?c" "tc_dead_ok ?c" using i x by simp_all
  ultimately have "tc_inv ?c" using c by (simp add: tc_inv_def tc_socks_ok_def)
  then have inv: "tc_inv (tc_log ?a ?c)" using c by (intro tc_log_inv) simp_all
  have f: "tc_arrived ?c = x" "tc_arrived c = []" "tc_unsent ?c = []" "tc_unsent c = []" "tc_inflight ?c = tc_inflight c"
    using x by (simp_all add: tc_arrived_def StreamRecvInterface_Done_def tc_unsent_def tc_inflight_def mem_write_def)
  have "tc_data_down (tc_log ?a ?c)" using g c f
    by (auto simp: tc_good_def tc_data_down_def intro: prefix_order.trans)
  moreover have "tc_data_up (tc_log ?a ?c)" using g f by (simp add: tc_good_def tc_data_up_def)
  ultimately show ?thesis using inv by (simp add: tc_good_def)
qed

lemma send_job_done_good:
  assumes g: "tc_good c" and c: "\<not> tc_freed c" and d: "si_job_done (tc_socks_send_if c)"
  shows "tc_good (client_socks_send_handler_done lw
      (c\<lparr>tc_socks_send_if := StreamPassInterface_job_done (tc_socks_send_if c)\<rparr>)
      (si_job_done_len (tc_socks_send_if c)))"
    (is "tc_good (client_socks_send_handler_done lw ?c ?n)")
proof -
  have u: "\<not> tc_socks_closed c" "tc_socks_up c" using tc_good_jobs [OF g c] d by auto
  then have i: "tc_send_ok c" "tc_bufs_ok c" using g c by (simp_all add: tc_good_def tc_inv_def tc_socks_ok_def)
  then have n: "0 < ?n" "?n \<le> tc_buf_used c" "si_state (tc_socks_send_if c) = STATE_DONE_PENDING"
    using d by (auto simp: tc_send_ok_def Let_def si_wf_def)
  let ?rest = "mem_read (nat ?n) (nat (tc_buf_used c - ?n)) (tc_buf c)"
  define m where "m = ?c\<lparr>tc_buf := mem_write 0 ?rest (tc_buf c), tc_buf_used := tc_buf_used c - ?n\<rparr>"
  define l where "l = (if \<not> tc_client_closed c then tc_log (TcpRecved ?n) m else m)"
  let ?s = "l\<lparr>tc_socks_send_if := StreamPassInterface_Sender_Send (tc_socks_send_if l) 0 (tc_buf_used l)\<rparr>"
  have h: "client_socks_send_handler_done lw ?c ?n =
     (if tc_buf_used l > 0 then ?s else if tc_client_closed l then client_free_socks lw l else l)"
    by (simp add: client_socks_send_handler_done_def Let_def l_def m_def)
  have "length ?rest = nat (tc_buf_used c - ?n)"
    by (rule length_mem_read) (use n i(2) in \<open>auto simp: tc_bufs_ok_def\<close>)
  then have "take (nat (tc_buf_used c - ?n)) (tc_buf m) = ?rest" by (simp add: m_def mem_write_def)
  moreover have "drop (nat ?n) (take (nat (tc_buf_used c)) (tc_buf c)) = ?rest"
    using n by (simp add: mem_read_def drop_take nat_diff_distrib)
  ultimately have b: "take (nat (tc_buf_used l)) (tc_buf l) = drop (nat ?n) (take (nat (tc_buf_used c)) (tc_buf c))"
    by (simp add: l_def m_def tc_log_def)
  have f: "tc_inflight c = ?n" "tc_inflight l = 0" "tc_unsent l = tc_unsent c" "tc_arrived l = tc_arrived c"
    "tc_inflight ?s = 0" "tc_unsent ?s = tc_unsent c" "tc_arrived ?s = tc_arrived c"
    using u n by (simp_all add: l_def m_def tc_log_def tc_inflight_def tc_unsent_def tc_arrived_def
        StreamPassInterface_job_done_def StreamPassInterface_Sender_Send_def)
  have t: "tc_trace l = tc_trace c @ (if tc_client_closed c then [] else [TcpRecved ?n])"
    "tc_socks_closed l = tc_socks_closed c" "tc_client_closed l = tc_client_closed c" "tc_socks_up l = tc_socks_up c"
    by (simp_all add: l_def m_def tc_log_def)
  have dl: "tc_data_up l" "tc_data_down l" "tc_data_up ?s" "tc_data_down ?s"
    using g u n b f t by (simp_all add: tc_good_def tc_data_up_def tc_data_down_def)
  have inv: "tc_inv (client_socks_send_handler_done lw ?c ?n)"
    using g c u d by (intro client_socks_send_handler_done_inv) (simp_all add: tc_good_def)
  have "tc_data_up (client_free_socks lw l)" "tc_data_down (client_free_socks lw l)"
    using tc_down_data_up [OF client_take_down(3)] tc_down_data_down [OF client_take_down(3)] dl by simp_all
  with dl inv show ?thesis unfolding tc_good_def h by simp
qed

lemma recv_job_done_good:
  assumes g: "tc_good c" and c: "\<not> tc_freed c" and d: "si_job_done (tc_socks_recv_if c)"
  shows "tc_good (client_socks_recv_handler_done lw
      (c\<lparr>tc_socks_recv_if := StreamRecvInterface_job_done (tc_socks_recv_if c)\<rparr>)
      (si_job_done_len (tc_socks_recv_if c)))"
    (is "tc_good (client_socks_recv_handler_done lw ?c ?n)")
proof -
  have u: "\<not> tc_socks_closed c" "tc_socks_up c" using tc_good_jobs [OF g c] d by auto
  then have i: "tc_recv_ok c" using g c by (simp add: tc_good_def tc_inv_def tc_socks_ok_def)
  then have n: "0 < ?n" "si_state (tc_socks_recv_if c) = STATE_DONE_PENDING" "tc_socks_recv_buf_used c = -1"
    using d by (auto simp: tc_recv_ok_def Let_def si_wf_def)
  have inv: "tc_inv (client_socks_recv_handler_done lw ?c ?n)"
    using g c u d by (intro client_socks_recv_handler_done_inv) (simp_all add: tc_good_def)
  show ?thesis
  proof (cases "tc_client_closed c")
    case True
    have "tc_inflight ?c = tc_inflight c" by (simp add: tc_inflight_def)
    then have "tc_data_up ?c" "tc_data_down ?c" using g u True
      by (simp_all add: tc_good_def tc_data_up_def tc_data_down_def)
    with inv True show ?thesis by (simp add: tc_good_def client_socks_recv_handler_done_def)
  next
    case False
    let ?s = "?c\<lparr>tc_socks_recv_buf_used := ?n, tc_socks_recv_buf_sent := 0, tc_socks_recv_waiting := False\<rparr>"
    have f: "tc_inflight ?s = tc_inflight c" "tc_unsent ?s = tc_arrived c" "tc_arrived ?s = []" "tc_unsent c = []"
      using n by (simp_all add: tc_inflight_def tc_unsent_def tc_arrived_def StreamRecvInterface_job_done_def)
    have s: "tc_data_up ?s" "tc_data_down ?s" using g u False f
      by (simp_all add: tc_good_def tc_data_up_def tc_data_down_def)
    obtain c' r where r: "client_socks_recv_send_out lw ?s = (c', r)" by fastforce
    have *: "tc_data_up c'" "tc_data_down c'" "r < 0 \<or> tc_socks_recv_if c' = tc_socks_recv_if ?s"
      using client_socks_recv_send_out_data [OF s _ _ _ _ r] n u False by auto
    have "tc_data_up (client_socks_recv_initiate c')" "\<not> r < 0 \<Longrightarrow> tc_data_down (client_socks_recv_initiate c')"
      using * by (auto simp: tc_data_up_def tc_data_down_def client_socks_recv_initiate_def tc_inflight_def
          tc_unsent_def tc_arrived_def StreamRecvInterface_Receiver_Recv_def StreamRecvInterface_job_done_def)
    with * inv False r show ?thesis by (auto simp: tc_good_def client_socks_recv_handler_done_def Let_def)
  qed
qed

lemma socks_event_good:
  assumes g: "tc_good c" and c: "\<not> tc_freed c" "\<not> tc_socks_closed c"
    and e: "event = BSOCKSCLIENT_EVENT_UP \<longleftrightarrow> \<not> tc_socks_up c \<and> event \<noteq> BSOCKSCLIENT_EVENT_ERROR"
  shows "tc_good (client_socks_handler lw c event)"
proof (cases "event = BSOCKSCLIENT_EVENT_UP")
  case True
  let ?d = "client_socks_handler lw c event"
  have u: "\<not> tc_socks_up c" using True e by simp
  have inv: "tc_inv ?d" using g c e by (intro client_socks_handler_inv) (simp_all add: tc_good_def)
  have f: "tc_trace ?d = tc_trace c" "tc_buf ?d = tc_buf c" "tc_buf_used ?d = tc_buf_used c" "tc_socks_up ?d"
    "tc_socks_closed ?d = tc_socks_closed c" "tc_client_closed ?d = tc_client_closed c"
    "tc_inflight ?d = 0" "tc_inflight c = 0" "tc_unsent ?d = []" "tc_arrived ?d = []"
    using True u by (simp_all add: client_socks_handler_def Let_def client_send_to_socks_def
        client_socks_recv_initiate_def tc_inflight_def tc_unsent_def tc_arrived_def spi_defs sri_defs)
  have "tc_data_up ?d" "tc_data_down ?d" using g u f by (simp_all add: tc_good_def tc_data_up_def tc_data_down_def)
  with inv show ?thesis by (simp add: tc_good_def)
next
  case False
  have "tc_good (client_free_socks lw c)"
    using g c by (intro tc_good_down [OF g client_take_down(3)] client_free_socks_inv tc_inv_socks_closable)
      (simp_all add: tc_good_def)
  with False show ?thesis by (cases event) (simp_all add: client_socks_handler_def)
qed

lemma tc_job_good:
  assumes "tc_job c c'" "tc_good c"
  shows "tc_good c'"
  using assms
proof cases
  case (send_job_done lw)
  then show ?thesis using send_job_done_good assms by simp
next
  case (recv_job_done lw)
  then show ?thesis using recv_job_done_good assms by simp
qed (use assms in \<open>simp_all add: send_operation_good send_done_good recv_operation_good recv_done_good
       socks_event_good\<close>)

lemma tc_in_callback_frame [simp]:
  "tc_in_callback (c\<lparr>tc_socks_send_if := i\<rparr>) = tc_in_callback c"
  "tc_in_callback (c\<lparr>tc_socks_recv_if := i\<rparr>) = tc_in_callback c"
  "tc_in_callback (tc_log a c) = tc_in_callback c"
  "tc_in_callback (client_send_to_socks c) = tc_in_callback c"
  "tc_in_callback (client_socks_recv_initiate c) = tc_in_callback c"
  "tc_in_callback (DEAD_ENTER c)"
  by (simp_all add: tc_in_callback_def tc_log_def client_send_to_socks_def client_socks_recv_initiate_def DEAD_ENTER_def)

lemma client_socks_send_handler_done_callback:
  "tc_in_callback (client_socks_send_handler_done lw c n) = tc_in_callback c"
proof -
  have d: "tc_in_callback (client_free_socks lw e) = tc_in_callback e" for e
    by (rule tc_down_view(14) [OF client_take_down(3)])
  show ?thesis by (simp add: client_socks_send_handler_done_def Let_def d) (simp add: tc_in_callback_def tc_log_def)
qed

lemma client_socks_handler_callback:
  "tc_in_callback (client_socks_handler lw c event) = tc_in_callback c"
  using tc_down_view(14) [OF client_take_down(3), of lw c]
  by (cases event) (simp_all add: client_socks_handler_def Let_def tc_in_callback_def client_send_to_socks_def
      client_socks_recv_initiate_def)

lemma client_socks_recv_handler_done_callback:
  assumes g: "tc_good c" and c: "\<not> tc_freed c" and d: "si_job_done (tc_socks_recv_if c)"
  shows "tc_in_callback (client_socks_recv_handler_done lw
      (c\<lparr>tc_socks_recv_if := StreamRecvInterface_job_done (tc_socks_recv_if c)\<rparr>)
      (si_job_done_len (tc_socks_recv_if c))) = tc_in_callback c"
    (is "tc_in_callback (client_socks_recv_handler_done lw ?c ?n) = _")
proof -
  have "\<not> tc_socks_closed c" "tc_socks_up c" using tc_good_jobs [OF g c] d by auto
  then have n: "0 < ?n"
    using g c d by (auto simp: tc_good_def tc_inv_def tc_socks_ok_def tc_recv_ok_def Let_def si_wf_def)
  let ?s = "?c\<lparr>tc_socks_recv_buf_used := ?n, tc_socks_recv_buf_sent := 0, tc_socks_recv_waiting := False\<rparr>"
  obtain c' r where r: "client_socks_recv_send_out lw ?s = (c', r)" by fastforce
  have "tc_in_callback c' = tc_in_callback ?s"
  proof (rule client_socks_recv_send_out_cases [of ?s lw])
    fix k ws
    assume "client_socks_recv_send_out lw ?s = (client_abort_client lw (tc_queued ?s k ws), -1)"
    then show ?thesis using r tc_down_view(14) [OF client_abort_client_down, of lw "tc_queued ?s k ws"]
      by (simp add: tc_in_callback_def)
  qed (use n r in \<open>auto simp: tc_in_callback_def\<close>)
  moreover have "tc_in_callback ?s = tc_in_callback c" by (simp add: tc_in_callback_def)
  ultimately show ?thesis using r by (simp add: client_socks_recv_handler_done_def Let_def)
qed

lemma tc_job_callback:
  assumes "tc_job c c'" "tc_good c"
  shows "tc_in_callback c' = tc_in_callback c"
  using assms
proof cases
  case (recv_job_done lw)
  then show ?thesis using client_socks_recv_handler_done_callback [OF assms(2)] by simp
next
  case (recv_done x)
  then show ?thesis by (simp add: tc_in_callback_def tc_log_def)
qed (simp_all add: client_socks_send_handler_done_callback client_socks_handler_callback)

lemma tc_jobs_good:
  assumes "tc_job\<^sup>*\<^sup>* c c'" "tc_good c"
  shows "tc_good c' \<and> tc_in_callback c' = tc_in_callback c"
  using assms by (induction) (auto simp: tc_job_good tc_job_callback)

section \<open>Callbacks keep everything\<close>

lemma tc_dead_data [simp]:
  "tc_inflight (c\<lparr>tc_dead_aborted := d\<rparr>) = tc_inflight c" "tc_unsent (c\<lparr>tc_dead_aborted := d\<rparr>) = tc_unsent c"
  "tc_arrived (c\<lparr>tc_dead_aborted := d\<rparr>) = tc_arrived c"
  by (simp_all add: tc_inflight_def tc_unsent_def tc_arrived_def)

lemma tc_good_dead: "tc_good c \<Longrightarrow> tc_inv (c\<lparr>tc_dead_aborted := d\<rparr>) \<Longrightarrow> tc_good (c\<lparr>tc_dead_aborted := d\<rparr>)"
  by (simp add: tc_good_def tc_data_up_def tc_data_down_def)

lemma DEAD_ENTER_good: "tc_good c \<Longrightarrow> \<not> tc_freed c \<Longrightarrow> \<not> tc_client_closed c \<Longrightarrow> tc_good (DEAD_ENTER c)"
  using DEAD_ENTER_inv [of c] tc_good_dead [of c] by (simp add: DEAD_ENTER_def tc_good_def)

lemma callback_result_good: "tc_good c \<Longrightarrow> tc_good (fst (callback_result c))"
  using DEAD_LEAVE2_inv [of c] tc_good_dead [of c]
  by (auto simp: callback_result_def DEAD_LEAVE2_def tc_good_def)

lemma client_store_good:
  assumes g: "tc_good c" and c: "\<not> tc_freed c" "\<not> tc_client_closed c" "\<not> tc_socks_closed c"
    and x: "x \<noteq> []" "int (length x) \<le> int (length (tc_buf c)) - tc_buf_used c"
  shows "tc_good (client_store (tc_log (LwipGot x) c) x)" (is "tc_good ?d")
proof -
  have "tc_inv (tc_log (LwipGot x) c)" using g c by (intro tc_log_inv) (simp_all add: tc_good_def)
  then have inv: "tc_inv ?d" using c x by (intro client_store_inv) simp_all
  have b: "0 \<le> tc_buf_used c" "tc_buf_used c \<le> int (length (tc_buf c))" and q: "tc_socks_ok c"
    using g c by (simp_all add: tc_good_def tc_inv_def tc_bufs_ok_def)
  have f: "tc_trace ?d = tc_trace c @ [LwipGot x]" "tc_socks_up ?d = tc_socks_up c"
    "tc_socks_closed ?d = tc_socks_closed c" "tc_client_closed ?d = tc_client_closed c"
    "tc_buf_used ?d = tc_buf_used c + int (length x)" "tc_buf ?d = mem_write (nat (tc_buf_used c)) x (tc_buf c)"
    "tc_unsent ?d = tc_unsent c" "tc_arrived ?d = tc_arrived c"
    by (simp_all add: client_store_def Let_def client_send_to_socks_def tc_log_def tc_unsent_def tc_arrived_def)
  have z: "tc_inflight c = 0" if "tc_buf_used c = 0" "tc_socks_up c"
    using that q c by (simp add: tc_socks_ok_def tc_send_ok_def Let_def tc_inflight_def)
  have fl: "tc_inflight ?d = tc_inflight c"
    using z by (auto simp: client_store_def Let_def client_send_to_socks_def tc_log_def tc_inflight_def
        StreamPassInterface_Sender_Send_def split: if_splits)
  have le: "nat (tc_inflight c) \<le> nat (tc_buf_used c)"
    using q c by (auto simp: tc_socks_ok_def tc_send_ok_def Let_def tc_inflight_def)
  have "take (nat (tc_buf_used c + int (length x))) (mem_write (nat (tc_buf_used c)) x (tc_buf c)) =
      take (nat (tc_buf_used c)) (tc_buf c) @ x"
    using b x by (simp add: mem_write_def nat_add_distrib)
  moreover have "nat (tc_inflight c) \<le> length (take (nat (tc_buf_used c)) (tc_buf c))" using le b by simp
  ultimately have "tc_data_up ?d" using g c f fl by (simp add: tc_good_def tc_data_up_def)
  moreover have "tc_data_down ?d" using g f by (simp add: tc_good_def tc_data_down_def)
  ultimately show ?thesis using inv by (simp add: tc_good_def)
qed

end
