(* ===== verification/TcpRuns.thy ===== *)
theory TcpRuns
  imports TcpForward
begin

text \<open>
  Whole runs of a TCP client of \<^verbatim>\<open>tun2socks/tun2socks.c\<close>: from the accept callback through
  any sequence of jobs and lwIP callbacks to its end, with the properties of every
  reachable client.
\<close>

section \<open>The callbacks\<close>

lemma tc_good_open:
  assumes "tc_good c" "\<not> tc_freed c"
  shows "tc_cb_err c \<or> tc_cb_recv c \<or> tc_cb_sent c \<Longrightarrow> \<not> tc_client_closed c \<and> \<not> tc_aborted c"
    and "tc_cb_recv c \<Longrightarrow> \<not> tc_socks_closed c" and "tc_cb_sent c \<Longrightarrow> tc_socks_up c \<and> tc_queue_ok c"
  using assms by (auto simp: tc_good_def tc_inv_def tc_client_ok_def tc_trace_ok_def split: if_splits)

lemma tc_good_closable: "tc_good c \<Longrightarrow> \<not> tc_freed c \<Longrightarrow> \<not> tc_client_closed c \<Longrightarrow> tc_closable c"
  by (simp add: tc_good_def tc_inv_closable)

lemma DEAD_ENTER_fields [simp]:
  "tc_freed (DEAD_ENTER c) = tc_freed c" "tc_client_closed (DEAD_ENTER c) = tc_client_closed c"
  "tc_socks_closed (DEAD_ENTER c) = tc_socks_closed c" "tc_buf_used (DEAD_ENTER c) = tc_buf_used c"
  "tc_buf (DEAD_ENTER c) = tc_buf c" "tc_socks_up (DEAD_ENTER c) = tc_socks_up c"
  "tc_socks_recv_tcp_pending (DEAD_ENTER c) = tc_socks_recv_tcp_pending c"
  "tc_socks_recv_buf_used (DEAD_ENTER c) = tc_socks_recv_buf_used c"
  "tc_aborted (DEAD_ENTER c) = tc_aborted c" "DEAD_ENTER (tc_log a c) = tc_log a (DEAD_ENTER c)"
  by (simp_all add: DEAD_ENTER_def tc_log_def)

lemma client_err_func_good:
  assumes g: "tc_good c" and c: "\<not> tc_freed c" "tc_cb_err c"
  shows "tc_good (client_err_func lw (tcp_remove_callbacks c))"
proof -
  have "tc_closable c" using tc_good_closable [OF g c(1)] tc_good_open(1) [OF g c(1)] c by simp
  note r = tc_closable_remove [OF this]
  have "tc_inv (client_err_func lw (tcp_remove_callbacks c))"
    unfolding client_err_func_def
    by (rule client_handle_freed_client_inv [OF r(1,2,3,5,6,7,8,9)])
  moreover have "tc_down c (client_err_func lw (tcp_remove_callbacks c))"
    unfolding client_err_func_def by (rule tc_down_trans [OF tc_down_simple(7) client_take_down(1)])
  ultimately show ?thesis by (intro tc_good_down [OF g])
qed

text \<open>
  Each callback ends by returning from a good client inside the dead-variable scope.
\<close>

lemma client_recv_func_eof:
  assumes g: "tc_good c" and c: "\<not> tc_freed c" "tc_cb_recv c"
  shows "\<exists>d. client_recv_func lw sync c None = callback_result d \<and> tc_good d \<and> tc_in_callback d"
proof -
  have o: "\<not> tc_client_closed c" using tc_good_open(1) [OF g c(1)] c by simp
  have e: "tc_good (DEAD_ENTER c)" using DEAD_ENTER_good [OF g c(1) o] .
  have "tc_good (client_free_client lw (DEAD_ENTER c))"
    by (rule tc_good_down [OF e client_take_down(2)], rule client_free_client_inv, rule tc_good_closable [OF e])
      (use c o in simp_all)
  moreover have "tc_in_callback (client_free_client lw (DEAD_ENTER c))"
    using tc_down_view(14) [OF client_take_down(2), of lw "DEAD_ENTER c"] by simp
  ultimately show ?thesis by (auto simp: client_recv_func_def)
qed

lemma client_recv_func_data:
  assumes g: "tc_good c" and c: "\<not> tc_freed c" "tc_cb_recv c"
    and x: "x \<noteq> []" "int (length x) \<le> int (length (tc_buf c)) - tc_buf_used c"
    and sync: "\<And>e. tc_job\<^sup>*\<^sup>* e (sync e)"
  shows "\<exists>d. client_recv_func lw sync (tc_log (LwipGot x) c) (Some x) = callback_result d \<and>
    tc_good d \<and> tc_in_callback d"
proof -
  have o: "\<not> tc_client_closed c" "\<not> tc_socks_closed c" using tc_good_open(1,2) [OF g c(1)] c by simp_all
  have e: "tc_good (DEAD_ENTER c)" using DEAD_ENTER_good [OF g c(1) o(1)] .
  let ?d = "client_store (tc_log (LwipGot x) (DEAD_ENTER c)) x"
  have s: "tc_good ?d" using c o x by (intro client_store_good [OF e]) simp_all
  have k: "tc_in_callback ?d"
    by (simp add: client_store_def Let_def) (simp add: tc_in_callback_def tc_log_def DEAD_ENTER_def)
  have j: "tc_good (sync ?d) \<and> tc_in_callback (sync ?d)" using tc_jobs_good [OF sync [of ?d] s] k by simp
  have "client_recv_func lw sync (tc_log (LwipGot x) c) (Some x) =
      callback_result (if tc_buf_used c = 0 \<and> tc_socks_up c then sync ?d else ?d)"
    using x(2) by (simp add: client_recv_func_def Let_def client_store_def)
  then show ?thesis using s k j by auto
qed

lemma client_recv_func_refused:
  assumes g: "tc_good c" and c: "\<not> tc_freed c" "tc_cb_recv c"
    and x: "int (length x) > int (length (tc_buf c)) - tc_buf_used c"
  shows "tc_good (fst (client_recv_func lw sync c (Some x)))"
    and "tc_trace (fst (client_recv_func lw sync c (Some x))) = tc_trace c"
    and "snd (client_recv_func lw sync c (Some x)) = ERR_MEM"
proof -
  have o: "\<not> tc_client_closed c" using tc_good_open(1) [OF g c(1)] c by simp
  have e: "tc_good (DEAD_ENTER c)" using DEAD_ENTER_good [OF g c(1) o] .
  have eq: "client_recv_func lw sync c (Some x) = (DEAD_LEAVE2 (DEAD_ENTER c), ERR_MEM)"
    using x by (simp add: client_recv_func_def Let_def)
  show "tc_good (fst (client_recv_func lw sync c (Some x)))"
    using callback_result_good [OF e] by (simp add: eq callback_result_def)
  show "tc_trace (fst (client_recv_func lw sync c (Some x))) = tc_trace c"
    "snd (client_recv_func lw sync c (Some x)) = ERR_MEM"
    by (simp_all add: eq DEAD_LEAVE2_def DEAD_ENTER_def)
qed

lemma client_sent_start:
  assumes g: "tc_good c" and c: "\<not> tc_freed c" "tc_cb_sent c" "0 < len" "len \<le> tc_socks_recv_tcp_pending c"
  defines "d \<equiv> (DEAD_ENTER c)\<lparr>tc_socks_recv_tcp_pending := tc_socks_recv_tcp_pending c - len\<rparr>"
  shows "tc_closable d" "tc_data_up d" "tc_data_down d" "tc_in_callback d"
    "tc_socks_recv_buf_used c > 0 \<Longrightarrow> tc_sendable (d\<lparr>tc_socks_recv_waiting := False\<rparr>)"
    "\<not> tc_socks_recv_buf_used c > 0 \<Longrightarrow> \<not> (tc_socks_closed c \<and> tc_socks_recv_tcp_pending c = len) \<Longrightarrow> tc_good d"
proof -
  have o: "\<not> tc_client_closed c" "tc_socks_up c" "tc_queue_ok c" using tc_good_open(1,3) [OF g c(1)] c by simp_all
  have e: "tc_good (DEAD_ENTER c)" using DEAD_ENTER_good [OF g c(1) o(1)] .
  have f: "tc_trace_ok d = tc_trace_ok (DEAD_ENTER c)" "tc_dead_ok d = tc_dead_ok (DEAD_ENTER c)"
    "tc_bufs_ok d = tc_bufs_ok (DEAD_ENTER c)" "tc_send_ok d = tc_send_ok (DEAD_ENTER c)"
    "tc_recv_ok d = tc_recv_ok (DEAD_ENTER c)" "tc_jobs_off d = tc_jobs_off (DEAD_ENTER c)"
    by (simp_all add: d_def tc_trace_ok_def tc_dead_ok_def tc_bufs_ok_def tc_send_ok_def tc_recv_ok_def
        tc_jobs_off_def split: dead_t.splits)
  have i: "tc_inv (DEAD_ENTER c)" using e by (simp add: tc_good_def)
  have "\<not> tc_freed d \<and> \<not> tc_client_closed d" using c o by (simp add: d_def)
  moreover have "tc_socks_ok d" if "\<not> tc_socks_closed d" using i f c that
    by (simp add: tc_inv_def tc_socks_ok_def d_def)
  ultimately show cl: "tc_closable d" using i f c by (simp add: tc_closable_def tc_inv_def)
  have v: "tc_inflight d = tc_inflight (DEAD_ENTER c)" "tc_unsent d = tc_unsent (DEAD_ENTER c)"
    "tc_arrived d = tc_arrived (DEAD_ENTER c)"
    by (simp_all add: d_def tc_inflight_def tc_unsent_def tc_arrived_def)
  have t: "tc_trace d = tc_trace (DEAD_ENTER c)" "tc_socks_closed d = tc_socks_closed (DEAD_ENTER c)"
    "tc_client_closed d = tc_client_closed (DEAD_ENTER c)" "tc_socks_up d = tc_socks_up (DEAD_ENTER c)"
    "tc_buf d = tc_buf (DEAD_ENTER c)" "tc_buf_used d = tc_buf_used (DEAD_ENTER c)"
    by (simp_all add: d_def)
  show dd: "tc_data_up d" "tc_data_down d"
    using e unfolding tc_good_def tc_data_up_def tc_data_down_def t v by blast+
  show "tc_in_callback d" by (simp add: d_def tc_in_callback_def DEAD_ENTER_def)
  have fl: "tc_freed d = tc_freed c" "tc_client_closed d = tc_client_closed c" "tc_socks_closed d = tc_socks_closed c"
    "tc_socks_up d = tc_socks_up c" "tc_cb_err d = tc_cb_err c" "tc_cb_recv d = tc_cb_recv c" "tc_cb_sent d = tc_cb_sent c"
    "tc_socks_recv_buf_used d = tc_socks_recv_buf_used c" "tc_socks_recv_buf_sent d = tc_socks_recv_buf_sent c"
    "tc_socks_recv_tcp_pending d = tc_socks_recv_tcp_pending c - len" "tc_socks_recv_if d = tc_socks_recv_if c"
    by (simp_all add: d_def DEAD_ENTER_def)
  have cb: "tc_cb_err c" "tc_cb_recv c \<longleftrightarrow> \<not> tc_socks_closed c"
    using g c o by (simp_all add: tc_good_def tc_inv_def tc_client_ok_def)
  have so: "tc_socks_ok (DEAD_ENTER c)" using i c by (simp add: tc_inv_def)
  have jo: "tc_socks_closed c \<longrightarrow> tc_jobs_off d" using so f by (simp add: tc_socks_ok_def)
  show "tc_sendable (d\<lparr>tc_socks_recv_waiting := False\<rparr>)" if u: "tc_socks_recv_buf_used c > 0"
  proof -
    have "tc_recv_ok d" if "\<not> tc_socks_closed c" using so f that o by (simp add: tc_socks_ok_def)
    then have "\<not> tc_socks_closed c \<longrightarrow> si_state (tc_socks_recv_if c) = STATE_NONE"
      using u by (auto simp: tc_recv_ok_def Let_def fl)
    moreover have "tc_closable (d\<lparr>tc_socks_recv_waiting := False\<rparr>)" using cl by (simp add: tc_closable_def)
    ultimately show ?thesis using o cb c u jo by (simp add: tc_sendable_def fl tc_queue_ok_def)
  qed
  show "tc_good d" if u: "\<not> tc_socks_recv_buf_used c > 0" "\<not> (tc_socks_closed c \<and> tc_socks_recv_tcp_pending c = len)"
  proof -
    have "tc_client_ok d" using u o cb c by (auto simp: tc_client_ok_def tc_queue_ok_def fl)
    moreover have "tc_socks_ok d" using so f u o c jo by (auto simp: tc_socks_ok_def fl)
    ultimately show ?thesis using cl dd by (simp add: tc_good_def tc_inv_def tc_closable_def)
  qed
qed

lemma client_sent_func_good:
  assumes g: "tc_good c" and c: "\<not> tc_freed c" "tc_cb_sent c" "0 < len" "len \<le> tc_socks_recv_tcp_pending c"
    and sync: "\<And>e. tc_job\<^sup>*\<^sup>* e (sync e)"
  shows "\<exists>d. client_sent_func lw sync c len = callback_result d \<and> tc_good d \<and> tc_in_callback d"
proof -
  define d where "d = (DEAD_ENTER c)\<lparr>tc_socks_recv_tcp_pending := tc_socks_recv_tcp_pending c - len\<rparr>"
  note s = client_sent_start [OF g c, folded d_def]
  have o: "\<not> tc_client_closed d" "tc_socks_up d" "tc_socks_recv_buf_used d = tc_socks_recv_buf_used c"
    "tc_socks_closed d = tc_socks_closed c" "tc_socks_recv_tcp_pending d = tc_socks_recv_tcp_pending c - len"
    using tc_good_open(1,3) [OF g c(1)] c by (simp_all add: d_def)
  have eq: "client_sent_func lw sync c len =
     (if tc_socks_recv_buf_used c > 0
      then let (e, r) = client_socks_recv_send_out lw (d\<lparr>tc_socks_recv_waiting := False\<rparr>) in
        if r < 0 then callback_result e
        else if tc_socks_recv_buf_used e = -1 \<and> \<not> tc_socks_closed e
        then callback_result (sync (client_socks_recv_initiate e)) else callback_result e
      else if tc_socks_closed c \<and> tc_socks_recv_tcp_pending c = len
      then callback_result (client_free_client lw d) else callback_result d)"
    by (simp add: client_sent_func_def Let_def d_def)
  show ?thesis
  proof (cases "tc_socks_recv_buf_used c > 0")
    case True
    let ?s = "d\<lparr>tc_socks_recv_waiting := False\<rparr>"
    obtain e r where r: "client_socks_recv_send_out lw ?s = (e, r)" by fastforce
    have ss: "tc_sendable ?s" using s(5) True by simp
    then have b: "0 \<le> tc_socks_recv_buf_sent ?s" "tc_socks_recv_buf_sent ?s < tc_socks_recv_buf_used ?s"
      "si_state (tc_socks_recv_if ?s) = STATE_NONE \<or> tc_socks_closed ?s"
      by (auto simp: tc_sendable_def)
    note inv = client_socks_recv_send_out_inv [OF ss r]
    have data: "tc_data_up e" "tc_data_down e" "tc_in_callback e" "r < 0 \<or> tc_socks_recv_if e = tc_socks_recv_if d"
      using client_socks_recv_send_out_data [OF _ _ b(1,2) _ _ r] s(2,3,4) o by (auto simp: tc_in_callback_def)
    have k: "\<not> r < 0 \<Longrightarrow> tc_socks_closed e = tc_socks_closed d"
      using client_socks_recv_send_out_keeps [OF b(1,2) r] by simp
    have "tc_good (client_socks_recv_initiate e)"
      if "\<not> r < 0" "tc_socks_recv_buf_used e = -1" "\<not> tc_socks_closed e"
    proof -
      let ?i = "client_socks_recv_initiate e"
      have "tc_arrived e = []" using data(4) b(3) that k by (simp add: tc_arrived_def)
      then have f: "tc_inflight ?i = tc_inflight e" "tc_unsent ?i = tc_unsent e" "tc_arrived ?i = tc_arrived e"
        by (simp_all add: client_socks_recv_initiate_def tc_inflight_def tc_unsent_def tc_arrived_def
            StreamRecvInterface_Receiver_Recv_def)
      have t: "tc_trace ?i = tc_trace e" "tc_socks_closed ?i = tc_socks_closed e"
        "tc_client_closed ?i = tc_client_closed e" "tc_socks_up ?i = tc_socks_up e"
        "tc_buf ?i = tc_buf e" "tc_buf_used ?i = tc_buf_used e"
        by (simp_all add: client_socks_recv_initiate_def)
      have "tc_data_up ?i" "tc_data_down ?i"
        using data(1,2) unfolding tc_data_up_def tc_data_down_def t f by blast+
      then show ?thesis using inv that by (simp add: tc_good_def)
    qed
    then have "tc_good (sync (client_socks_recv_initiate e)) \<and> tc_in_callback (sync (client_socks_recv_initiate e))"
      if "\<not> r < 0" "tc_socks_recv_buf_used e = -1" "\<not> tc_socks_closed e"
      using tc_jobs_good [OF sync] that data(3) by simp
    then show ?thesis using inv data r True by (auto simp: eq tc_good_def)
  next
    case False
    have f: "tc_freed d = tc_freed c" by (simp add: d_def)
    have "tc_inv (client_free_client lw d)" by (rule client_free_client_inv [OF s(1)])
    then have "tc_good (client_free_client lw d)"
      using tc_down_data_up [OF client_take_down(2)] tc_down_data_down [OF client_take_down(2)] s(2,3)
      by (simp add: tc_good_def)
    moreover have "tc_in_callback (client_free_client lw d)"
      using tc_down_view(14) [OF client_take_down(2), of lw d] s(4) by simp
    ultimately show ?thesis using False s(4,6) by (auto simp: eq)
  qed
qed

section \<open>Reachable clients\<close>

lemma tc_step_good:
  assumes "tc_step c c'" "tc_good c"
  shows "tc_good c'"
  using assms(1)
proof cases
  case job
  then show ?thesis using tc_job_good assms(2) by blast
next
  case (err lw)
  then show ?thesis using client_err_func_good assms(2) by simp
next
  case (recv_eof lw sync)
  then show ?thesis using client_recv_func_eof [OF assms(2)] callback_result_good by metis
next
  case (recv_data x sync lw)
  then show ?thesis using client_recv_func_data [OF assms(2)] callback_result_good by metis
next
  case (recv_refused x lw sync)
  then show ?thesis using client_recv_func_refused(1) [OF assms(2)] by simp
next
  case (sent len sync lw)
  then show ?thesis using client_sent_func_good [OF assms(2)] callback_result_good by metis
next
  case murder
  then have "tc_inv (client_murder c)" using client_murder_inv [of c] assms(2) by (simp add: tc_good_def)
  then show ?thesis using tc_good_down [OF assms(2) client_murder_down] murder by simp
qed

text \<open>
  The memory of a client before it is initialised: its two buffers have their sizes, and
  nothing has been logged.
\<close>

definition tc_fresh :: "tcp_client \<Rightarrow> bool" where
  "tc_fresh c \<longleftrightarrow>
     tc_trace c = [] \<and> \<not> tc_freed c \<and> int (length (tc_socks_recv_buf c)) = CLIENT_SOCKS_RECV_BUF_SIZE \<and> tc_jobs_off c"

definition tc_reach :: "tcp_client \<Rightarrow> bool" where
  "tc_reach c \<longleftrightarrow>
     (\<exists>fresh sync r c0. tc_fresh fresh \<and> (\<forall>e. tc_job\<^sup>*\<^sup>* e (sync e)) \<and>
        listener_accept_func (Some fresh) True True sync = (Some c0, r) \<and> tc_step\<^sup>*\<^sup>* c0 c)"

lemma client_init_good: "tc_fresh c \<Longrightarrow> tc_good (client_init c)"
  by (simp add: tc_fresh_def client_init_def tc_good_def tc_inv_def tc_trace_ok_def tc_dead_ok_def tc_bufs_ok_def
      tc_client_ok_def tc_socks_ok_def tc_jobs_off_def tc_data_up_def tc_data_down_def tc_inflight_def)

lemma listener_accept_func_good:
  assumes "tc_fresh fresh" "\<And>e. tc_job\<^sup>*\<^sup>* e (sync e)"
  shows "\<exists>d. listener_accept_func (Some fresh) True True sync =
     (Some (fst (callback_result d)), snd (callback_result d)) \<and> tc_good d \<and> tc_in_callback d"
proof -
  have "tc_good (DEAD_ENTER (client_init fresh))"
    using client_init_good [OF assms(1)] assms(1)
    by (intro DEAD_ENTER_good) (simp_all add: client_init_def tc_fresh_def)
  then have "tc_good (sync (DEAD_ENTER (client_init fresh))) \<and> tc_in_callback (sync (DEAD_ENTER (client_init fresh)))"
    using tc_jobs_good [OF assms(2)] by simp
  then show ?thesis
    by (intro exI [of _ "sync (DEAD_ENTER (client_init fresh))"])
      (simp add: listener_accept_func_def split: prod.splits)
qed

lemma tc_reach_good:
  assumes "tc_reach c"
  shows "tc_good c"
proof -
  obtain fresh sync r c0 where a: "tc_fresh fresh" "\<And>e. tc_job\<^sup>*\<^sup>* e (sync e)"
    "listener_accept_func (Some fresh) True True sync = (Some c0, r)" "tc_step\<^sup>*\<^sup>* c0 c"
    using assms unfolding tc_reach_def by blast
  have "tc_good c0" using listener_accept_func_good [OF a(1,2)] a(3) callback_result_good by auto
  with a(4) show ?thesis by (induction) (auto intro: tc_step_good)
qed

section \<open>A concrete run\<close>

definition demo_lw :: lwip_answers where
  "demo_lw = \<lparr>lw_close = ERR_OK, lw_sndbuf = (\<lambda>_. 100), lw_write = (\<lambda>_. ERR_OK), lw_output = ERR_OK\<rparr>"

definition demo_fresh :: tcp_client where
  "demo_fresh = \<lparr>tc_aborted = False, tc_dead_aborted = DEAD_NULL, tc_client_closed = False, tc_buf = [0, 0, 0, 0],
     tc_buf_used = 0, tc_socks_up = False, tc_socks_closed = False, tc_socks_send_if = StreamPassInterface_Init 0,
     tc_socks_recv_if = StreamRecvInterface_Init 0, tc_socks_recv_buf = replicate 8192 0,
     tc_socks_recv_buf_used = 0, tc_socks_recv_buf_sent = 0, tc_socks_recv_waiting = False,
     tc_socks_recv_tcp_pending = 0, tc_cb_err = False, tc_cb_recv = False, tc_cb_sent = False, tc_freed = False,
     tc_trace = []\<rparr>"

definition demo_tc0 :: tcp_client where
  "demo_tc0 = demo_fresh\<lparr>tc_cb_err := True, tc_cb_recv := True\<rparr>"

definition demo_tc1 :: tcp_client where
  "demo_tc1 = demo_tc0\<lparr>tc_buf := [1, 2, 0, 0], tc_buf_used := 2, tc_trace := [LwipGot [1, 2]]\<rparr>"

definition demo_tc2 :: tcp_client where
  "demo_tc2 = client_socks_handler demo_lw demo_tc1 BSOCKSCLIENT_EVENT_UP"

definition demo_tc3 :: tcp_client where
  "demo_tc3 = demo_tc2\<lparr>tc_socks_send_if := StreamPassInterface_job_operation (tc_socks_send_if demo_tc2)\<rparr>"

definition demo_tc4 :: tcp_client where
  "demo_tc4 = tc_log (SocksTook [1, 2])
     (demo_tc3\<lparr>tc_socks_send_if := StreamPassInterface_Done (tc_socks_send_if demo_tc3) 2\<rparr>)"

definition demo_tc5 :: tcp_client where
  "demo_tc5 = client_socks_send_handler_done demo_lw
      (demo_tc4\<lparr>tc_socks_send_if := StreamPassInterface_job_done (tc_socks_send_if demo_tc4)\<rparr>)
      (si_job_done_len (tc_socks_send_if demo_tc4))"

lemmas demo_tc_defs = demo_fresh_def demo_tc0_def demo_tc1_def demo_tc2_def demo_tc3_def demo_tc4_def demo_tc5_def
  client_socks_handler_def client_send_to_socks_def client_socks_recv_initiate_def spi_defs sri_defs tc_log_def
  client_socks_send_handler_done_def

lemma demo_tc_step1: "tc_step demo_tc0 demo_tc1"
proof -
  have "tc_step demo_tc0 (fst (client_recv_func demo_lw (\<lambda>e. e) (tc_log (LwipGot [1, 2]) demo_tc0) (Some [1, 2])))"
    by (rule tc_step.recv_data) (simp_all add: demo_tc_defs)
  also have "fst (client_recv_func demo_lw (\<lambda>e. e) (tc_log (LwipGot [1, 2]) demo_tc0) (Some [1, 2])) = demo_tc1"
    by (simp add: client_recv_func_def callback_result_def DEAD_LEAVE2_def DEAD_KILLED_def DEAD_ENTER_def
        demo_tc_defs mem_write_def)
  finally show ?thesis .
qed

lemma demo_tc_step2: "tc_step demo_tc1 demo_tc2"
  unfolding demo_tc2_def by (intro tc_step.job tc_job.socks_event) (simp_all add: demo_tc_defs)

lemma demo_tc_step3: "tc_step demo_tc2 demo_tc3"
  unfolding demo_tc3_def by (intro tc_step.job tc_job.send_operation) (simp_all add: demo_tc_defs)

lemma demo_tc_step4: "tc_step demo_tc3 demo_tc4"
proof -
  have "tc_step demo_tc3 (tc_log (SocksTook (mem_read (nat (si_job_operation_data (tc_socks_send_if demo_tc3))) (nat 2)
       (tc_buf demo_tc3))) (demo_tc3\<lparr>tc_socks_send_if := StreamPassInterface_Done (tc_socks_send_if demo_tc3) 2\<rparr>))"
    by (intro tc_step.job tc_job.send_done) (simp_all add: demo_tc_defs)
  moreover have "mem_read (nat (si_job_operation_data (tc_socks_send_if demo_tc3))) (nat 2) (tc_buf demo_tc3) = [1, 2]"
    by (simp add: demo_tc_defs mem_read_def)
  ultimately show ?thesis by (simp add: demo_tc4_def)
qed

lemma demo_tc_step5: "tc_step demo_tc4 demo_tc5"
  unfolding demo_tc5_def by (intro tc_step.job tc_job.send_job_done) (simp_all add: demo_tc_defs)

lemma demo_tc_reach: "tc_reach demo_tc5" "tc_reach demo_tc0"
proof -
  have a: "listener_accept_func (Some demo_fresh) True True (\<lambda>e. e) = (Some demo_tc0, ERR_OK)"
    by (simp add: listener_accept_func_def client_init_def callback_result_def DEAD_LEAVE2_def DEAD_KILLED_def
        DEAD_ENTER_def demo_tc_defs)
  have f: "tc_fresh demo_fresh" by (simp add: tc_fresh_def tc_jobs_off_def demo_tc_defs)
  have "tc_step\<^sup>*\<^sup>* demo_tc0 demo_tc5"
    using demo_tc_step1 demo_tc_step2 demo_tc_step3 demo_tc_step4 demo_tc_step5 by (meson converse_rtranclp_into_rtranclp rtranclp.rtrancl_refl)
  then have "tc_reach c" if "c = demo_tc5 \<or> c = demo_tc0" for c
    unfolding tc_reach_def using a f that
    by (intro exI [of _ demo_fresh] exI [of _ "\<lambda>e. e"] exI [of _ ERR_OK] exI [of _ demo_tc0]) auto
  then show "tc_reach demo_tc5" "tc_reach demo_tc0" by simp_all
qed

section \<open>Properties\<close>



text \<open>
  C14: The client forwards both directions unchanged and in order. What the SOCKS connection took is a prefix of
  what lwIP received, and while the SOCKS end is open the rest is exactly what the buffer holds; what was queued at
  lwIP is a prefix of what SOCKS delivered, and while both ends are open the rest is exactly what is still to be
  queued. Never more bytes are confirmed to lwIP than SOCKS took.
\<close>

theorem tcp_client_forwarding:
  assumes "tc_reach c"
  shows "prefix (took (tc_trace c)) (received (tc_trace c)) \<and>
    prefix (written (tc_trace c)) (delivered (tc_trace c)) \<and>
    acked (tc_trace c) \<le> int (length (took (tc_trace c))) \<and>
    (\<not> tc_socks_closed c \<longrightarrow>
       received (tc_trace c) = took (tc_trace c) @ drop (nat (tc_inflight c)) (take (nat (tc_buf_used c)) (tc_buf c))) \<and>
    (tc_socks_up c \<and> \<not> tc_client_closed c \<and> \<not> tc_socks_closed c \<longrightarrow>
       delivered (tc_trace c) = written (tc_trace c) @ tc_unsent c @ tc_arrived c)"
  using tc_reach_good [OF assms] by (simp add: tc_good_def tc_data_up_def tc_data_down_def)

theorem tcp_client_forwarding_witness:
  "tc_reach demo_tc5 \<and> received (tc_trace demo_tc5) = [1, 2] \<and> took (tc_trace demo_tc5) = [1, 2] \<and>
   acked (tc_trace demo_tc5) = 2 \<and> prefix (took (tc_trace demo_tc5)) (received (tc_trace demo_tc5))"
  using tcp_client_forwarding [OF demo_tc_reach(1)] demo_tc_reach(1) by (simp add: demo_tc_defs)

lemma callback_abort:
  assumes "tc_good d" "tc_in_callback d"
  shows "snd (callback_result d) =
    (if TcpAbort \<in> set (tc_trace (fst (callback_result d))) then ERR_ABRT else ERR_OK)"
proof -
  have i: "tc_inv d" using assms by (simp add: tc_good_def)
  have "tc_trace_ok (fst (callback_result d))" using callback_result_inv(1) [OF i assms(2)] by (simp add: tc_inv_def)
  then have "TcpAbort \<in> set (tc_trace (fst (callback_result d))) \<longleftrightarrow> tc_aborted (fst (callback_result d))"
    using count_list_0_iff [of "tc_trace (fst (callback_result d))" TcpAbort] by (auto simp: tc_trace_ok_def)
  then show ?thesis using callback_result_inv(2) [OF i assms(2)] by simp
qed



text \<open>
  C16: While lwIP keeps to the receive window, that is delivers no more unconfirmed data than the client's buffer
  holds, \<^verbatim>\<open>client_recv_func\<close> never runs out of buffer space.
\<close>

theorem tcp_client_window:
  assumes "tc_reach c" "\<not> tc_freed c" "tc_cb_recv c"
    and w: "int (length (received (tc_trace c)) + length x) - acked (tc_trace c) \<le> int (length (tc_buf c))"
  shows "snd (client_recv_func lw sync c (Some x)) \<noteq> ERR_MEM"
proof -
  have g: "tc_good c" by (rule tc_reach_good [OF assms(1)])
  have o: "\<not> tc_client_closed c" "\<not> tc_socks_closed c" using tc_good_open(1,2) [OF g assms(2)] assms(3) by simp_all
  then have r: "received (tc_trace c) = took (tc_trace c) @ drop (nat (tc_inflight c)) (take (nat (tc_buf_used c)) (tc_buf c))"
    and a: "acked (tc_trace c) = int (length (took (tc_trace c))) - tc_inflight c"
    and b: "0 \<le> tc_buf_used c" "tc_buf_used c \<le> int (length (tc_buf c))" and q: "tc_socks_ok c"
    using g assms(2) by (simp_all add: tc_good_def tc_data_up_def tc_inv_def tc_bufs_ok_def)
  have i: "0 \<le> tc_inflight c" "tc_inflight c \<le> tc_buf_used c"
    using q o b by (auto simp: tc_socks_ok_def tc_send_ok_def Let_def tc_inflight_def split: if_splits)
  have "int (length (received (tc_trace c))) = int (length (took (tc_trace c))) + (tc_buf_used c - tc_inflight c)"
    using i b by (simp add: r)
  then have "int (length x) \<le> int (length (tc_buf c)) - tc_buf_used c" using w a by simp
  then show ?thesis by (simp add: client_recv_func_def Let_def callback_result_def)
qed

theorem tcp_client_window_witness:
  "tc_reach demo_tc5 \<and> tc_cb_recv demo_tc5 \<and> length (tc_buf demo_tc5) = 4 \<and>
   snd (client_recv_func demo_lw (\<lambda>e. e) demo_tc5 (Some [1, 2, 3, 4])) \<noteq> ERR_MEM"
proof -
  have d: "\<not> tc_freed demo_tc5" "tc_cb_recv demo_tc5" "length (tc_buf demo_tc5) = 4"
    "received (tc_trace demo_tc5) = [1, 2]" "acked (tc_trace demo_tc5) = 2"
    by (simp_all add: demo_tc_defs mem_write_def mem_read_def)
  then show ?thesis using tcp_client_window [OF demo_tc_reach(1) d(1,2), of "[1, 2, 3, 4]"] demo_tc_reach(1) by simp
qed



end
