(* ===== verification/Spec2Isabelle.thy ===== *)
theory Spec2Isabelle
  imports Alloc PacketFlow IpProto PacketProto BAddr BPending BAVLSpec TunUdp SocksClient TcpRuns
begin

text \<open>
  Cypher Connect is an Android VPN client. Its traffic passes through native C code under
  \<^verbatim>\<open>src/core/src/main/jni\<close>: \<^verbatim>\<open>tun2socks\<close> (the directory \<^verbatim>\<open>badvpn\<close>) reads IP packets from the
  TUN device, terminates the TCP connections in them with the lwIP stack and carries their data,
  and the UDP datagrams, to a SOCKS5 server on the same host. This development models that data
  path and proves what makes its parts correct. The code is the one the Android build compiles:
  little endian, with \<^verbatim>\<open>NDEBUG\<close>, so that the assertions of the source are not executed. They
  appear here as properties to be proved.

  \<^bold>\<open>How the parts interact.\<close> Everything runs in one event loop. A job list (\<^verbatim>\<open>BPending\<close>)
  holds calls to be made next; components are connected by small interfaces (\<^verbatim>\<open>PacketPassInterface\<close>
  and its three siblings) through which one side submits an operation and the other completes it,
  each through a job. A TCP client of tun2socks sits between lwIP's callbacks and the
  interfaces of a \<^verbatim>\<open>BSocksClient\<close>, which first performs the SOCKS5 handshake over a connection. Packets
  that wait are kept in a \<^verbatim>\<open>PacketBuffer\<close>, on top of the ring buffer \<^verbatim>\<open>ChunkBuffer2\<close>; a stream of
  packets is framed by \<^verbatim>\<open>PacketProtoEncoder\<close> and taken apart by \<^verbatim>\<open>PacketProtoDecoder\<close>.

  \<^bold>\<open>Conventions.\<close> A C \<^verbatim>\<open>int\<close> is an \<^typ>\<open>int\<close>, with the conversions from unsigned types
  written out; the fixed-width types are words. Memory is a list of bytes with explicit reads and
  writes at offsets. A component is a record, with the interface records it is connected to inside it, and an operation is a
  function on it; a failed allocation is a branch of the result. The answers of lwIP, of \<^verbatim>\<open>malloc\<close> and
  of the other parts outside of the model are parameters. What may happen in which order is an
  inductive step relation over the handlers, the interface jobs and an arbitrary environment; its reachable
  states carry the invariants.

  \<^bold>\<open>The theories\<close>, in the order of their imports (paths below \<^verbatim>\<open>badvpn/\<close>).

  \<^item> \<^verbatim>\<open>Prelude\<close>, \<^verbatim>\<open>ByteOrder\<close>: byte memory, \<^verbatim>\<open>misc/byteorder.h\<close>, \<^verbatim>\<open>misc/read_write_int.h\<close>,
    \<^verbatim>\<open>misc/bsize.h\<close>, \<^verbatim>\<open>misc/minmax.h\<close>, \<^verbatim>\<open>misc/compare.h\<close>, with the round trips of the accessors.

  \<^item> \<^verbatim>\<open>Alloc\<close>: \<^verbatim>\<open>misc/balloc.h\<close>, \<^verbatim>\<open>misc/balign.h\<close>: the size computations of the allocation wrappers do not
    wrap around.

  \<^item> \<^verbatim>\<open>ChunkBuffer\<close>: \<^verbatim>\<open>structure/ChunkBuffer2.h\<close>: the ring buffer of packets; its invariant,
    the packets it holds as a list, and that submitting appends and consuming removes the first.

  \<^item> \<^verbatim>\<open>FlowInterface\<close>: \<^verbatim>\<open>flow/PacketPassInterface\<close>, \<^verbatim>\<open>PacketRecvInterface\<close>, \<^verbatim>\<open>StreamPassInterface\<close>,
    \<^verbatim>\<open>StreamRecvInterface\<close>: the state machine of an operation and its two jobs.

  \<^item> \<^verbatim>\<open>PacketFlow\<close>: \<^verbatim>\<open>flow/PacketBuffer.c\<close>: under every interleaving packets come out unchanged and in order,
    no interface is used out of turn, and the buffer never stalls.

  \<^item> \<^verbatim>\<open>IpProto\<close>: \<^verbatim>\<open>misc/ipv4_proto.h\<close>, \<^verbatim>\<open>misc/ipv6_proto.h\<close>, \<^verbatim>\<open>misc/udp_proto.h\<close>: what the packet checks accept, and the Internet
    checksums.

  \<^item> \<^verbatim>\<open>PacketProto\<close>: \<^verbatim>\<open>flow/PacketProtoEncoder.c\<close>, \<^verbatim>\<open>flow/PacketProtoDecoder.c\<close>: the decoder recovers exactly the
    encoded packets, however the stream is cut into pieces.

  \<^item> \<^verbatim>\<open>BAddr\<close>: \<^verbatim>\<open>system/BAddr.h\<close>: comparison is a linear order, parsing inverts printing.

  \<^item> \<^verbatim>\<open>TunUdp\<close>: UDP at the TUN device in \<^verbatim>\<open>tun2socks/tun2socks.c\<close>: which datagrams are taken out of packets, and
    that the packets built for answers are read back as the same datagrams.

  \<^item> \<^verbatim>\<open>Simulation\<close>, \<^verbatim>\<open>LinkedList\<close>, \<^verbatim>\<open>BPending\<close>: forward simulation in general; the intrusive lists
    \<^verbatim>\<open>structure/LinkedList1.h\<close> and \<^verbatim>\<open>structure/SLinkedList_impl.h\<close> on a store of nodes; the job list
    \<^verbatim>\<open>base/BPending.c\<close> and \<^verbatim>\<open>BReactor_Synchronize\<close>.

  \<^item> \<^verbatim>\<open>BAVL\<close>, \<^verbatim>\<open>BAVLTree\<close>, \<^verbatim>\<open>BAVLOps\<close>, \<^verbatim>\<open>BAVLSpec\<close>: the intrusive AVL tree \<^verbatim>\<open>structure/BAVL.h\<close> on a store of
    nodes: rotation, rebalancing, swapping, insertion and removal on trees with a hole; every sequence of
    operations implements the one on a sorted list, and the tree stays balanced.

  \<^item> \<^verbatim>\<open>SocksProto\<close>, \<^verbatim>\<open>SocksClient\<close>: \<^verbatim>\<open>misc/socks_proto.h\<close>, \<^verbatim>\<open>socksclient/BSocksClient.c\<close>: the handshake refines
    the packet exchange of the protocol, its assertions hold, and freeing releases everything.

  \<^item> \<^verbatim>\<open>TcpClient\<close>, \<^verbatim>\<open>TcpForward\<close>, \<^verbatim>\<open>TcpRuns\<close>: the TCP clients of \<^verbatim>\<open>tun2socks/tun2socks.c\<close> and the dead variables of
    \<^verbatim>\<open>misc/dead.h\<close>: life cycle, forwarding in both directions, window, assertions.

  \<^bold>\<open>Bounds and fuel.\<close> No model needs fuel for a claim that code returns: loops that always end are total functions with a
  termination proof, and a loop whose end depends on its environment is a partial function into
  an option type, whose end is proved where it is claimed (\<^verbatim>\<open>BReactor_Synchronize\<close>, the loops of the AVL tree). The walks that
  state what a list contains are bounded by the number of its nodes, and hold for every larger bound.

  \<^bold>\<open>Not modelled.\<close> lwIP (the directory \<^verbatim>\<open>lwip\<close>) is third-party code: it appears as the
  environment that calls the callbacks of the TCP client and answers its calls. Socket, epoll, timer, TUN device and logging code
  (\<^verbatim>\<open>BConnection\<close>, \<^verbatim>\<open>BDatagram\<close>, \<^verbatim>\<open>BTap\<close>, most of \<^verbatim>\<open>BReactor\<close>, \<^verbatim>\<open>BLog\<close>) is operating system I/O. The remaining
  programs of badvpn (\<^verbatim>\<open>ncd\<close>, \<^verbatim>\<open>client\<close>, \<^verbatim>\<open>server\<close> and the rest) are not built. libevent, redsocks, libancillary, and the
  obfs plugin with libev and libcork are separate third-party programs. The Kotlin application controls these processes and
  draws the user interface.
\<close>

end
